(* ===== verification/Prelude.thy ===== *)
theory Prelude
  imports Main "HOL-Library.Sublist"
begin

text \<open>
  Shared vocabulary of the development.
  \<^item> Outcomes of a C++ routine that may not return are values of a sum type: \<open>Inl\<close> holds the
    reason, \<open>Inr\<close> the result. \<open>rbind\<close> sequences two such computations.
  \<^item> \<open>enum_table\<close> is the contract of a C++ enumeration: an ordinal per enumerator and the list of
    enumerators in declaration order. \<open>string_table\<close> adds the parallel array of display names that
    the program indexes with the enumerator.
  \<^item> Generic lemmas on lists used by several components.
\<close>

section \<open>Outcomes\<close>

definition rbind :: "'e + 'a \<Rightarrow> ('a \<Rightarrow> 'e + 'b) \<Rightarrow> 'e + 'b" where
  "rbind m f = (case m of Inl e \<Rightarrow> Inl e | Inr x \<Rightarrow> f x)"

declare rbind_def [code_unfold]

named_theorems outcome_simps

lemma rbind_Inl [simp, outcome_simps]: "rbind (Inl e) f = Inl e"
  by (simp add: rbind_def)

lemma rbind_Inr [simp, outcome_simps]: "rbind (Inr x) f = f x"
  by (simp add: rbind_def)

lemma rbind_eq_Inr: "rbind m f = Inr y \<longleftrightarrow> (\<exists>x. m = Inr x \<and> f x = Inr y)"
  by (cases m) auto

lemma rbind_eq_Inl: "rbind m f = Inl e \<longleftrightarrow> m = Inl e \<or> (\<exists>x. m = Inr x \<and> f x = Inl e)"
  by (cases m) auto

lemma rbind_InrE [elim!]:
  assumes "rbind m f = Inr y"
  obtains x where "m = Inr x" and "f x = Inr y"
  using assms by (auto simp: rbind_eq_Inr)

lemma rbind_cong [fundef_cong]:
  "m = m' \<Longrightarrow> (\<And>x. m' = Inr x \<Longrightarrow> f x = f' x) \<Longrightarrow> rbind m f = rbind m' f'"
  by (cases m') auto

lemma rbind_assoc: "rbind (rbind m f) g = rbind m (\<lambda>x. rbind (f x) g)"
  by (cases m) auto

definition isr :: "'e + 'a \<Rightarrow> bool" where
  "isr m = (case m of Inl _ \<Rightarrow> False | Inr _ \<Rightarrow> True)"

lemma isr_simps [simp]: "isr (Inr x)" "\<not> isr (Inl e)"
  by (simp_all add: isr_def)

lemma isr_iff: "isr m \<longleftrightarrow> (\<exists>x. m = Inr x)"
  by (cases m) auto

text \<open>A routine applied to the elements of a vector in turn; the first failure ends it.\<close>

fun rmap :: "('a \<Rightarrow> 'e + 'b) \<Rightarrow> 'a list \<Rightarrow> 'e + 'b list" where
  "rmap f [] = Inr []"
| "rmap f (x # xs) = rbind (f x) (\<lambda>y. rbind (rmap f xs) (\<lambda>ys. Inr (y # ys)))"

lemma rmap_cong [fundef_cong]:
  "xs = ys \<Longrightarrow> (\<And>x. x \<in> set ys \<Longrightarrow> f x = g x) \<Longrightarrow> rmap f xs = rmap g ys"
proof (induction ys arbitrary: xs)
  case (Cons y ys)
  then show ?case by (auto intro!: rbind_cong)
qed simp

lemma rmap_Inr: "rmap f xs = Inr ys \<longleftrightarrow> list_all2 (\<lambda>x y. f x = Inr y) xs ys"
  by (induction xs arbitrary: ys) (auto simp: rbind_eq_Inr list_all2_Cons1)

section \<open>Enumerations and their tables of names\<close>

locale enum_table =
  fixes ordinal :: "'a \<Rightarrow> nat"
    and members :: "'a list"
  assumes ordinal_less: "ordinal x < length members"
    and members_ordinal: "members ! ordinal x = x"
begin

lemma ordinal_inj: "ordinal x = ordinal y \<Longrightarrow> x = y"
  by (metis members_ordinal)

lemma ordinal_eq_iff: "ordinal x = ordinal y \<longleftrightarrow> x = y"
  using ordinal_inj by blast

lemma in_members: "x \<in> set members"
  by (metis members_ordinal nth_mem ordinal_less)

lemma all_members: "(\<forall>x. P x) \<longleftrightarrow> list_all P members"
  by (auto simp: list_all_iff in_members)

end

locale string_table = enum_table ordinal members
  for ordinal :: "'a \<Rightarrow> nat" and members :: "'a list" +
  fixes strings :: "string list"
    and end_marker :: 'a
  assumes one_name_each: "length strings = ordinal end_marker"
    and distinct_names: "distinct strings"
begin

text \<open>The display name of an enumerator in range is read inside the array, and names tell
  enumerators apart.\<close>

lemma name_in_range: "ordinal x < ordinal end_marker \<Longrightarrow> strings ! ordinal x \<in> set strings"
  using one_name_each nth_mem by metis

lemma name_inj:
  assumes "ordinal x < ordinal end_marker" and "ordinal y < ordinal end_marker"
    and "strings ! ordinal x = strings ! ordinal y"
  shows "x = y"
proof -
  have "ordinal x = ordinal y"
    using assms distinct_names one_name_each by (metis nth_eq_iff_index_eq)
  then show ?thesis by (rule ordinal_inj)
qed

end

section \<open>Lists\<close>

lemma take_Suc_nth: "i < length xs \<Longrightarrow> take (Suc i) xs = take i xs @ [xs ! i]"
  by (rule take_Suc_conv_app_nth)

lemma drop_nth: "i < length xs \<Longrightarrow> drop i xs = xs ! i # drop (Suc i) xs"
  by (rule Cons_nth_drop_Suc [symmetric])

lemma subseq_append_right: "subseq xs ys \<Longrightarrow> subseq xs (ys @ zs)"
  by (metis append.right_neutral list_emb_append_mono list_emb_Nil)

lemma subseq_snoc: "subseq xs ys \<Longrightarrow> subseq (xs @ [z]) (ys @ [z])"
  by (simp add: list_emb_append_mono)

lemma nth_in_set: "i < length xs \<Longrightarrow> xs ! i = x \<Longrightarrow> x \<in> set xs"
  by auto

text \<open>\<open>std::string::substr(0, n)\<close> compared with a constant: the prefix tests of the program.\<close>

definition has_prefix :: "string \<Rightarrow> string \<Rightarrow> bool" where
  "has_prefix p s \<longleftrightarrow> take (length p) s = p"

lemma has_prefix_append: "has_prefix p (p @ s)"
  by (simp add: has_prefix_def)

end
