(* ===== verification/Tokens.thy ===== *)
theory Tokens
  imports Prelude "HOL-Library.Word"
begin

text \<open>
  The token data model of \<^verbatim>\<open>src/src/tokenizer.h\<close>: the enumeration \<open>TokenType\<close> with its ordinals
  and display names, the token object \<open>tokenDataType\<close> and its equality, and the outcomes shared
  by every routine that walks tokens (\<open>failure\<close>).
\<close>

section \<open>Token types\<close>

datatype (plugins only: code) TokenType =
  Nothing | EndOfLine | EndOfFile | Comment | Identifier | Integer | Float | String |
  Character | Punctuation | Left_Paren | Right_Paren | Left_Bracket | Right_Bracket |
  Both_Brackets | Left_Brace | Right_Brace | Comma | Dot | Dot_Dot | Dot_Dot_Dot | Hash |
  Plus | Minus | Slash | Star | Star_Star | Colon | Colon_Colon | Semi_Colon | Bar | Bar_Bar |
  Bar_Bar_Bar | Ampersand | Ampersand_Ampersand | Tilde | Tilde_Tilde | Caret | Caret_Caret |
  Percent | Percent_Percent | At | At_At | Arrow_Left | Arrow_Right | Ref | Exact | Bang |
  Bang_Bang | Bang_Equal | Plus_Equal | Plus_Plus | Minus_Equal | Minus_Minus | Times_Equal |
  Slash_Equal | Equal | Equal_Equal | Less | Less_Equal | Greater | Greater_Equal |
  If_Statement | For_Statement | While_Statement | Return_Statement | Continue_Statement |
  Break_Statement | Else_Statement | Goto_Statement | Struct_Define | Module_Define |
  Operator_Keyword | True_Literal | False_Literal | LastTokenType

primrec tokenOrd :: "TokenType \<Rightarrow> nat" where
  "tokenOrd Nothing = 0"
| "tokenOrd EndOfLine = 1"
| "tokenOrd EndOfFile = 2"
| "tokenOrd Comment = 3"
| "tokenOrd Identifier = 4"
| "tokenOrd Integer = 5"
| "tokenOrd Float = 6"
| "tokenOrd String = 7"
| "tokenOrd Character = 8"
| "tokenOrd Punctuation = 9"
| "tokenOrd Left_Paren = 10"
| "tokenOrd Right_Paren = 11"
| "tokenOrd Left_Bracket = 12"
| "tokenOrd Right_Bracket = 13"
| "tokenOrd Both_Brackets = 14"
| "tokenOrd Left_Brace = 15"
| "tokenOrd Right_Brace = 16"
| "tokenOrd Comma = 17"
| "tokenOrd Dot = 18"
| "tokenOrd Dot_Dot = 19"
| "tokenOrd Dot_Dot_Dot = 20"
| "tokenOrd Hash = 21"
| "tokenOrd Plus = 22"
| "tokenOrd Minus = 23"
| "tokenOrd Slash = 24"
| "tokenOrd Star = 25"
| "tokenOrd Star_Star = 26"
| "tokenOrd Colon = 27"
| "tokenOrd Colon_Colon = 28"
| "tokenOrd Semi_Colon = 29"
| "tokenOrd Bar = 30"
| "tokenOrd Bar_Bar = 31"
| "tokenOrd Bar_Bar_Bar = 32"
| "tokenOrd Ampersand = 33"
| "tokenOrd Ampersand_Ampersand = 34"
| "tokenOrd Tilde = 35"
| "tokenOrd Tilde_Tilde = 36"
| "tokenOrd Caret = 37"
| "tokenOrd Caret_Caret = 38"
| "tokenOrd Percent = 39"
| "tokenOrd Percent_Percent = 40"
| "tokenOrd At = 41"
| "tokenOrd At_At = 42"
| "tokenOrd Arrow_Left = 43"
| "tokenOrd Arrow_Right = 44"
| "tokenOrd Ref = 45"
| "tokenOrd Exact = 46"
| "tokenOrd Bang = 47"
| "tokenOrd Bang_Bang = 48"
| "tokenOrd Bang_Equal = 49"
| "tokenOrd Plus_Equal = 50"
| "tokenOrd Plus_Plus = 51"
| "tokenOrd Minus_Equal = 52"
| "tokenOrd Minus_Minus = 53"
| "tokenOrd Times_Equal = 54"
| "tokenOrd Slash_Equal = 55"
| "tokenOrd Equal = 56"
| "tokenOrd Equal_Equal = 57"
| "tokenOrd Less = 58"
| "tokenOrd Less_Equal = 59"
| "tokenOrd Greater = 60"
| "tokenOrd Greater_Equal = 61"
| "tokenOrd If_Statement = 62"
| "tokenOrd For_Statement = 63"
| "tokenOrd While_Statement = 64"
| "tokenOrd Return_Statement = 65"
| "tokenOrd Continue_Statement = 66"
| "tokenOrd Break_Statement = 67"
| "tokenOrd Else_Statement = 68"
| "tokenOrd Goto_Statement = 69"
| "tokenOrd Struct_Define = 70"
| "tokenOrd Module_Define = 71"
| "tokenOrd Operator_Keyword = 72"
| "tokenOrd True_Literal = 73"
| "tokenOrd False_Literal = 74"
| "tokenOrd LastTokenType = 75"

definition tokenTypes :: "TokenType list" where
  "tokenTypes = [
    Nothing, EndOfLine, EndOfFile, Comment, Identifier, Integer, Float, String, Character,
    Punctuation, Left_Paren, Right_Paren, Left_Bracket, Right_Bracket, Both_Brackets,
    Left_Brace, Right_Brace, Comma, Dot, Dot_Dot, Dot_Dot_Dot, Hash, Plus, Minus, Slash, Star,
    Star_Star, Colon, Colon_Colon, Semi_Colon, Bar, Bar_Bar, Bar_Bar_Bar, Ampersand,
    Ampersand_Ampersand, Tilde, Tilde_Tilde, Caret, Caret_Caret, Percent, Percent_Percent, At,
    At_At, Arrow_Left, Arrow_Right, Ref, Exact, Bang, Bang_Bang, Bang_Equal, Plus_Equal,
    Plus_Plus, Minus_Equal, Minus_Minus, Times_Equal, Slash_Equal, Equal, Equal_Equal, Less,
    Less_Equal, Greater, Greater_Equal, If_Statement, For_Statement, While_Statement,
    Return_Statement, Continue_Statement, Break_Statement, Else_Statement, Goto_Statement,
    Struct_Define, Module_Define, Operator_Keyword, True_Literal, False_Literal, LastTokenType]"

definition tokenTypeStrings :: "string list" where
  "tokenTypeStrings = [
    ''nothing'', ''EOL'', ''EOF'', ''Comment'', ''Identifier'', ''Integer'', ''Float'',
    ''String'', ''Character'', ''Punctuation'', ''Left_Paren'', ''Right_Paren'',
    ''Left_Bracket'', ''Right_Bracket'', ''Both_Brackets'', ''Left_Brace'', ''Right_Brace'',
    ''Comma'', ''Dot'', ''Dot_Dot'', ''Dot_Dot_Dot'', ''Hash'', ''Plus'', ''Minus'', ''Slash'',
    ''Star'', ''Star_Star'', ''Colon'', ''Colon_Colon'', ''Semi_Colon'', ''Bar'', ''Bar_Bar'',
    ''Bar_Bar_Bar'', ''Ampersand'', ''Ampersand_Ampersand'', ''Tilde'', ''Tilde_Tilde'',
    ''Caret'', ''Caret_Caret'', ''Percent'', ''Percent_Percent'', ''At'', ''At_At'',
    ''Arrow_Left'', ''Arrow_Right'', ''Ref'', ''Exact'', ''Bang'', ''Bang_Bang'',
    ''Bang_Equal'', ''Plus_Equal'', ''Plus_Plus'', ''Minus_Equal'', ''Minus_Minus'',
    ''Times_Equal'', ''Slash_Equal'', ''Equal'', ''Equal_Equal'', ''Less'', ''Less_Equal'',
    ''Greater'', ''Greater_Equal'', ''If_Statement'', ''For_Statement'', ''While_Statement'',
    ''Return_Statement'', ''Continue_Statement'', ''Break_Statement'', ''Else_Statement'',
    ''Goto_Statement'', ''Struct_Define'', ''Module_Define'', ''Operator_Keyword'',
    ''True_Literal'', ''False_Literal'']"

interpretation token_table: string_table tokenOrd tokenTypes tokenTypeStrings LastTokenType
proof unfold_locales
  show "tokenOrd x < length tokenTypes" for x
    by (cases x) (simp_all add: tokenTypes_def)
  show "tokenTypes ! tokenOrd x = x" for x
    by (cases x) (simp_all add: tokenTypes_def)
  show "length tokenTypeStrings = tokenOrd LastTokenType"
    by (simp add: tokenTypeStrings_def)
  show "distinct tokenTypeStrings"
    by (simp add: tokenTypeStrings_def)
qed

text \<open>\<open>std::map\<close> orders its keys by the enumerator's value, so the type is a linear order.\<close>

instantiation TokenType :: linorder
begin

definition less_eq_TokenType :: "TokenType \<Rightarrow> TokenType \<Rightarrow> bool" where
  "less_eq_TokenType x y \<longleftrightarrow> tokenOrd x \<le> tokenOrd y"

definition less_TokenType :: "TokenType \<Rightarrow> TokenType \<Rightarrow> bool" where
  "less_TokenType x y \<longleftrightarrow> tokenOrd x < tokenOrd y"

instance
  by standard
    (auto simp: less_eq_TokenType_def less_TokenType_def token_table.ordinal_eq_iff)

end

text \<open>The display name of a token type; out of range it prints a complaint and answers a fixed text.\<close>

definition tokenAsString :: "TokenType \<Rightarrow> string" where
  "tokenAsString t =
     (if t < LastTokenType then tokenTypeStrings ! tokenOrd t else ''UNDEFINED TOKEN TYPE'')"

lemma tokenAsString_inj:
  assumes "t \<noteq> LastTokenType" and "u \<noteq> LastTokenType" and "tokenAsString t = tokenAsString u"
  shows "t = u"
proof -
  have lt: "tokenOrd x < tokenOrd LastTokenType" if "x \<noteq> LastTokenType" for x
    using that by (cases x) simp_all
  show ?thesis
    using assms lt token_table.name_inj [of t u]
    by (simp add: tokenAsString_def less_TokenType_def)
qed

section \<open>Tokens\<close>

text \<open>
  A \<open>std::string*\<close> held by a token is null, the address of the global \<open>nullStr\<close>, or the address of
  a string allocated by the tokenizer, which is a position of the store of allocated strings.
\<close>

datatype strptr = Null | NullStr | Str nat

record token =
  tk_first :: string
  tk_second :: TokenType
  tk_lineNumber :: nat
  tk_lineValue :: strptr
  tk_filePath :: strptr
  tk_indexInLine :: nat
  tk_length :: "16 word"

text \<open>The three constructors of \<open>tokenDataType\<close>; \<open>length\<close> is a \<open>uint16_t\<close> and wraps.\<close>

definition tokenDataType0 :: token where
  "tokenDataType0 = \<lparr>tk_first = '''', tk_second = Nothing, tk_lineNumber = 0,
     tk_lineValue = Null, tk_filePath = Null, tk_indexInLine = 0, tk_length = 0\<rparr>"

definition tokenDataType2 :: "string \<Rightarrow> TokenType \<Rightarrow> token" where
  "tokenDataType2 f s = tokenDataType0\<lparr>tk_first := f, tk_length := of_nat (length f), tk_second := s\<rparr>"

definition tokenDataType6 ::
  "string \<Rightarrow> TokenType \<Rightarrow> nat \<Rightarrow> nat \<Rightarrow> strptr \<Rightarrow> strptr \<Rightarrow> token" where
  "tokenDataType6 f s l i lV fP =
     \<lparr>tk_first = f, tk_second = s, tk_lineNumber = l, tk_lineValue = lV, tk_filePath = fP,
      tk_indexInLine = i, tk_length = of_nat (length f)\<rparr>"

text \<open>\<open>operator==\<close> compares the text and the type only.\<close>

definition token_eq :: "token \<Rightarrow> token \<Rightarrow> bool" where
  "token_eq a b \<longleftrightarrow> (if tk_first a = tk_first b \<and> tk_second a = tk_second b then True else False)"

lemma token_eq_refl [simp]: "token_eq t t"
  by (simp add: token_eq_def)

lemma token_eq_sym: "token_eq a b \<Longrightarrow> token_eq b a"
  by (simp add: token_eq_def split: if_splits)

lemma token_eq_trans: "token_eq a b \<Longrightarrow> token_eq b c \<Longrightarrow> token_eq a c"
  by (simp add: token_eq_def split: if_splits)

section \<open>Outcomes of the routines that walk tokens\<close>

text \<open>
  \<^item> \<open>Diagnosed t msg\<close>: \<open>printTokenError\<close> on token \<open>t\<close> followed by \<open>exit(1)\<close>;
  \<^item> \<open>Exited msg\<close>: a plain message followed by \<open>exit(1)\<close>;
  \<^item> \<open>Thrown what\<close>: a C++ exception that nothing in the program catches;
  \<^item> \<open>Undefined_Behaviour\<close>: a read past the end of a vector, a null pointer followed, or signed
    overflow;
  \<^item> \<open>Shared_Node\<close>: not an outcome of the program; the model stops here because the next step
    changes a node that is reachable twice, which a tree value cannot express;
  \<^item> \<open>Out_Of_Fuel\<close>: the model's own bound ran out (proved not to happen where it is used).
\<close>

datatype failure =
    Diagnosed token string
  | Exited string
  | Thrown string
  | Undefined_Behaviour
  | Shared_Node
  | Out_Of_Fuel

type_synonym 'a outcome = "failure + 'a"

text \<open>
  \<open>printTokenError\<close> follows the token's \<open>filePath\<close> and \<open>lineValue\<close> pointers before anything else
  can happen, so on a token without them the report itself is undefined.
\<close>

definition token_error :: "token \<Rightarrow> string \<Rightarrow> 'a outcome" where
  "token_error t msg =
     (if tk_filePath t = Null \<or> tk_lineValue t = Null then Inl Undefined_Behaviour
      else Inl (Diagnosed t msg))"

text \<open>A report at a token whose pointers are null is itself undefined.\<close>

definition report_at :: "token \<Rightarrow> unit outcome" where
  "report_at t = (if tk_filePath t = Null \<or> tk_lineValue t = Null then Inl Undefined_Behaviour else Inr ())"

lemma token_error_not_Inr [simp]: "token_error t msg \<noteq> Inr x" "\<not> isr (token_error t msg)"
  by (auto simp: token_error_def)

text \<open>\<open>tokens[i]\<close>: \<open>operator[]\<close> of a vector is undefined past the end.\<close>

definition vec_at :: "'a list \<Rightarrow> nat \<Rightarrow> 'a outcome" where
  "vec_at xs i = (if i < length xs then Inr (xs ! i) else Inl Undefined_Behaviour)"

lemma vec_at_Inr [simp]: "vec_at xs i = Inr x \<longleftrightarrow> i < length xs \<and> x = xs ! i"
  by (auto simp: vec_at_def)

text \<open>\<open>back()\<close> and \<open>pop_back()\<close> are undefined on an empty vector.\<close>

definition vec_back :: "'a list \<Rightarrow> 'a outcome" where
  "vec_back xs = (if xs = [] then Inl Undefined_Behaviour else Inr (last xs))"

lemma vec_back_Inr [simp]: "vec_back xs = Inr x \<longleftrightarrow> xs \<noteq> [] \<and> x = last xs"
  by (auto simp: vec_back_def)

end
