(* ===== verification/Tokenizer.thy ===== *)
theory Tokenizer
  imports Tokens
begin

text \<open>
  \<^verbatim>\<open>src/src/tokenizer.cpp\<close>: the character tables and \<open>tokenize\<close>. The globals that survive a call
  (\<open>currentToken\<close>, \<open>tokenContent\<close>, \<open>lines\<close>, \<open>fileNames\<close> and the strings they point to) and the
  locals of the loop form one record. The loop over \<open>std::map\<close> entries runs in the order of the keys.
  The results: what each kind of token looks like, that no significant character is lost, and that
  line numbers never decrease.
\<close>

section \<open>Character tables\<close>

primrec charInArray :: "char \<Rightarrow> string \<Rightarrow> bool" where
  "charInArray x [] = False"
| "charInArray x (a # as) = (if a = x then True else charInArray x as)"

lemma charInArray_iff [simp]: "charInArray x as \<longleftrightarrow> x \<in> set as"
  by (induction as) auto

definition quote_char :: char where "quote_char = CHR 0x22"
definition tick_char :: char where "tick_char = CHR 0x27"
definition backslash_char :: char where "backslash_char = CHR 0x5C"
definition backquote_char :: char where "backquote_char = CHR 0x60"
definition newline_char :: char where "newline_char = CHR 0x0A"
definition tab_char :: char where "tab_char = CHR 0x09"
definition return_char :: char where "return_char = CHR 0x0D"

lemmas char_constants = quote_char_def tick_char_def backslash_char_def backquote_char_def
  newline_char_def tab_char_def return_char_def

definition letters :: string where
  "letters = ''abcdefghijklmnopqrstuvwxyzABCDEFGHIJKLMNOPQRSTUVWXYZ_''"

definition digits :: string where
  "digits = ''0123456789''"

text \<open>The characters that end every word-like token, in the order the source writes them.\<close>

definition symbols :: string where
  "symbols = '',/;()+=-'' @ [CHR 0x5C] @ ''|<>?:!@#$%^&*{}[]'' @ [CHR 0x22, CHR 0x27]"

definition blanks :: string where
  "blanks = [CHR 0x0A, CHR 0x09, CHR 0x0D]"

definition tokenStarts :: "(TokenType \<times> string) list" where
  "tokenStarts = [
     (Identifier, letters),
     (Integer, digits),
     (String, [CHR 0x22]),
     (Character, [CHR 0x27]),
     (Punctuation, ''.,/;()+=-'' @ [CHR 0x5C] @ ''|<>?:!@#$%^&*{}[]'' @ [CHR 0x60] @ ''~''),
     (EndOfLine, [CHR 0x0A]),
     (Nothing, '' '' @ [CHR 0x09])]"

definition tokenEscapes :: "(TokenType \<times> string) list" where
  "tokenEscapes = [
     (Identifier, '' .'' @ symbols @ blanks),
     (Integer, '' '' @ symbols @ blanks),
     (String, [CHR 0x22]),
     (Character, [CHR 0x27]),
     (Punctuation, '' '' @ symbols @ letters @ digits @ ''.'' @ blanks),
     (EndOfLine, '' '' @ symbols @ letters @ digits @ ''.'' @ blanks)]"

text \<open>Pairs of a last and a next character that keep a token open.\<close>

definition tokenEscapeCancels :: "(string \<times> string) list" where
  "tokenEscapeCancels = [
     (''+-*:^|!&~<>='', ''=''), (''+-'', ''+-''), (''-'', ''>''), (''/'', ''/*''), (''*'', ''*/''),
     ('':'', '':''), (''.'', ''.''), (''|'', ''|''), (''&'', ''&''), (''~'', ''~''), (''^'', ''^''),
     (''%'', ''%''), (''@'', ''@''), (''!'', ''!''), (''['', '']'')]"

definition tokenForceEscapes :: "(TokenType \<times> string) list" where
  "tokenForceEscapes = [(Integer, ''..'')]"

definition tokenContainsSwap :: "(TokenType \<times> string \<times> TokenType) list" where
  "tokenContainsSwap = [(Integer, ''.'', Float)]"

text \<open>A \<open>std::map\<close> is walked by ascending key.\<close>

definition map_order :: "('k::linorder \<times> 'v) list \<Rightarrow> ('k \<times> 'v) list" where
  "map_order m = sort_key fst m"

lemma map_order_starts: "map_order tokenStarts = [
     (Nothing, '' '' @ [CHR 0x09]), (EndOfLine, [CHR 0x0A]), (Identifier, letters),
     (Integer, digits), (String, [CHR 0x22]), (Character, [CHR 0x27]),
     (Punctuation, ''.,/;()+=-'' @ [CHR 0x5C] @ ''|<>?:!@#$%^&*{}[]'' @ [CHR 0x60] @ ''~'')]"
  by (simp add: map_order_def tokenStarts_def less_eq_TokenType_def)

lemma map_order_escapes: "map_order tokenEscapes = [
     (EndOfLine, '' '' @ symbols @ letters @ digits @ ''.'' @ blanks),
     (Identifier, '' .'' @ symbols @ blanks), (Integer, '' '' @ symbols @ blanks),
     (String, [CHR 0x22]), (Character, [CHR 0x27]),
     (Punctuation, '' '' @ symbols @ letters @ digits @ ''.'' @ blanks)]"
  by (simp add: map_order_def tokenEscapes_def less_eq_TokenType_def)

section \<open>State\<close>

record lexer =
  currentToken :: TokenType
  tokenContent :: string
  store :: "string list"
  lines :: "strptr list"
  fileNames :: "strptr list"
  lineNumber :: nat
  indexInLine :: nat
  startIndexInLine :: nat
  lineValue :: nat
  tokens :: "token list"

text \<open>\<open>new std::string(v)\<close>: the next free position of the store.\<close>

definition new_string :: "string \<Rightarrow> lexer \<Rightarrow> nat \<times> lexer" where
  "new_string v s = (length (store s), s\<lparr>store := store s @ [v]\<rparr>)"

definition line_add :: "char \<Rightarrow> lexer \<Rightarrow> lexer" where
  "line_add c s =
     (if c \<noteq> CHR 0x09
      then s\<lparr>store := (store s)[lineValue s := store s ! lineValue s @ [c]],
             indexInLine := indexInLine s + 1\<rparr>
      else s)"

section \<open>One step of the loop\<close>

fun find_start :: "(TokenType \<times> string) list \<Rightarrow> char \<Rightarrow> TokenType option" where
  "find_start [] c = None"
| "find_start ((ty, str) # rest) c =
     (if charInArray c str then (if ty = Nothing then None else Some ty) else find_start rest c)"

definition begin_token :: "char \<Rightarrow> lexer \<Rightarrow> lexer" where
  "begin_token c s =
     line_add c
       (case find_start (map_order tokenStarts) c of
          None \<Rightarrow> s
        | Some ty \<Rightarrow> s\<lparr>currentToken := ty, tokenContent := tokenContent s @ [c],
                       startIndexInLine := indexInLine s + 1\<rparr>)"

datatype scan = Cancel_End | End_Token | Go_On

definition cancels_end :: "char \<Rightarrow> char \<Rightarrow> bool" where
  "cancels_end lastChar c =
     list_ex (\<lambda>(c1, c2). charInArray lastChar c1 \<and> charInArray c c2) tokenEscapeCancels"

definition forces_end :: "TokenType \<Rightarrow> char \<Rightarrow> char \<Rightarrow> bool" where
  "forces_end cur c nextChar =
     list_ex (\<lambda>(tok, c2). cur = tok \<and> c = c2 ! 0 \<and> nextChar = c2 ! 1) tokenForceEscapes"

fun scan_escapes ::
  "(TokenType \<times> string) list \<Rightarrow> TokenType \<Rightarrow> char \<Rightarrow> char \<Rightarrow> char \<Rightarrow> scan" where
  "scan_escapes [] cur lastChar c nextChar = Go_On"
| "scan_escapes ((ty, str) # rest) cur lastChar c nextChar =
     (if ty = cur \<and> charInArray c str
      then (if cancels_end lastChar c then Cancel_End else End_Token)
      else if forces_end cur c nextChar then End_Token
      else scan_escapes rest cur lastChar c nextChar)"

definition swapped_type :: "TokenType \<Rightarrow> string \<Rightarrow> TokenType" where
  "swapped_type cur content =
     (case map_of tokenContainsSwap cur of
        None \<Rightarrow> cur
      | Some (str, ty) \<Rightarrow> if str ! 0 \<in> set content then ty else cur)"

text \<open>The code at \<open>endToken\<close>: the flag tells whether the character is looked at again (\<open>i--\<close>).\<close>

definition end_token :: "char \<Rightarrow> lexer \<Rightarrow> lexer \<times> bool" where
  "end_token c s =
     (let quoted = (currentToken s = String \<or> currentToken s = Character);
          s1 = (if quoted then line_add c (s\<lparr>tokenContent := tokenContent s @ [c]\<rparr>) else s);
          s2 = (if currentToken s1 = EndOfLine
                then let old = store s1 ! lineValue s1;
                         s' = s1\<lparr>lineNumber := lineNumber s1 + 1,
                                 store := (store s1)[lineValue s1 := butlast old],
                                 lines := lines s1 @ [Str (lineValue s1)]\<rparr>;
                         (p, s'') = new_string '''' s'
                     in s''\<lparr>lineValue := p, indexInLine := 0\<rparr>
                else s1);
          ty = swapped_type (currentToken s2) (tokenContent s2);
          t = tokenDataType6 (tokenContent s2) ty (lineNumber s2) (startIndexInLine s2)
                (Str (lineValue s2)) (last (fileNames s2))
      in (s2\<lparr>tokens := tokens s2 @ [t], tokenContent := '''', currentToken := Nothing\<rparr>,
          \<not> quoted))"

definition char_at :: "string \<Rightarrow> nat \<Rightarrow> char" where
  "char_at raw i = (if i < length raw then raw ! i else CHR 0x00)"

text \<open>One iteration at index \<open>i\<close>: the new state and the index of the next iteration.\<close>

definition tok_step :: "string \<Rightarrow> nat \<Rightarrow> lexer \<Rightarrow> lexer \<times> nat" where
  "tok_step raw i s =
     (let c = char_at raw i; nextChar = char_at raw (i + 1); lastChar = char_at raw (i - 1)
      in if currentToken s = Nothing then (begin_token c s, i + 1)
         else (case scan_escapes (map_order tokenEscapes) (currentToken s) lastChar c nextChar of
                 End_Token \<Rightarrow> (let (s', again) = end_token c s in (s', if again then i else i + 1))
               | _ \<Rightarrow> (line_add c (s\<lparr>tokenContent := tokenContent s @ [c]\<rparr>), i + 1)))"

lemma tok_step_index:
  "snd (tok_step raw i s) = i + 1 \<or>
   (snd (tok_step raw i s) = i \<and> currentToken s \<noteq> Nothing \<and> currentToken (fst (tok_step raw i s)) = Nothing)"
  by (auto simp: tok_step_def Let_def end_token_def new_string_def split: scan.splits prod.splits)

function tok_loop :: "string \<Rightarrow> nat \<Rightarrow> lexer \<Rightarrow> lexer" where
  "tok_loop raw i s =
     (if i < length raw
      then tok_loop raw (snd (tok_step raw i s)) (fst (tok_step raw i s))
      else s)"
  by pat_completeness auto

text \<open>
  A step that does not advance closes the open token, and a step without an open token advances:
  twice the distance to the end, plus one while a token is open, decreases.
\<close>

termination
proof (relation "measure (\<lambda>(raw, i, s). 2 * (length raw - i) + (if currentToken s = Nothing then 0 else 1))",
    goal_cases)
  case 1
  show ?case by simp
next
  case (2 raw i s)
  then show ?case using tok_step_index [of raw i s] by auto
qed

declare tok_loop.simps [simp del]

section \<open>tokenize\<close>

text \<open>Carriage returns are dropped and a newline is put at both ends, the second as look-ahead.\<close>

definition prepare_file :: "string \<Rightarrow> string" where
  "prepare_file raw = CHR 0x0A # filter (\<lambda>c. c \<noteq> CHR 0x0D) raw @ [CHR 0x0A]"

definition tokenize_init :: "token list \<Rightarrow> string \<Rightarrow> lexer \<Rightarrow> lexer" where
  "tokenize_init toks fileName g =
     (let (p0, g1) = new_string '''' g;
          (p1, g2) = new_string fileName g1;
          (p2, g3) = new_string '''' g2
      in g3\<lparr>lines := lines g @ [Str p0], fileNames := fileNames g @ [Str p1],
            lineNumber := 0, indexInLine := 0, startIndexInLine := 0, lineValue := p2,
            tokens := toks\<rparr>)"

definition tokenize :: "string \<Rightarrow> token list \<Rightarrow> string \<Rightarrow> lexer \<Rightarrow> lexer" where
  "tokenize raw toks fileName g =
     (let s = tok_loop (prepare_file raw) 1 (tokenize_init toks fileName g)
      in s\<lparr>tokens := tokens s @
           [tokenDataType6 '''' EndOfFile (lineNumber s + 1) 0 NullStr NullStr]\<rparr>)"

text \<open>The state before the first file is read.\<close>

definition lexer_start :: lexer where
  "lexer_start = \<lparr>currentToken = Nothing, tokenContent = '''', store = [], lines = [],
     fileNames = [], lineNumber = 0, indexInLine = 0, startIndexInLine = 0, lineValue = 0,
     tokens = []\<rparr>"

abbreviation token_texts :: "token list \<Rightarrow> string" where
  "token_texts ts \<equiv> concat (map tk_first ts)"

section \<open>Invariants of the loop\<close>

named_theorems lexer_simps

lemma line_add_fields [simp, lexer_simps]:
  "currentToken (line_add c s) = currentToken s"
  "tokenContent (line_add c s) = tokenContent s"
  "tokens (line_add c s) = tokens s"
  "lineNumber (line_add c s) = lineNumber s"
  "lineValue (line_add c s) = lineValue s"
  "fileNames (line_add c s) = fileNames s"
  "startIndexInLine (line_add c s) = startIndexInLine s"
  "length (store (line_add c s)) = length (store s)"
  by (simp_all add: line_add_def)

lemma begin_token_None:
  "find_start (map_order tokenStarts) c = None \<Longrightarrow> begin_token c s = line_add c s"
  by (simp add: begin_token_def)

lemma begin_token_Some:
  "find_start (map_order tokenStarts) c = Some ty \<Longrightarrow>
   begin_token c s = line_add c (s\<lparr>currentToken := ty, tokenContent := tokenContent s @ [c],
     startIndexInLine := indexInLine s + 1\<rparr>)"
  by (simp add: begin_token_def)

abbreviation quoted_type :: "TokenType \<Rightarrow> bool" where
  "quoted_type ty \<equiv> ty = String \<or> ty = Character"

text \<open>The token that \<open>endToken\<close> emits, and what it leaves of the state.\<close>

definition emitted :: "char \<Rightarrow> lexer \<Rightarrow> token" where
  "emitted c s = last (tokens (fst (end_token c s)))"

lemma end_token_fields [simp, lexer_simps]:
  "currentToken (fst (end_token c s)) = Nothing"
  "tokenContent (fst (end_token c s)) = ''''"
  "tokens (fst (end_token c s)) = tokens s @ [emitted c s]"
  "fileNames (fst (end_token c s)) = fileNames s"
  "snd (end_token c s) = (\<not> quoted_type (currentToken s))"
  by (auto simp: end_token_def Let_def new_string_def emitted_def)

lemma end_token_lineNumber [simp, lexer_simps]:
  "lineNumber (fst (end_token c s)) =
     (if currentToken s = EndOfLine then lineNumber s + 1 else lineNumber s)"
  by (simp add: end_token_def Let_def new_string_def)

lemma end_token_store:
  "lineValue s < length (store s) \<Longrightarrow>
   lineValue (fst (end_token c s)) < length (store (fst (end_token c s)))
   \<and> length (store s) \<le> length (store (fst (end_token c s)))"
  by (simp add: end_token_def Let_def new_string_def)

lemma emitted_fields [simp, lexer_simps]:
  "tk_first (emitted c s) = tokenContent s @ (if quoted_type (currentToken s) then [c] else [])"
  "tk_second (emitted c s) = swapped_type (currentToken s) (tk_first (emitted c s))"
  "tk_lineNumber (emitted c s) = lineNumber (fst (end_token c s))"
  "tk_lineValue (emitted c s) = Str (lineValue (fst (end_token c s)))"
  "tk_filePath (emitted c s) = last (fileNames s)"
  by (auto simp: end_token_def Let_def new_string_def emitted_def tokenDataType6_def)

text \<open>
  The three things an iteration can do, as the laws an invariant of the loop has to satisfy. The
  invariant may speak of the buffer and of the position reached.
\<close>

locale lexer_invariant =
  fixes inv :: "string \<Rightarrow> nat \<Rightarrow> lexer \<Rightarrow> bool"
  assumes inv_begin: "inv raw i s \<Longrightarrow> i < length raw \<Longrightarrow> currentToken s = Nothing \<Longrightarrow>
      inv raw (i + 1) (begin_token (raw ! i) s)"
    and inv_extend: "inv raw i s \<Longrightarrow> i < length raw \<Longrightarrow> currentToken s \<noteq> Nothing \<Longrightarrow>
      scan_escapes (map_order tokenEscapes) (currentToken s) (char_at raw (i - 1)) (raw ! i)
        (char_at raw (i + 1)) \<noteq> End_Token \<Longrightarrow>
      inv raw (i + 1) (line_add (raw ! i) (s\<lparr>tokenContent := tokenContent s @ [raw ! i]\<rparr>))"
    and inv_finish: "inv raw i s \<Longrightarrow> i < length raw \<Longrightarrow> currentToken s \<noteq> Nothing \<Longrightarrow>
      scan_escapes (map_order tokenEscapes) (currentToken s) (char_at raw (i - 1)) (raw ! i)
        (char_at raw (i + 1)) = End_Token \<Longrightarrow>
      inv raw (if quoted_type (currentToken s) then i + 1 else i) (fst (end_token (raw ! i) s))"
begin

lemma inv_step:
  assumes "inv raw i s" and "i < length raw"
  shows "inv raw (snd (tok_step raw i s)) (fst (tok_step raw i s))"
proof (cases "currentToken s = Nothing")
  case True
  with assms show ?thesis
    using inv_begin [of raw i s] by (simp add: tok_step_def char_at_def)
next
  case False
  let ?scan = "scan_escapes (map_order tokenEscapes) (currentToken s) (char_at raw (i - 1))
    (raw ! i) (char_at raw (i + 1))"
  have c: "char_at raw i = raw ! i"
    using assms(2) by (simp add: char_at_def)
  show ?thesis
  proof (cases "?scan = End_Token")
    case True
    then have "tok_step raw i s = (fst (end_token (raw ! i) s),
        if quoted_type (currentToken s) then i + 1 else i)"
      using False c end_token_fields(5) [of "raw ! i" s]
      by (simp add: tok_step_def Let_def case_prod_beta)
    with inv_finish [OF assms False True] show ?thesis by simp
  next
    case ext: False
    then have "tok_step raw i s =
        (line_add (raw ! i) (s\<lparr>tokenContent := tokenContent s @ [raw ! i]\<rparr>), i + 1)"
      using False c by (simp add: tok_step_def Let_def split: scan.split)
    with inv_extend [OF assms False ext] show ?thesis by simp
  qed
qed

lemma inv_loop:
  assumes "inv raw i s" and "i \<le> length raw"
  shows "inv raw (length raw) (tok_loop raw i s)"
  using assms
proof (induction raw i s rule: tok_loop.induct)
  case (1 raw i s)
  show ?case
  proof (cases "i < length raw")
    case True
    have "snd (tok_step raw i s) \<le> length raw"
      using tok_step_index [of raw i s] True by auto
    with 1 True show ?thesis
      by (simp add: inv_step tok_loop.simps [of raw i s])
  next
    case False
    with 1 have "i = length raw" by simp
    with 1 show ?thesis by (simp add: tok_loop.simps [of raw "length raw" s])
  qed
qed

end

subsection \<open>No significant character is lost\<close>

text \<open>A character is significant when it can start a token (not a blank, nor outside the tables).\<close>

definition solid :: "char \<Rightarrow> bool" where
  "solid c \<longleftrightarrow> find_start (map_order tokenStarts) c \<noteq> None"

definition lex_text :: "lexer \<Rightarrow> string" where
  "lex_text s = token_texts (tokens s) @ tokenContent s"

lemma not_solid_return: "\<not> solid (CHR 0x0D)"
  by (simp add: solid_def map_order_starts letters_def digits_def)

lemma solid_newline: "solid (CHR 0x0A)"
  by (simp add: solid_def map_order_starts)

lemma lex_text_begin:
  "lex_text (begin_token c s) = lex_text s @ (if solid c then [c] else [])"
  by (cases "find_start (map_order tokenStarts) c")
    (simp_all add: solid_def begin_token_None begin_token_Some lex_text_def)

lemma lex_text_extend:
  "lex_text (line_add c (s\<lparr>tokenContent := tokenContent s @ [c]\<rparr>)) = lex_text s @ [c]"
  by (simp add: lex_text_def)

lemma lex_text_finish:
  "lex_text (fst (end_token c s)) = lex_text s @ (if quoted_type (currentToken s) then [c] else [])"
  by (simp add: lex_text_def)

definition text_inv :: "string \<Rightarrow> string \<Rightarrow> nat \<Rightarrow> lexer \<Rightarrow> bool" where
  "text_inv base raw i s \<longleftrightarrow> 1 \<le> i
     \<and> filter solid (lex_text s) = filter solid (base @ tl (take i raw))
     \<and> subseq (lex_text s) (base @ tl (take i raw))"

lemma tl_take_Suc: "1 \<le> i \<Longrightarrow> i < length raw \<Longrightarrow> tl (take (i + 1) raw) = tl (take i raw) @ [raw ! i]"
  by (cases i; cases raw) (simp_all add: take_Suc_nth)

lemma text_inv_advance:
  assumes "text_inv base raw i s" and "i < length raw"
    and "lex_text s' = lex_text s @ (if b then [raw ! i] else [])" and "solid (raw ! i) \<Longrightarrow> b"
  shows "text_inv base raw (i + 1) s'"
proof -
  have t: "tl (take (i + 1) raw) = tl (take i raw) @ [raw ! i]"
    using assms(1) tl_take_Suc [OF _ assms(2)] by (simp add: text_inv_def)
  show ?thesis
    using assms t subseq_snoc [of "lex_text s" "base @ tl (take i raw)"]
      subseq_append_right [of "lex_text s" "base @ tl (take i raw)" "[raw ! i]"]
    by (auto simp: text_inv_def)
qed

interpretation lexed_text: lexer_invariant "text_inv base" for base
proof unfold_locales
  fix raw i s
  assume inv: "text_inv base raw i s" and i: "i < length raw"
  show "text_inv base raw (i + 1) (begin_token (raw ! i) s)"
    by (rule text_inv_advance [OF inv i lex_text_begin]) simp
  show "text_inv base raw (i + 1) (line_add (raw ! i) (s\<lparr>tokenContent := tokenContent s @ [raw ! i]\<rparr>))"
    by (rule text_inv_advance [OF inv i, where b = True]) (simp_all add: lex_text_extend)
  show "text_inv base raw (if quoted_type (currentToken s) then i + 1 else i)
          (fst (end_token (raw ! i) s))"
  proof (cases "quoted_type (currentToken s)")
    case True
    with text_inv_advance [OF inv i, where b = True] show ?thesis
      by (simp add: lex_text_finish)
  next
    case False
    with inv show ?thesis by (simp add: text_inv_def lex_text_finish)
  qed
qed

lemma tokenize_init_fields [simp]:
  "tokens (tokenize_init toks f g) = toks"
  "currentToken (tokenize_init toks f g) = currentToken g"
  "tokenContent (tokenize_init toks f g) = tokenContent g"
  "lineNumber (tokenize_init toks f g) = 0"
  "fileNames (tokenize_init toks f g) = fileNames g @ [Str (length (store g) + 1)]"
  "lineValue (tokenize_init toks f g) < length (store (tokenize_init toks f g))"
  by (simp_all add: tokenize_init_def new_string_def Let_def)

lemma text_inv_init:
  "text_inv (token_texts toks @ tokenContent g) raw 1 (tokenize_init toks f g)"
  by (cases raw) (simp_all add: text_inv_def lex_text_def)

lemma prepare_file_length: "1 \<le> length (prepare_file raw)"
  by (simp add: prepare_file_def)

lemma lex_text_tokenize:
  "lex_text (tokenize raw toks f g) = token_texts (tokens (tok_loop (prepare_file raw) 1 (tokenize_init toks f g)))
     @ tokenContent (tok_loop (prepare_file raw) 1 (tokenize_init toks f g))"
  by (simp add: tokenize_def Let_def lex_text_def tokenDataType6_def)

text \<open>C4. Tokenizing loses no significant character and invents none: the texts of the tokens in
  order, followed by what stays open, spell the significant characters of the input.\<close>

theorem tokenize_lossless:
  "filter solid (token_texts (tokens (tokenize raw toks f g)) @ tokenContent (tokenize raw toks f g)) =
   filter solid (token_texts toks @ tokenContent g @ raw @ [CHR 0x0A])"
proof -
  let ?s = "tok_loop (prepare_file raw) 1 (tokenize_init toks f g)"
  have "text_inv (token_texts toks @ tokenContent g) (prepare_file raw)
          (length (prepare_file raw)) ?s"
    by (rule lexed_text.inv_loop [OF text_inv_init prepare_file_length])
  then have "filter solid (lex_text ?s) =
      filter solid ((token_texts toks @ tokenContent g) @ tl (prepare_file raw))"
    by (simp add: text_inv_def)
  moreover have "filter solid (tl (prepare_file raw)) = filter solid (raw @ [CHR 0x0A])"
    using not_solid_return by (induction raw) (auto simp: prepare_file_def)
  ultimately show ?thesis
    using lex_text_tokenize [of raw toks f g] by (simp add: lex_text_def)
qed

subsection \<open>The shape of a token\<close>

definition closed_quote :: "char \<Rightarrow> string \<Rightarrow> bool" where
  "closed_quote q str \<longleftrightarrow> (\<exists>body. str = q # body @ [q] \<and> q \<notin> set body)"

definition token_shape :: "token \<Rightarrow> bool" where
  "token_shape t \<longleftrightarrow>
     (\<exists>c rest ty. tk_first t = c # rest \<and> find_start (map_order tokenStarts) c = Some ty
        \<and> tk_second t = (if ty = Integer \<and> CHR ''.'' \<in> set (tk_first t) then Float else ty)
        \<and> (ty = String \<longrightarrow> closed_quote (CHR 0x22) (tk_first t))
        \<and> (ty = Character \<longrightarrow> closed_quote (CHR 0x27) (tk_first t)))"

text \<open>What holds of the globals between two files, and at every step of the loop.\<close>

definition lexer_ok :: "lexer \<Rightarrow> bool" where
  "lexer_ok s \<longleftrightarrow>
     (if currentToken s = Nothing then tokenContent s = ''''
      else \<exists>c rest. tokenContent s = c # rest
        \<and> find_start (map_order tokenStarts) c = Some (currentToken s)
        \<and> (currentToken s = String \<longrightarrow> CHR 0x22 \<notin> set rest)
        \<and> (currentToken s = Character \<longrightarrow> CHR 0x27 \<notin> set rest))"

definition shape_inv :: "string \<Rightarrow> nat \<Rightarrow> lexer \<Rightarrow> bool" where
  "shape_inv raw i s \<longleftrightarrow> lexer_ok s \<and> list_all token_shape (tokens s)"

lemma find_start_String: "find_start (map_order tokenStarts) c = Some String \<longleftrightarrow> c = CHR 0x22"
  by (auto simp: map_order_starts letters_def digits_def split: if_splits)

lemma find_start_Character: "find_start (map_order tokenStarts) c = Some Character \<longleftrightarrow> c = CHR 0x27"
  by (auto simp: map_order_starts letters_def digits_def split: if_splits)

lemma find_start_not_Nothing: "find_start m c \<noteq> Some Nothing"
  by (induction m c rule: find_start.induct) auto

lemma no_cancel_quote: "\<not> cancels_end l (CHR 0x22)" "\<not> cancels_end l (CHR 0x27)"
  by (simp_all add: cancels_end_def tokenEscapeCancels_def)

text \<open>An open string or character literal ends exactly at the next quote of its kind.\<close>

lemma scan_String:
  "scan_escapes (map_order tokenEscapes) String l c n = (if c = CHR 0x22 then End_Token else Go_On)"
  by (simp add: map_order_escapes forces_end_def tokenForceEscapes_def no_cancel_quote)

lemma scan_Character:
  "scan_escapes (map_order tokenEscapes) Character l c n = (if c = CHR 0x27 then End_Token else Go_On)"
  by (simp add: map_order_escapes forces_end_def tokenForceEscapes_def no_cancel_quote)

lemma swapped_type_eq:
  "swapped_type ty str = (if ty = Integer \<and> CHR ''.'' \<in> set str then Float else ty)"
  by (simp add: swapped_type_def tokenContainsSwap_def)


lemma shape_begin: "shape_inv raw i s \<Longrightarrow> currentToken s = Nothing \<Longrightarrow> shape_inv raw j (begin_token c s)"
proof (cases "find_start (map_order tokenStarts) c")
  case None
  moreover assume "shape_inv raw i s" "currentToken s = Nothing"
  ultimately show ?thesis
    by (simp add: begin_token_None shape_inv_def lexer_ok_def)
next
  case (Some ty)
  moreover assume "shape_inv raw i s" "currentToken s = Nothing"
  ultimately show ?thesis
    using find_start_not_Nothing [of "map_order tokenStarts" c]
    by (auto simp: begin_token_Some shape_inv_def lexer_ok_def)
qed

lemma shape_extend:
  assumes "shape_inv raw i s" and "currentToken s \<noteq> Nothing"
    and "scan_escapes (map_order tokenEscapes) (currentToken s) l c n \<noteq> End_Token"
  shows "shape_inv raw j (line_add c (s\<lparr>tokenContent := tokenContent s @ [c]\<rparr>))"
  using assms
  by (auto simp: shape_inv_def lexer_ok_def scan_String scan_Character split: if_splits)

lemma emitted_shape:
  assumes "lexer_ok s" and "currentToken s \<noteq> Nothing"
    and "scan_escapes (map_order tokenEscapes) (currentToken s) l c n = End_Token"
  shows "token_shape (emitted c s)"
proof -
  obtain d rest where d: "tokenContent s = d # rest"
      "find_start (map_order tokenStarts) d = Some (currentToken s)"
    and r: "currentToken s = String \<longrightarrow> CHR 0x22 \<notin> set rest"
      "currentToken s = Character \<longrightarrow> CHR 0x27 \<notin> set rest"
    using assms(1,2) by (auto simp: lexer_ok_def)
  have q: "currentToken s = String \<longrightarrow> d = CHR 0x22" "currentToken s = Character \<longrightarrow> d = CHR 0x27"
    using d(2) find_start_String [of d] find_start_Character [of d] by auto
  have c: "currentToken s = String \<Longrightarrow> c = CHR 0x22" "currentToken s = Character \<Longrightarrow> c = CHR 0x27"
    using assms(3) by (auto simp: scan_String scan_Character split: if_splits)
  show ?thesis
    unfolding token_shape_def
    by (rule exI [of _ d], rule exI [of _ "rest @ (if quoted_type (currentToken s) then [c] else [])"],
        rule exI [of _ "currentToken s"])
      (use d r q c in \<open>auto simp: swapped_type_eq closed_quote_def\<close>)
qed

interpretation shaped: lexer_invariant shape_inv
proof unfold_locales
  fix raw i s
  assume inv: "shape_inv raw i s" and i: "i < length raw"
  show "currentToken s = Nothing \<Longrightarrow> shape_inv raw (i + 1) (begin_token (raw ! i) s)"
    using inv by (rule shape_begin)
  assume some: "currentToken s \<noteq> Nothing"
  show "scan_escapes (map_order tokenEscapes) (currentToken s) (char_at raw (i - 1)) (raw ! i)
      (char_at raw (i + 1)) \<noteq> End_Token \<Longrightarrow>
    shape_inv raw (i + 1) (line_add (raw ! i) (s\<lparr>tokenContent := tokenContent s @ [raw ! i]\<rparr>))"
    using inv some by (rule shape_extend)
  show "scan_escapes (map_order tokenEscapes) (currentToken s) (char_at raw (i - 1)) (raw ! i)
      (char_at raw (i + 1)) = End_Token \<Longrightarrow>
    shape_inv raw (if quoted_type (currentToken s) then i + 1 else i) (fst (end_token (raw ! i) s))"
    using inv some emitted_shape by (simp add: shape_inv_def lexer_ok_def)
qed

lemma lexer_ok_start: "lexer_ok lexer_start"
  by (simp add: lexer_ok_def lexer_start_def)

lemma shape_loop:
  assumes "lexer_ok g" and "list_all token_shape toks"
  shows "shape_inv (prepare_file raw) (length (prepare_file raw))
           (tok_loop (prepare_file raw) 1 (tokenize_init toks f g))"
  using assms by (intro shaped.inv_loop prepare_file_length) (simp add: shape_inv_def lexer_ok_def)

text \<open>C25. Every token but the end-of-file marker starts with a character of its type's start set,
  has the type of that character (a number with a point is a \<open>Float\<close>), and a string or character
  literal is one closed pair of quotes without a quote of its kind inside; this holds across files.\<close>

theorem tokenize_shape:
  assumes "lexer_ok g" and "list_all token_shape toks"
  shows "lexer_ok (tokenize raw toks f g)
    \<and> list_all token_shape (butlast (tokens (tokenize raw toks f g)))
    \<and> tk_second (last (tokens (tokenize raw toks f g))) = EndOfFile"
proof -
  let ?s = "tok_loop (prepare_file raw) 1 (tokenize_init toks f g)"
  have "shape_inv (prepare_file raw) (length (prepare_file raw)) ?s"
    using assms by (rule shape_loop)
  then show ?thesis
    by (simp add: shape_inv_def lexer_ok_def tokenize_def Let_def tokenDataType6_def)
qed

theorem tokenize_shape_witness:
  "lexer_ok (tokenize ''x = 1.5'' [] ''a.asa'' lexer_start)
    \<and> list_all token_shape (butlast (tokens (tokenize ''x = 1.5'' [] ''a.asa'' lexer_start)))
    \<and> tk_second (last (tokens (tokenize ''x = 1.5'' [] ''a.asa'' lexer_start))) = EndOfFile"
  by (rule tokenize_shape) (simp_all add: lexer_ok_def lexer_start_def)

subsection \<open>Positions\<close>

text \<open>The state that the tokens point into: the line being read and the file name are there, every
  token emitted so far carries both pointers, and its line is not after the current one.\<close>

definition located :: "lexer \<Rightarrow> token \<Rightarrow> bool" where
  "located s t \<longleftrightarrow> (\<exists>a b. tk_lineValue t = Str a \<and> tk_filePath t = Str b
     \<and> a < length (store s) \<and> b < length (store s)) \<and> tk_lineNumber t \<le> lineNumber s"

definition place_inv :: "string \<Rightarrow> nat \<Rightarrow> lexer \<Rightarrow> bool" where
  "place_inv raw i s \<longleftrightarrow> lineValue s < length (store s)
     \<and> (\<exists>b < length (store s). fileNames s \<noteq> [] \<and> last (fileNames s) = Str b)
     \<and> list_all (located s) (tokens s) \<and> sorted (map tk_lineNumber (tokens s))"

lemma located_mono:
  "located s t \<Longrightarrow> length (store s) \<le> length (store s') \<Longrightarrow> lineNumber s \<le> lineNumber s' \<Longrightarrow> located s' t"
  by (auto simp: located_def)

lemma place_mono:
  assumes "place_inv raw i s" and "length (store s) \<le> length (store s')"
    and "lineNumber s \<le> lineNumber s'" and "tokens s' = tokens s" and "fileNames s' = fileNames s"
    and "lineValue s' < length (store s')"
  shows "place_inv raw j s'"
  using assms located_mono [of s _ s'] by (auto simp: place_inv_def list_all_iff)

lemma begin_token_frame:
  "tokens (begin_token c s) = tokens s" "fileNames (begin_token c s) = fileNames s"
  "lineValue (begin_token c s) = lineValue s" "lineNumber (begin_token c s) = lineNumber s"
  "length (store (begin_token c s)) = length (store s)"
  by (simp_all add: begin_token_def split: option.splits)

lemma place_begin: "place_inv raw i s \<Longrightarrow> place_inv raw j (begin_token c s)"
  using place_mono [of raw i s "begin_token c s" j]
  by (simp add: begin_token_frame) (simp add: place_inv_def)

lemma place_finish:
  assumes "place_inv raw i s"
  shows "place_inv raw j (fst (end_token c s))"
proof -
  let ?s = "fst (end_token c s)"
  have len: "lineValue ?s < length (store ?s)" "length (store s) \<le> length (store ?s)"
    using end_token_store [of s c] assms by (auto simp: place_inv_def)
  obtain b where b: "b < length (store s)" "fileNames s \<noteq> []" "last (fileNames s) = Str b"
    using assms by (auto simp: place_inv_def)
  have line: "lineNumber s \<le> lineNumber ?s" by simp
  have old: "list_all (located ?s) (tokens s)"
    using assms located_mono [OF _ len(2) line] by (auto simp: place_inv_def list_all_iff)
  have new: "located ?s (emitted c s)"
    unfolding located_def using len b by (auto simp del: end_token_lineNumber)
  have "sorted (map tk_lineNumber (tokens s) @ [lineNumber ?s])"
    using assms old by (auto simp: place_inv_def sorted_append list_all_iff located_def
      simp del: end_token_lineNumber)
  then show ?thesis
    using len b old new by (auto simp: place_inv_def simp del: end_token_lineNumber)
qed

lemma place_extend:
  assumes "place_inv raw i s"
  shows "place_inv raw j (line_add c (s\<lparr>tokenContent := v\<rparr>))"
  using assms place_mono [OF assms, of "line_add c (s\<lparr>tokenContent := v\<rparr>)" j]
  by (simp add: place_inv_def)

interpretation placed: lexer_invariant place_inv
  by unfold_locales (rule place_begin place_extend place_finish, assumption)+

lemma place_init: "place_inv raw 1 (tokenize_init [] f g)"
  by (auto simp: place_inv_def tokenize_init_def new_string_def Let_def)

text \<open>C26. In a file, line numbers never decrease, and every token but the end-of-file marker points
  to its line and to the file name: reporting an error at such a token prints the diagnostic, it is
  never itself undefined.\<close>

theorem tokenize_places:
  "sorted (map tk_lineNumber (tokens (tokenize raw [] f g)))
   \<and> list_all (\<lambda>t. \<forall>msg. (token_error t msg :: 'a outcome) = Inl (Diagnosed t msg))
        (butlast (tokens (tokenize raw [] f g)))"
proof -
  let ?s = "tok_loop (prepare_file raw) 1 (tokenize_init [] f g)"
  have inv: "place_inv (prepare_file raw) (length (prepare_file raw)) ?s"
    by (rule placed.inv_loop [OF place_init prepare_file_length])
  then have "\<forall>t \<in> set (tokens ?s). located ?s t"
    by (simp add: place_inv_def list_all_iff)
  moreover from this inv have
    "sorted (map tk_lineNumber (tokens ?s) @ [lineNumber ?s + 1])"
    by (auto simp: place_inv_def sorted_append located_def)
  ultimately show ?thesis
    by (auto simp: tokenize_def Let_def tokenDataType6_def located_def token_error_def list_all_iff)
qed

end
