(* ===== verification/Comments.thy ===== *)
theory Comments
  imports Tokens
begin

text \<open>
  The three passes of \<^verbatim>\<open>src/src/tokenizer.cpp\<close> over the token vector: \<open>labelSubTokens\<close> names symbols and
  keywords, \<open>joinCommentTokens\<close> folds every comment into one token, working with indices and
  \<open>erase\<close>, \<open>removeCommentTokens\<close> drops those tokens. Both index loops are shown equal to functions
  that read the list from left to right.
\<close>

section \<open>labelSubTokens\<close>

definition subTokenTypes :: "(string \<times> TokenType) list" where
  "subTokenTypes =
    [(''('', Left_Paren), ('')'', Right_Paren), (''['', Left_Bracket), ('']'', Right_Bracket),
     (''[]'', Both_Brackets), (''{'', Left_Brace), (''}'', Right_Brace), ('','', Comma),
     (''.'', Dot), (''..'', Dot_Dot), (''...'', Dot_Dot_Dot), (''+'', Plus), (''-'', Minus),
     (''/'', Slash), (''*'', Star), (''**'', Star_Star), (''#'', Hash), ('':'', Colon),
     (''::'', Colon_Colon), ('';'', Semi_Colon), (''!'', Bang), (''!!'', Bang_Bang),
     (''!='', Bang_Equal), (''+='', Plus_Equal), (''++'', Plus_Plus), (''-='', Minus_Equal),
     (''--'', Minus_Minus), (''*='', Times_Equal), (''/='', Slash_Equal), (''='', Equal),
     (''=='', Equal_Equal), (''<'', Less), (''<='', Less_Equal), (''>'', Greater),
     (''>='', Greater_Equal), (''|'', Bar), (''||'', Bar_Bar), (''|||'', Bar_Bar_Bar),
     (''&'', Ampersand), (''&&'', Ampersand_Ampersand), (''~'', Tilde), (''~~'', Tilde_Tilde),
     (''^'', Caret), (''^^'', Caret_Caret), (''%'', Percent), (''%%'', Percent_Percent),
     (''@'', At), (''@@'', At_At), (''->'', Arrow_Right), (''<-'', Arrow_Left),
     (''if'', If_Statement), (''else'', Else_Statement), (''for'', For_Statement),
     (''while'', While_Statement), (''return'', Return_Statement), (''break'', Break_Statement),
     (''continue'', Continue_Statement), (''goto'', Goto_Statement),
     (''struct'', Struct_Define), (''module'', Module_Define), (''operator'', Operator_Keyword),
     (''ref'', Ref), (''exact'', Exact), (''true'', True_Literal), (''false'', False_Literal)]"

definition label_token :: "token \<Rightarrow> token" where
  "label_token t =
     (case map_of subTokenTypes (tk_first t) of None \<Rightarrow> t | Some ty \<Rightarrow> t\<lparr>tk_second := ty\<rparr>)"

definition labelSubTokens :: "token list \<Rightarrow> token list" where
  "labelSubTokens toks = map label_token toks"

section \<open>joinCommentTokens\<close>

definition opens_line :: "token \<Rightarrow> bool" where
  "opens_line t = has_prefix ''//'' (tk_first t)"

definition opens_block :: "token \<Rightarrow> bool" where
  "opens_block t = has_prefix ''/*'' (tk_first t)"

definition closes_block :: "token \<Rightarrow> bool" where
  "closes_block t = has_prefix ''*/'' (tk_first t)"

text \<open>\<open>erase(begin + a, begin + b)\<close>, undefined for a range that ends before it starts.\<close>

definition erase_range :: "nat \<Rightarrow> nat \<Rightarrow> 'a list \<Rightarrow> 'a list outcome" where
  "erase_range a b xs =
     (if a \<le> b \<and> b \<le> length xs then Inr (take a xs @ drop b xs) else Inl Undefined_Behaviour)"

text \<open>The code at \<open>endComment\<close>, with \<open>i\<close> the end of the range to erase.\<close>

definition end_comment ::
  "token list \<Rightarrow> nat \<Rightarrow> nat \<Rightarrow> string \<Rightarrow> token \<Rightarrow> token list outcome" where
  "end_comment ts i startIndex content t =
     (let content' = (if tk_second t = EndOfLine then take (length content - 4) content else content)
      in erase_range (startIndex + 1) i (ts[startIndex := (ts ! startIndex)\<lparr>tk_first := content'\<rparr>]))"

lemma end_comment_length:
  "end_comment ts i startIndex content t = Inr ts' \<Longrightarrow>
   length ts' = length ts - i + (startIndex + 1) \<and> startIndex + 1 \<le> i \<and> i \<le> length ts"
  by (auto simp: end_comment_def erase_range_def Let_def split: if_splits)

text \<open>
  Between two comments \<open>startIndex\<close> and \<open>newTokenContents\<close> keep stale values that are never read.
\<close>

function join_loop ::
  "token list \<Rightarrow> nat \<Rightarrow> bool \<Rightarrow> bool \<Rightarrow> nat \<Rightarrow> string \<Rightarrow> token list outcome" where
  "join_loop ts i inComment multiLineComment startIndex content =
     (if \<not> i < length ts - 1 then Inr ts
      else let i = i + 1; t = ts ! i in
        if \<not> inComment
        then (if opens_line t \<or> opens_block t
              then join_loop (ts[i := t\<lparr>tk_second := Comment\<rparr>]) i True
                     (if opens_block t then True else multiLineComment) i (tk_first t @ '' '')
              else join_loop ts i inComment multiLineComment startIndex content)
        else let content = content @ tk_first t @ '' '' in
          if multiLineComment \<and> closes_block t
          then rbind (end_comment ts (i + 1) startIndex content t)
                 (\<lambda>ts'. join_loop ts' (startIndex + 1) False False startIndex content)
          else if \<not> multiLineComment \<and> tk_second t = EndOfLine
          then rbind (end_comment ts i startIndex content t)
                 (\<lambda>ts'. join_loop ts' (startIndex + 1) False False startIndex content)
          else join_loop ts i inComment multiLineComment startIndex content)"
  by pat_completeness auto

termination
  by (relation "measure (\<lambda>(ts, i, _). length ts - i)")
    (auto dest!: end_comment_length)

declare join_loop.simps [simp del]

definition joinCommentTokens :: "token list \<Rightarrow> token list outcome" where
  "joinCommentTokens toks = join_loop (tokenDataType0 # toks) 0 False False 0 ''''"

section \<open>removeCommentTokens\<close>

function remove_loop :: "token list \<Rightarrow> nat \<Rightarrow> token list" where
  "remove_loop ts i =
     (if \<not> i < length ts - 1 then ts
      else let i = i + 1 in
        if tk_second (ts ! i) = Comment then remove_loop (take i ts @ drop (i + 1) ts) (i - 1)
        else remove_loop ts i)"
  by pat_completeness auto

termination
  by (relation "measure (\<lambda>(ts, i). length ts - i)") auto

declare remove_loop.simps [simp del]

text \<open>On an empty vector the bound \<open>size() - 1\<close> wraps around and the first read is out of range.\<close>

definition removeCommentTokens :: "token list \<Rightarrow> token list outcome" where
  "removeCommentTokens toks = (if toks = [] then Inl Undefined_Behaviour else Inr (remove_loop toks 0))"

text \<open>The three passes as \<open>addFileIncludes\<close> and \<open>main\<close> run them.\<close>

definition prepare_tokens :: "token list \<Rightarrow> token list outcome" where
  "prepare_tokens toks = rbind (joinCommentTokens (labelSubTokens toks)) removeCommentTokens"

section \<open>Reference definitions\<close>

definition ends_comment :: "bool \<Rightarrow> token \<Rightarrow> bool" where
  "ends_comment block t = (if block then closes_block t else tk_second t = EndOfLine)"

abbreviation comment_words :: "token list \<Rightarrow> string" where
  "comment_words ts \<equiv> concat (map (\<lambda>t. tk_first t @ '' '') ts)"

definition trim_newline :: "token \<Rightarrow> string \<Rightarrow> string" where
  "trim_newline t str = (if tk_second t = EndOfLine then take (length str - 4) str else str)"

lemma dropWhile_shorter: "dropWhile P xs = y # ys \<Longrightarrow> length ys < length xs"
  using length_dropWhile_le [of P xs] by simp

lemmas shorter_rest = dropWhile_shorter dropWhile_shorter [OF sym]

text \<open>
  A comment goes from its opening token to the first token that ends it. The newline that ends a
  line comment is kept; the token after a comment is copied without being looked at, and an
  unterminated comment changes its opening token only.
\<close>

function join_ref :: "token list \<Rightarrow> token list" where
  "join_ref [] = []"
| "join_ref (t # ts) =
     (if opens_line t \<or> opens_block t
      then let block = opens_block t;
               body = takeWhile (\<lambda>u. \<not> ends_comment block u) ts;
               after = dropWhile (\<lambda>u. \<not> ends_comment block u) ts
           in case after of
                [] \<Rightarrow> t\<lparr>tk_second := Comment\<rparr> # ts
              | e # rest \<Rightarrow>
                  t\<lparr>tk_first := trim_newline e (comment_words (t # body @ [e])), tk_second := Comment\<rparr> #
                  (if block then (case rest of [] \<Rightarrow> [] | r # rs \<Rightarrow> r # join_ref rs)
                   else e # join_ref rest)
      else t # join_ref ts)"
  by pat_completeness auto

termination
  by (relation "measure length") (auto dest!: shorter_rest)

text \<open>What is left after the comment tokens are dropped.\<close>

function strip :: "token list \<Rightarrow> token list" where
  "strip [] = []"
| "strip (t # ts) =
     (if opens_line t \<or> opens_block t
      then (case dropWhile (\<lambda>u. \<not> ends_comment (opens_block t) u) ts of
              [] \<Rightarrow> ts
            | e # rest \<Rightarrow>
                if opens_block t then (case rest of [] \<Rightarrow> [] | r # rs \<Rightarrow> r # strip rs)
                else e # strip rest)
      else t # strip ts)"
  by pat_completeness auto

termination
  by (relation "measure length") (auto dest!: shorter_rest)

section \<open>The index loops compute the reference definitions\<close>

lemma take_length_append [simp]: "take (length xs) (xs @ ys) = xs"
  by simp

lemma end_comment_line:
  "end_comment (p @ o' # mid @ e # rs) (length p + length mid + 1) (length p) content e =
   Inr (p @ o'\<lparr>tk_first := trim_newline e content\<rparr> # e # rs)"
  by (simp add: end_comment_def erase_range_def trim_newline_def)

lemma end_comment_block:
  "end_comment (p @ o' # mid @ e # rs) (length p + length mid + 2) (length p) content e =
   Inr (p @ o'\<lparr>tk_first := trim_newline e content\<rparr> # rs)"
  by (simp add: end_comment_def erase_range_def trim_newline_def)

lemma nth_after: "(p @ o' # mid @ e # rs) ! (Suc (length p + length mid)) = e"
  by (simp add: nth_append)

lemma join_stop: "length ts \<le> Suc i \<Longrightarrow> join_loop ts i b m s c = Inr ts"
  by (subst join_loop.simps) auto

lemma remove_stop: "length ts \<le> Suc i \<Longrightarrow> remove_loop ts i = ts"
  by (subst remove_loop.simps) auto

text \<open>Inside a comment the loop looks for the token that ends it.\<close>

lemma join_inside:
  "join_loop (p @ o' # mid @ rest) (length p + length mid) True multi (length p) content =
   (case dropWhile (\<lambda>u. \<not> ends_comment multi u) rest of
      [] \<Rightarrow> Inr (p @ o' # mid @ rest)
    | e # rs \<Rightarrow>
        let c = content @ comment_words (takeWhile (\<lambda>u. \<not> ends_comment multi u) rest @ [e])
        in join_loop (p @ o'\<lparr>tk_first := trim_newline e c\<rparr> # (if multi then rs else e # rs))
             (length p + 1) False False (length p) c)"
proof (induction rest arbitrary: mid content)
  case Nil
  show ?case by (simp add: join_stop)
next
  case (Cons e rest)
  let ?ts = "p @ o' # mid @ e # rest"
  show ?case
  proof (cases "ends_comment multi e")
    case True
    then show ?thesis
      using end_comment_line [of p o' mid e rest] end_comment_block [of p o' mid e rest]
      by (subst join_loop.simps) (simp add: nth_after ends_comment_def Let_def split: if_splits)
  next
    case False
    then have "join_loop ?ts (length p + length mid) True multi (length p) content =
        join_loop (p @ o' # (mid @ [e]) @ rest) (length p + length (mid @ [e])) True multi (length p)
          (content @ tk_first e @ '' '')"
      by (subst join_loop.simps) (simp add: nth_after ends_comment_def Let_def split: if_splits)
    with False show ?thesis
      unfolding Cons.IH by (simp add: Let_def split: list.split del: dropWhile_eq_Nil_conv)
  qed
qed

lemma join_outside:
  "pre \<noteq> [] \<Longrightarrow> join_loop (pre @ rest) (length pre - 1) False False start content =
   Inr (pre @ join_ref rest)"
proof (induction rest arbitrary: pre start content rule: join_ref.induct)
  case 1
  then show ?case by (simp add: join_stop)
next
  case (2 t ts)
  obtain n where n: "length pre = Suc n" using 2(4) by (cases pre) auto
  have at: "(pre @ t # ts) ! Suc n = t" and upd: "(pre @ t # ts)[Suc n := u] = pre @ u # ts" for u
    by (simp_all add: nth_append list_update_append flip: n)
  show ?case
  proof (cases "opens_line t \<or> opens_block t")
    case True
    define block where "block = opens_block t"
    define tc where "tc = t\<lparr>tk_second := Comment\<rparr>"
    have enter: "join_loop (pre @ t # ts) (length pre - 1) False False start content =
        join_loop (pre @ tc # [] @ ts) (length pre + length ([] :: token list)) True block (length pre)
          (tk_first t @ '' '')"
      using True by (simp add: join_loop.simps [of "pre @ t # ts"] n at upd Let_def tc_def block_def)
    show ?thesis
    proof (cases "dropWhile (\<lambda>u. \<not> ends_comment block u) ts")
      case Nil
      with True show ?thesis
        unfolding enter join_inside by (simp add: tc_def block_def Let_def del: dropWhile_eq_Nil_conv)
    next
      case after: (Cons e rest)
      define tf where "tf = tc\<lparr>tk_first := trim_newline e (comment_words
          (t # takeWhile (\<lambda>u. \<not> ends_comment block u) ts @ [e]))\<rparr>"
      have goal: "join_ref (t # ts) = tf # (if block then (case rest of [] \<Rightarrow> [] | r # rs \<Rightarrow> r # join_ref rs)
           else e # join_ref rest)"
        using True after by (simp add: tf_def tc_def block_def Let_def)
      have next_: "join_loop (pre @ t # ts) (length pre - 1) False False start content =
          join_loop (pre @ tf # (if block then rest else e # rest)) (length pre + 1) False False (length pre)
            (comment_words (t # takeWhile (\<lambda>u. \<not> ends_comment block u) ts @ [e]))"
        unfolding enter join_inside using after by (simp add: Let_def tf_def)
      show ?thesis
      proof (cases block)
        case False
        then have "\<not> opens_block t" by (simp add: block_def)
        with 2(2) [OF True refl refl refl after [unfolded block_def] False [unfolded block_def], where pre = "pre @ [tf, e]"] False show ?thesis
          unfolding next_ goal by (simp add: block_def)
      next
        case blk: True
        then have ob: "opens_block t" by (simp add: block_def)
        show ?thesis
        proof (cases rest)
          case Nil
          with blk show ?thesis
            unfolding next_ goal by (simp add: join_loop.simps [of "pre @ [tf]"])
        next
          case (Cons r rs)
          with 2(1) [OF True refl refl refl after [unfolded block_def] blk [unfolded block_def] Cons, where pre = "pre @ [tf, r]"] blk ob show ?thesis
            unfolding next_ goal by (simp add: block_def)
        qed
      qed
    qed
  next
    case False
    with 2(3) [OF False, of "pre @ [t]"] show ?thesis
      by (simp add: join_loop.simps [of "pre @ t # ts"] n at Let_def)
  qed
qed

lemma remove_after:
  "pre \<noteq> [] \<Longrightarrow> remove_loop (pre @ rest) (length pre - 1) =
   pre @ filter (\<lambda>t. tk_second t \<noteq> Comment) rest"
proof (induction rest arbitrary: pre)
  case Nil
  then show ?case by (simp add: remove_stop)
next
  case (Cons t rest)
  obtain n where n: "length pre = Suc n" using Cons.prems by (cases pre) auto
  have "(pre @ t # rest) ! Suc n = t" by (simp add: nth_append flip: n)
  moreover have "take (Suc n) (pre @ t # rest) @ drop (Suc (Suc n)) (pre @ t # rest) = pre @ rest"
    by (simp flip: n)
  ultimately show ?case
    using Cons.IH [of pre] Cons.IH [of "pre @ [t]"] Cons.prems
    by (simp add: remove_loop.simps [of "pre @ t # rest"] n Let_def)
qed

lemma join_total: "joinCommentTokens toks = Inr (tokenDataType0 # join_ref toks)"
  using join_outside [of "[tokenDataType0]" toks] by (simp add: joinCommentTokens_def)

text \<open>C27. \<open>joinCommentTokens\<close> never leaves the vector's bounds and computes the left-to-right
  reference, after the empty token it puts in front.\<close>

theorem joinCommentTokens_eq: "joinCommentTokens toks = Inr (tokenDataType0 # join_ref toks)"
  by (rule join_total)

lemma remove_eq:
  "removeCommentTokens (t # toks) = Inr (t # filter (\<lambda>t. tk_second t \<noteq> Comment) toks)"
  using remove_after [of "[t]" toks] by (simp add: removeCommentTokens_def)

text \<open>Neither the lexer nor \<open>labelSubTokens\<close> makes a token of type \<open>Comment\<close>.\<close>

abbreviation comment_free :: "token list \<Rightarrow> bool" where
  "comment_free ts \<equiv> \<forall>t \<in> set ts. tk_second t \<noteq> Comment"

lemma set_dropWhile: "dropWhile P xs = y # ys \<Longrightarrow> insert y (set ys) \<subseteq> set xs"
  by (metis list.simps(15) set_dropWhileD subsetI)

lemma filter_join: "comment_free toks \<Longrightarrow> filter (\<lambda>t. tk_second t \<noteq> Comment) (join_ref toks) = strip toks"
proof (induction toks rule: join_ref.induct)
  case 1
  show ?case by simp
next
  case (2 t ts)
  show ?case
  proof (cases "opens_line t \<or> opens_block t")
    case False
    with 2 show ?thesis by simp
  next
    case True
    show ?thesis
    proof (cases "dropWhile (\<lambda>u. \<not> ends_comment (opens_block t) u) ts")
      case Nil
      have "filter (\<lambda>t. tk_second t \<noteq> Comment) ts = ts"
        using 2(4) by (auto simp: filter_id_conv)
      with Nil True show ?thesis by (simp add: Let_def del: dropWhile_eq_Nil_conv)
    next
      case (Cons e rest)
      then have "comment_free (e # rest)"
        using set_dropWhile [OF Cons] 2(4) by auto
      moreover note 2(1) [OF True refl refl refl Cons] 2(2) [OF True refl refl refl Cons]
      ultimately show ?thesis
        using True Cons by (auto simp: Let_def split: list.split)
    qed
  qed
qed

lemma label_comment_free: "comment_free toks \<Longrightarrow> comment_free (labelSubTokens toks)"
proof -
  have "ty \<noteq> Comment" if "map_of subTokenTypes s = Some ty" for s ty
    using map_of_SomeD [OF that] by (auto simp: subTokenTypes_def)
  then show "comment_free toks \<Longrightarrow> ?thesis"
    by (auto simp: labelSubTokens_def label_token_def split: option.split)
qed


abbreviation tok :: "string \<Rightarrow> TokenType \<Rightarrow> token" where
  "tok \<equiv> tokenDataType2"


text \<open>Tokens outside comments all survive, in order, and none is added.\<close>

lemma strip_id: "\<forall>t \<in> set ts. \<not> opens_line t \<and> \<not> opens_block t \<Longrightarrow> strip ts = ts"
  by (induction ts) simp_all

lemma strip_subseq: "subseq (strip ts) ts"
proof (induction ts rule: strip.induct)
  case (2 t ts)
  show ?case
  proof (cases "opens_line t \<or> opens_block t")
    case True
    show ?thesis
    proof (cases "dropWhile (\<lambda>u. \<not> ends_comment (opens_block t) u) ts")
      case (Cons e rest)
      have "subseq (e # rest) ts"
        using suffix_dropWhile [of "\<lambda>u. \<not> ends_comment (opens_block t) u" ts] Cons
        by (metis suffix_imp_subseq)
      then have s: "subseq (e # rest) (t # ts)" by (rule list_emb_Cons)
      moreover have "subseq (strip (t # ts)) (e # rest)"
      proof (cases "opens_block t")
        case blk: True
        with True Cons 2(1) [OF True Cons blk] show ?thesis
          by (cases rest) (simp_all add: list_emb_Cons)
      next
        case False
        with True Cons 2(2) [OF True Cons False] show ?thesis by simp
      qed
      ultimately show ?thesis by (metis subseq_order.order_trans)
    next
      case Nil
      with True show ?thesis by (simp add: list_emb_Cons del: dropWhile_eq_Nil_conv)
    qed
  qed (use 2 in simp)
qed simp

lemma strip_comment:
  assumes "\<forall>t \<in> set pre. \<not> opens_line t \<and> \<not> opens_block t" and "opens_line t \<or> opens_block t"
    and "\<forall>u \<in> set body. \<not> ends_comment (opens_block t) u" and "ends_comment (opens_block t) e"
  shows "strip (pre @ t # body @ e # rest) =
    pre @ (if opens_block t then take 1 rest @ strip (drop 1 rest) else e # strip rest)"
  using assms(1)
proof (induction pre)
  case Nil
  have "dropWhile (\<lambda>u. \<not> ends_comment (opens_block t) u) (body @ e # rest) = e # rest"
    using assms(3,4) by simp
  with assms(2) show ?case by (cases rest) simp_all
qed simp
end
