(* ===== verification/Ast_Types.thy ===== *)
theory Ast_Types
  imports Prelude
begin

text \<open>
  The node kinds of \<^verbatim>\<open>src/src/parser.h\<close>: the enumeration \<open>ASTNodeType\<close>, its ordinals (the code
  generator compares and subtracts them) and the display names indexed by them.
\<close>

datatype (plugins only: code) ASTNodeType =
  Nothing_Node | Identifier_Node | Integer_Node | SInt128_Type | SInt64_Type | SInt32_Type |
  SInt16_Type | SInt8_Type | Begin_Unsigned_Integers | UInt128_Type | UInt64_Type |
  UInt32_Type | UInt16_Type | UInt8_Type | Char_Type | Boolean_Node | Double_Type |
  Float_Node | Half_Type | String_Node | String_Constant_Node | Character_Constant_Node |
  Type_Node | Module_Scope | Redefined_Operator_Expr | Operator_Type_Node | Expression_Term |
  Expression_Paren_Term | Expression_Statement | Expression_Plus | Expression_Minus |
  Expression_Times | Expression_Divide | Expression_Modulo | Bitwise_And | Bitwise_Or |
  Bitwise_Xor | Bitwise_Shift_Left | Bitwise_Shift_Right | Pipe_Operation | Pipe_Placeholder |
  Range_Node | Argument_List | Function_Call | If_Statement_Node | Else_Statement_Node |
  For_Statement_Node | While_Statement_Node | Struct_Define_Node | Struct_Type |
  Module_Define_Node | Operator_Overload_Node | Access_Operation | Member_Access |
  Reference_Operation | Exact_Type_Node | Address_Of_Operation | Dereference_Operation |
  Pointer_Node | Return_Node | Continue_Node | Break_Node | Goto_Node | Iterator | Condition |
  Scope_Body | Compare_Equal | Compare_Not | Compare_Less | Compare_Greater |
  Compare_LessEqual | Compare_GreaterEqual | Compiler_Define | Compiler_Define_Function |
  Compiler_Define_Cast | Compiler_Define_Struct | Compile_Time_Directive | Arguments |
  Compiler_Modifiers | Fully_Defined | LastASTNodeType

primrec nodeOrd :: "ASTNodeType \<Rightarrow> nat" where
  "nodeOrd Nothing_Node = 0"
| "nodeOrd Identifier_Node = 1"
| "nodeOrd Integer_Node = 2"
| "nodeOrd SInt128_Type = 3"
| "nodeOrd SInt64_Type = 4"
| "nodeOrd SInt32_Type = 5"
| "nodeOrd SInt16_Type = 6"
| "nodeOrd SInt8_Type = 7"
| "nodeOrd Begin_Unsigned_Integers = 8"
| "nodeOrd UInt128_Type = 9"
| "nodeOrd UInt64_Type = 10"
| "nodeOrd UInt32_Type = 11"
| "nodeOrd UInt16_Type = 12"
| "nodeOrd UInt8_Type = 13"
| "nodeOrd Char_Type = 14"
| "nodeOrd Boolean_Node = 15"
| "nodeOrd Double_Type = 16"
| "nodeOrd Float_Node = 17"
| "nodeOrd Half_Type = 18"
| "nodeOrd String_Node = 19"
| "nodeOrd String_Constant_Node = 20"
| "nodeOrd Character_Constant_Node = 21"
| "nodeOrd Type_Node = 22"
| "nodeOrd Module_Scope = 23"
| "nodeOrd Redefined_Operator_Expr = 24"
| "nodeOrd Operator_Type_Node = 25"
| "nodeOrd Expression_Term = 26"
| "nodeOrd Expression_Paren_Term = 27"
| "nodeOrd Expression_Statement = 28"
| "nodeOrd Expression_Plus = 29"
| "nodeOrd Expression_Minus = 30"
| "nodeOrd Expression_Times = 31"
| "nodeOrd Expression_Divide = 32"
| "nodeOrd Expression_Modulo = 33"
| "nodeOrd Bitwise_And = 34"
| "nodeOrd Bitwise_Or = 35"
| "nodeOrd Bitwise_Xor = 36"
| "nodeOrd Bitwise_Shift_Left = 37"
| "nodeOrd Bitwise_Shift_Right = 38"
| "nodeOrd Pipe_Operation = 39"
| "nodeOrd Pipe_Placeholder = 40"
| "nodeOrd Range_Node = 41"
| "nodeOrd Argument_List = 42"
| "nodeOrd Function_Call = 43"
| "nodeOrd If_Statement_Node = 44"
| "nodeOrd Else_Statement_Node = 45"
| "nodeOrd For_Statement_Node = 46"
| "nodeOrd While_Statement_Node = 47"
| "nodeOrd Struct_Define_Node = 48"
| "nodeOrd Struct_Type = 49"
| "nodeOrd Module_Define_Node = 50"
| "nodeOrd Operator_Overload_Node = 51"
| "nodeOrd Access_Operation = 52"
| "nodeOrd Member_Access = 53"
| "nodeOrd Reference_Operation = 54"
| "nodeOrd Exact_Type_Node = 55"
| "nodeOrd Address_Of_Operation = 56"
| "nodeOrd Dereference_Operation = 57"
| "nodeOrd Pointer_Node = 58"
| "nodeOrd Return_Node = 59"
| "nodeOrd Continue_Node = 60"
| "nodeOrd Break_Node = 61"
| "nodeOrd Goto_Node = 62"
| "nodeOrd Iterator = 63"
| "nodeOrd Condition = 64"
| "nodeOrd Scope_Body = 65"
| "nodeOrd Compare_Equal = 66"
| "nodeOrd Compare_Not = 67"
| "nodeOrd Compare_Less = 68"
| "nodeOrd Compare_Greater = 69"
| "nodeOrd Compare_LessEqual = 70"
| "nodeOrd Compare_GreaterEqual = 71"
| "nodeOrd Compiler_Define = 72"
| "nodeOrd Compiler_Define_Function = 73"
| "nodeOrd Compiler_Define_Cast = 74"
| "nodeOrd Compiler_Define_Struct = 75"
| "nodeOrd Compile_Time_Directive = 76"
| "nodeOrd Arguments = 77"
| "nodeOrd Compiler_Modifiers = 78"
| "nodeOrd Fully_Defined = 79"
| "nodeOrd LastASTNodeType = 80"

definition nodeTypes :: "ASTNodeType list" where
  "nodeTypes = [
    Nothing_Node, Identifier_Node, Integer_Node, SInt128_Type, SInt64_Type, SInt32_Type,
    SInt16_Type, SInt8_Type, Begin_Unsigned_Integers, UInt128_Type, UInt64_Type, UInt32_Type,
    UInt16_Type, UInt8_Type, Char_Type, Boolean_Node, Double_Type, Float_Node, Half_Type,
    String_Node, String_Constant_Node, Character_Constant_Node, Type_Node, Module_Scope,
    Redefined_Operator_Expr, Operator_Type_Node, Expression_Term, Expression_Paren_Term,
    Expression_Statement, Expression_Plus, Expression_Minus, Expression_Times,
    Expression_Divide, Expression_Modulo, Bitwise_And, Bitwise_Or, Bitwise_Xor,
    Bitwise_Shift_Left, Bitwise_Shift_Right, Pipe_Operation, Pipe_Placeholder, Range_Node,
    Argument_List, Function_Call, If_Statement_Node, Else_Statement_Node, For_Statement_Node,
    While_Statement_Node, Struct_Define_Node, Struct_Type, Module_Define_Node,
    Operator_Overload_Node, Access_Operation, Member_Access, Reference_Operation,
    Exact_Type_Node, Address_Of_Operation, Dereference_Operation, Pointer_Node, Return_Node,
    Continue_Node, Break_Node, Goto_Node, Iterator, Condition, Scope_Body, Compare_Equal,
    Compare_Not, Compare_Less, Compare_Greater, Compare_LessEqual, Compare_GreaterEqual,
    Compiler_Define, Compiler_Define_Function, Compiler_Define_Cast, Compiler_Define_Struct,
    Compile_Time_Directive, Arguments, Compiler_Modifiers, Fully_Defined, LastASTNodeType]"

definition ASTNodeTypeStrings :: "string list" where
  "ASTNodeTypeStrings = [
    ''Nothing_Node'', ''Identifier_Node'', ''Integer_Node'', ''SInt128_Type'', ''SInt64_Type'',
    ''SInt32_Type'', ''SInt16_Type'', ''SInt8_Type'', ''Begin_Unsigned_Integers'',
    ''UInt128_Type'', ''UInt64_Type'', ''UInt32_Type'', ''UInt16_Type'', ''UInt8_Type'',
    ''Char_Type'', ''Boolean_Node'', ''Double_Type'', ''Float_Node'', ''Half_Type'',
    ''String_Node'', ''String_Constant_Node'', ''Character_Constant_Node'', ''Type_Node'',
    ''Module_Scope'', ''Redefined_Operator_Expr'', ''Operator_Type_Node'', ''Expression_Term'',
    ''Expression_Paren_Term'', ''Expression_Statement'', ''Expression_Plus'',
    ''Expression_Minus'', ''Expression_Times'', ''Expression_Divide'', ''Expression_Modulo'',
    ''Bitwise_And'', ''Bitwise_Or'', ''Bitwise_Xor'', ''Bitwise_Shift_Left'',
    ''Bitwise_Shift_Right'', ''Pipe_Operation'', ''Pipe_Placeholder'', ''Range_Node'',
    ''Argument_List'', ''Function_Call'', ''If_Statement_Node'', ''Else_Statement_Node'',
    ''For_Statement_Node'', ''While_Statement_Node'', ''Struct_Define_Node'', ''Struct_Type'',
    ''Module_Define_Node'', ''Operator_Overload_Node'', ''Access_Operation'',
    ''Member_Access'', ''Reference_Operation'', ''Exact_Type_Node'', ''Address_Of_Operation'',
    ''Dereference_Operation'', ''Pointer_Node'', ''Return_Node'', ''Continue_Node'',
    ''Break_Node'', ''Goto_Node'', ''Iterator'', ''Condition'', ''Scope_Body'',
    ''Compare_Equal'', ''Compare_Not'', ''Compare_Less'', ''Compare_Greater'',
    ''Compare_LessEqual'', ''Compare_GreaterEqual'', ''Compiler_Define'',
    ''Compiler_Define_Function'', ''Compiler_Define_Cast'', ''Compiler_Define_Struct'',
    ''Compile_Time_Directive'', ''Arguments'', ''Compiler_Modifiers'', ''Fully_Defined'']"

interpretation node_table: string_table nodeOrd nodeTypes ASTNodeTypeStrings LastASTNodeType
proof unfold_locales
  show "nodeOrd x < length nodeTypes" for x
    by (cases x) (simp_all add: nodeTypes_def)
  show "nodeTypes ! nodeOrd x = x" for x
    by (cases x) (simp_all add: nodeTypes_def)
  show "length ASTNodeTypeStrings = nodeOrd LastASTNodeType"
    by (simp add: ASTNodeTypeStrings_def)
  show "distinct ASTNodeTypeStrings"
    by (simp add: ASTNodeTypeStrings_def)
qed

instantiation ASTNodeType :: linorder
begin

definition less_eq_ASTNodeType :: "ASTNodeType \<Rightarrow> ASTNodeType \<Rightarrow> bool" where
  "less_eq_ASTNodeType x y \<longleftrightarrow> nodeOrd x \<le> nodeOrd y"

definition less_ASTNodeType :: "ASTNodeType \<Rightarrow> ASTNodeType \<Rightarrow> bool" where
  "less_ASTNodeType x y \<longleftrightarrow> nodeOrd x < nodeOrd y"

instance
  by standard
    (auto simp: less_eq_ASTNodeType_def less_ASTNodeType_def node_table.ordinal_eq_iff)

end

lemmas node_order = less_eq_ASTNodeType_def less_ASTNodeType_def

definition ASTNodeTypeAsString :: "ASTNodeType \<Rightarrow> string" where
  "ASTNodeTypeAsString t =
     (if t < LastASTNodeType then ASTNodeTypeStrings ! nodeOrd t
      else ''UNDEFINED AST NODE TYPE'')"

lemma ASTNodeTypeAsString_inj:
  assumes "t \<noteq> LastASTNodeType" and "u \<noteq> LastASTNodeType"
    and "ASTNodeTypeAsString t = ASTNodeTypeAsString u"
  shows "t = u"
proof -
  have lt: "nodeOrd x < nodeOrd LastASTNodeType" if "x \<noteq> LastASTNodeType" for x
    using that by (cases x) simp_all
  show ?thesis
    using assms lt node_table.name_inj [of t u]
    by (simp add: ASTNodeTypeAsString_def less_ASTNodeType_def)
qed

end
