(* ===== verification/Ast.thy ===== *)
theory Ast
  imports Ast_Types Tokens
begin

text \<open>
  The syntax tree of \<^verbatim>\<open>src/src/parser.h\<close> (\<open>struct ASTNode\<close>): a node is a record of its scalar members
  with the vectors of child nodes and of leaf nodes (nodes not yet used by the parser). Pointers to
  children are the subtrees themselves; \<open>parentNode\<close> is the position in the tree.

  In two places the parser leaves one node in two vectors. Such a node carries the mark \<open>shared\<close>,
  which has no counterpart in the code, and the routines that would change it through one of the
  two pointers stop with \<open>Shared_Node\<close> instead of changing a copy.
\<close>

section \<open>Nodes\<close>

text \<open>The member function pointer \<open>codegen\<close>.\<close>

datatype codegen_method =
    No_Codegen
  | generateConstant | generateVariableExpression | generateReturn | generateExpression
  | generateExpressionStatement | generateIterator | generateUnaryExpression
  | generateBinaryExpression | generatePipePlaceholder | generateAccessOperation
  | generateMemberAccess | generateScopeBody | generateIf | generateStruct | generateFor
  | generatePrototype | generateFunction | generateCast | generateTypeInstance
  | generateCallExpression | generateNothing

record ninfo =
  nodeType :: ASTNodeType
  node_token :: token
  node_line :: nat
  node_depth :: nat
  isRef :: bool
  isExtern :: bool
  lvalue :: bool
  showInASTOutput :: bool
  compareTokens :: bool
  codegen :: codegen_method
  shared :: bool

datatype ast = Node (info: ninfo) (childNodes: "ast list") (leafNodes: "ast list")

definition info0 :: ninfo where
  "info0 = \<lparr>nodeType = Nothing_Node, node_token = tokenDataType0, node_line = 0, node_depth = 0,
     isRef = False, isExtern = False, lvalue = False, showInASTOutput = True, compareTokens = False,
     codegen = No_Codegen, shared = False\<rparr>"

text \<open>The constructors \<open>ASTNode()\<close>, \<open>ASTNode(nType)\<close>, \<open>ASTNode(nType, cNodes)\<close> and
  \<open>ASTNode(nType, cNodes, t, cmpTokens)\<close>.\<close>

definition ASTNode0 :: ast where
  "ASTNode0 = Node info0 [] []"

definition ASTNode1 :: "ASTNodeType \<Rightarrow> ast" where
  "ASTNode1 nType = Node (info0\<lparr>nodeType := nType\<rparr>) [] []"

definition ASTNode2 :: "ASTNodeType \<Rightarrow> ast list \<Rightarrow> ast" where
  "ASTNode2 nType cNodes = Node (info0\<lparr>nodeType := nType\<rparr>) cNodes []"

definition ASTNode4 :: "ASTNodeType \<Rightarrow> ast list \<Rightarrow> token \<Rightarrow> bool \<Rightarrow> ast" where
  "ASTNode4 nType cNodes t cmpTokens =
     Node (info0\<lparr>nodeType := nType, node_token := t, compareTokens := cmpTokens\<rparr>) cNodes []"

abbreviation ntype :: "ast \<Rightarrow> ASTNodeType" where
  "ntype n \<equiv> nodeType (info n)"

abbreviation ntoken :: "ast \<Rightarrow> token" where
  "ntoken n \<equiv> node_token (info n)"

section \<open>Assignments to members\<close>

definition map_info :: "(ninfo \<Rightarrow> ninfo) \<Rightarrow> ast \<Rightarrow> ast" where
  "map_info f n = Node (f (info n)) (childNodes n) (leafNodes n)"

definition set_type :: "ASTNodeType \<Rightarrow> ast \<Rightarrow> ast" where
  "set_type ty = map_info (nodeType_update (\<lambda>_. ty))"

definition set_codegen :: "codegen_method \<Rightarrow> ast \<Rightarrow> ast" where
  "set_codegen g = map_info (codegen_update (\<lambda>_. g))"

definition set_token :: "token \<Rightarrow> ast \<Rightarrow> ast" where
  "set_token t = map_info (node_token_update (\<lambda>_. t))"

definition push_child :: "ast \<Rightarrow> ast \<Rightarrow> ast" where
  "push_child c n = Node (info n) (childNodes n @ [c]) (leafNodes n)"

definition push_leaf :: "ast \<Rightarrow> ast \<Rightarrow> ast" where
  "push_leaf l n = Node (info n) (childNodes n) (leafNodes n @ [l])"

definition set_leaves :: "ast list \<Rightarrow> ast \<Rightarrow> ast" where
  "set_leaves ls n = Node (info n) (childNodes n) ls"

definition set_children :: "ast list \<Rightarrow> ast \<Rightarrow> ast" where
  "set_children cs n = Node (info n) cs (leafNodes n)"

lemma map_info_sel [simp]:
  "info (map_info f n) = f (info n)" "childNodes (map_info f n) = childNodes n"
  "leafNodes (map_info f n) = leafNodes n"
  by (simp_all add: map_info_def)

named_theorems node_simps

lemma set_info_sel [simp, node_simps]:
  "info (set_type ty n) = (info n)\<lparr>nodeType := ty\<rparr>"
  "info (set_codegen g n) = (info n)\<lparr>codegen := g\<rparr>"
  "info (set_token t n) = (info n)\<lparr>node_token := t\<rparr>"
  by (simp_all add: set_type_def set_codegen_def set_token_def)

lemma set_nodes_sel [simp, node_simps]:
  "childNodes (set_type ty n) = childNodes n" "leafNodes (set_type ty n) = leafNodes n"
  "childNodes (set_codegen g n) = childNodes n" "leafNodes (set_codegen g n) = leafNodes n"
  "childNodes (set_token t n) = childNodes n" "leafNodes (set_token t n) = leafNodes n"
  by (simp_all add: set_type_def set_codegen_def set_token_def)

lemma push_sel [simp, node_simps]:
  "info (push_child c n) = info n" "childNodes (push_child c n) = childNodes n @ [c]"
  "leafNodes (push_child c n) = leafNodes n"
  "info (push_leaf c n) = info n" "childNodes (push_leaf c n) = childNodes n"
  "leafNodes (push_leaf c n) = leafNodes n @ [c]"
  "info (set_leaves cs n) = info n" "childNodes (set_leaves cs n) = childNodes n"
  "leafNodes (set_leaves cs n) = cs"
  "info (set_children cs n) = info n" "childNodes (set_children cs n) = cs"
  "leafNodes (set_children cs n) = leafNodes n"
  by (simp_all add: push_child_def push_leaf_def set_leaves_def set_children_def)

lemma constructor_sel [simp, node_simps]:
  "info ASTNode0 = info0" "childNodes ASTNode0 = []" "leafNodes ASTNode0 = []"
  "ntype (ASTNode1 ty) = ty" "childNodes (ASTNode1 ty) = []" "leafNodes (ASTNode1 ty) = []"
  "ntype (ASTNode2 ty cs) = ty" "childNodes (ASTNode2 ty cs) = cs" "leafNodes (ASTNode2 ty cs) = []"
  "ntype (ASTNode4 ty cs t b) = ty" "childNodes (ASTNode4 ty cs t b) = cs"
  "leafNodes (ASTNode4 ty cs t b) = []" "ntoken (ASTNode4 ty cs t b) = t"
  by (simp_all add: ASTNode0_def ASTNode1_def ASTNode2_def ASTNode4_def)

section \<open>Recursion over the children\<close>

lemma child_size_list: "c \<in> set cs \<Longrightarrow> size c \<le> size_list size cs"
  by (erule size_list_estimation') simp

lemma child_size [termination_simp]: "c \<in> set (childNodes n) \<Longrightarrow> size c < size n"
  by (cases n) (auto dest: child_size_list)

lemma zip_child_size [termination_simp]:
  "(c, d) \<in> set (zip cs ds) \<Longrightarrow> size c \<le> size_list size cs"
  by (blast dest: set_zip_leftD child_size_list)

lemma ast_child_induct [case_names Node]:
  assumes "\<And>n. (\<And>c. c \<in> set (childNodes n) \<Longrightarrow> P c) \<Longrightarrow> P n"
  shows "P n"
proof (induction n rule: measure_induct_rule [of size])
  case (less n)
  then show ?case using assms child_size by blast
qed

text \<open>\<open>operator==\<close>: the token is compared only when the left node asks for it.\<close>

function ast_eq :: "ast \<Rightarrow> ast \<Rightarrow> bool" where
  "ast_eq (Node a cs ls) other =
     (if length cs = length (childNodes other)
      then if list_all (\<lambda>(c, d). ast_eq c d) (zip cs (childNodes other))
           then if compareTokens a \<and> \<not> token_eq (node_token a) (ntoken other) then False
                else nodeType a = ntype other
           else False
      else False)"
  by pat_completeness auto

termination
  by (relation "measure (\<lambda>(n, _). size n)") (auto dest: zip_child_size)

fun setChildrenAsExtern :: "ast \<Rightarrow> ast" where
  "setChildrenAsExtern (Node a cs ls) = Node (a\<lparr>isExtern := True\<rparr>) (map setChildrenAsExtern cs) ls"

text \<open>\<open>assignParentNodes\<close> records the depth of every node but the one it starts from.\<close>

fun assign_depth :: "nat \<Rightarrow> ast \<Rightarrow> ast" where
  "assign_depth d (Node a cs ls) = Node (a\<lparr>node_depth := d\<rparr>) (map (assign_depth (d + 1)) cs) ls"

definition assignParentNodes :: "nat \<Rightarrow> ast \<Rightarrow> ast" where
  "assignParentNodes depth n = Node (info n) (map (assign_depth (depth + 1)) (childNodes n)) (leafNodes n)"

text \<open>All nodes reachable through \<open>childNodes\<close>, a node before its children.\<close>

fun nodes :: "ast \<Rightarrow> ast list" where
  "nodes (Node a cs ls) = Node a cs ls # concat (map nodes cs)"

lemma node_in_nodes [simp]: "n \<in> set (nodes n)"
  by (cases n) simp

lemma nodes_child: "c \<in> set (childNodes n) \<Longrightarrow> m \<in> set (nodes c) \<Longrightarrow> m \<in> set (nodes n)"
  by (cases n) auto

lemma nodes_iff: "m \<in> set (nodes n) \<longleftrightarrow> m = n \<or> (\<exists>c \<in> set (childNodes n). m \<in> set (nodes c))"
  by (cases n) auto

end
