(* ===== verification/Gather.thy ===== *)
theory Gather
  imports Tokens "HOL-Library.Sublist"
begin

text \<open>
  The cursor over the token vector and the \<open>GATHER_\<close> routines of \<^verbatim>\<open>src/src/parser.cpp\<close>. They all step an
  index forward with \<open>NEXT_TOKEN\<close> and collect tokens until a bracket level or a stop token is met;
  \<open>walk\<close> is that loop, and each routine gives it the body of its own loop. A routine that takes
  \<open>subTokens\<close> by reference returns the extended vector with the new index.
\<close>

section \<open>The cursor\<close>

text \<open>\<open>i < tokens.size() - 1\<close> in unsigned arithmetic: on an empty vector the bound wraps around and
  the test holds.\<close>

definition before_last :: "'a list \<Rightarrow> nat \<Rightarrow> bool" where
  "before_last ts i \<longleftrightarrow> ts = [] \<or> i + 1 < length ts"

text \<open>The macro \<open>NEXT_TOKEN\<close>: \<open>tokens[++i]\<close>.\<close>

definition NEXT_TOKEN :: "token list \<Rightarrow> nat \<Rightarrow> (token \<times> nat) outcome" where
  "NEXT_TOKEN ts i = rbind (vec_at ts (i + 1)) (\<lambda>t. Inr (t, i + 1))"

lemma NEXT_TOKEN_Inr [simp]:
  "NEXT_TOKEN ts i = Inr (t, j) \<longleftrightarrow> i + 1 < length ts \<and> t = ts ! (i + 1) \<and> j = i + 1"
  by (auto simp: NEXT_TOKEN_def rbind_eq_Inr)

lemma NEXT_TOKEN_in: "i + 1 < length ts \<Longrightarrow> NEXT_TOKEN ts i = Inr (ts ! (i + 1), i + 1)"
  by simp

text \<open>What the body of a loop does with the next token: go on, leave after it, or leave before it
  (\<open>i--; break\<close>).\<close>

datatype 's progress = Continue 's | Break 's | Back 's

text \<open>
  The loop: \<open>ends\<close> is the test on the token already consumed, \<open>run_out\<close> what happens when the vector
  ends or that test holds, \<open>step\<close> the body.
\<close>

function walk ::
  "token list \<Rightarrow> (token \<Rightarrow> bool) \<Rightarrow> ('s \<Rightarrow> 's outcome) \<Rightarrow> (token \<Rightarrow> 's \<Rightarrow> 's progress outcome)
   \<Rightarrow> nat \<Rightarrow> 's \<Rightarrow> ('s \<times> nat) outcome" where
  "walk ts ends run_out step i st =
     (if \<not> before_last ts i then rbind (run_out st) (\<lambda>st'. Inr (st', i))
      else rbind (vec_at ts i) (\<lambda>cur.
        if ends cur then rbind (run_out st) (\<lambda>st'. Inr (st', i))
        else rbind (vec_at ts (i + 1)) (\<lambda>t. rbind (step t st) (\<lambda>r.
          case r of
            Continue st' \<Rightarrow> walk ts ends run_out step (i + 1) st'
          | Break st' \<Rightarrow> Inr (st', i + 1)
          | Back st' \<Rightarrow> Inr (st', i)))))"
  by pat_completeness auto

termination
  by (relation "measure (\<lambda>(ts, _, _, _, i, _). length ts - i)") (auto simp: vec_at_def split: if_splits)

declare walk.simps [simp del]

abbreviation never :: "token \<Rightarrow> bool" where
  "never \<equiv> \<lambda>_. False"

lemma walk_stop:
  "ts \<noteq> [] \<Longrightarrow> length ts \<le> i + 1 \<Longrightarrow> walk ts ends run_out step i st = rbind (run_out st) (\<lambda>st'. Inr (st', i))"
  by (subst walk.simps) (simp add: before_last_def)

lemma walk_next:
  assumes "i + 1 < length ts" and "\<not> ends (ts ! i)"
  shows "walk ts ends run_out step i st = rbind (step (ts ! (i + 1)) st) (\<lambda>r.
      case r of Continue st' \<Rightarrow> walk ts ends run_out step (i + 1) st'
      | Break st' \<Rightarrow> Inr (st', i + 1) | Back st' \<Rightarrow> Inr (st', i))"
  using assms by (subst walk.simps) (simp add: before_last_def vec_at_def)

lemma walk_cases:
  assumes "walk ts ends run_out step i st = Inr (st', j)"
  obtains (out) "run_out st = Inr st'" and "j = i" and "\<not> (i + 1 < length ts \<and> \<not> ends (ts ! i))"
  | (more) s where "i + 1 < length ts" and "\<not> ends (ts ! i)"
      and "step (ts ! (i + 1)) st = Inr (Continue s)" and "walk ts ends run_out step (i + 1) s = Inr (st', j)"
  | (brk) "i + 1 < length ts" and "\<not> ends (ts ! i)"
      and "step (ts ! (i + 1)) st = Inr (Break st')" and "j = i + 1"
  | (bck) "i + 1 < length ts" and "\<not> ends (ts ! i)"
      and "step (ts ! (i + 1)) st = Inr (Back st')" and "j = i"
proof (cases "i + 1 < length ts \<and> \<not> ends (ts ! i)")
  case True
  then obtain r where r: "step (ts ! (i + 1)) st = Inr r"
      "(case r of Continue st' \<Rightarrow> walk ts ends run_out step (i + 1) st'
        | Break st' \<Rightarrow> Inr (st', i + 1) | Back st' \<Rightarrow> Inr (st', i)) = Inr (st', j)"
    using assms unfolding walk_next [of i ts ends, OF conjunct1 [OF True] conjunct2 [OF True]] by blast
  show ?thesis
  proof (cases r)
    case (Continue s)
    with r True show ?thesis by (intro more [of s]) simp_all
  next
    case (Break s)
    with r True show ?thesis by (intro brk) simp_all
  next
    case (Back s)
    with r True show ?thesis by (intro bck) simp_all
  qed
next
  case False
  then consider "\<not> before_last ts i" | "ts = []" | "i + 1 < length ts" "ends (ts ! i)"
    by (auto simp: before_last_def)
  then have "rbind (run_out st) (\<lambda>st'. Inr (st', i)) = Inr (st', j)"
  proof cases
    case 1
    with assms show ?thesis by (simp add: walk.simps [of ts ends run_out step i st])
  next
    case 2
    with assms show ?thesis
      by (simp add: walk.simps [of "[]" ends run_out step i st] before_last_def vec_at_def)
  next
    case 3
    then have "before_last ts i" "vec_at ts i = Inr (ts ! i)"
      by (simp_all add: before_last_def)
    with assms 3 show ?thesis by (simp add: walk.simps [of ts ends run_out step i st])
  qed
  then have "run_out st = Inr st'" "j = i"
    by (auto simp: rbind_eq_Inr)
  then show ?thesis using False by (rule out)
qed

text \<open>The index never moves back, and stays in the vector once it has moved.\<close>

lemma walk_forward:
  "walk ts ends run_out step i st = Inr (st', j) \<Longrightarrow> i \<le> j \<and> (j = i \<or> j < length ts)"
proof (induction "length ts - i" arbitrary: i st rule: less_induct)
  case less
  from less.prems show ?case
  proof (cases rule: walk_cases)
    case (more s)
    then have "i + 1 \<le> j \<and> (j = i + 1 \<or> j < length ts)"
      by (intro less.hyps) auto
    with more show ?thesis by auto
  qed auto
qed

text \<open>
  The contract of a body that collects: it adds at most the token it is given. Whatever such a loop
  returns was in the vector, after the starting index and up to the final one, in the same order.
\<close>

fun state_of :: "'s progress \<Rightarrow> 's" where
  "state_of (Continue s) = s" | "state_of (Break s) = s" | "state_of (Back s) = s"

locale collector =
  fixes step :: "token \<Rightarrow> 's \<Rightarrow> 's progress outcome"
    and collected :: "'s \<Rightarrow> token list"
  assumes adds_at_most: "step t st = Inr r \<Longrightarrow>
      collected (state_of r) = collected st \<or>
      collected (state_of r) = collected st @ [t] \<and> (\<nexists>s. r = Back s)"
begin

lemma walk_collects:
  assumes "\<And>s s'. run_out s = Inr s' \<Longrightarrow> collected s' = collected s"
  shows "walk ts ends run_out step i st = Inr (st', j) \<Longrightarrow>
    \<exists>xs. collected st' = collected st @ xs \<and> subseq xs (drop (i + 1) (take (j + 1) ts))"
proof (induction "length ts - i" arbitrary: i st rule: less_induct)
  case less
  let ?t = "ts ! (i + 1)"
  from less.prems show ?case
  proof (cases rule: walk_cases)
    case out
    with assms show ?thesis by simp
  next
    case (more s)
    then have "\<exists>xs. collected st' = collected s @ xs \<and> subseq xs (drop (i + 1 + 1) (take (j + 1) ts))"
      by (intro less.hyps) auto
    then obtain xs where xs: "collected st' = collected s @ xs"
        "subseq xs (drop (Suc (i + 1)) (take (j + 1) ts))"
      by auto
    have "i + 1 < length (take (j + 1) ts)"
      using walk_forward [OF more(4)] more(1) by auto
    then have d: "drop (i + 1) (take (j + 1) ts) = ?t # drop (Suc (i + 1)) (take (j + 1) ts)"
      by (simp add: drop_nth)
    show ?thesis
      using adds_at_most [OF more(3)] xs unfolding d by auto
  next
    case brk
    then have "drop (i + 1) (take (j + 1) ts) = [?t]"
      by (simp add: take_Suc_nth)
    with adds_at_most [OF brk(3)] show ?thesis by auto
  next
    case bck
    with adds_at_most [OF bck(3)] show ?thesis by auto
  qed
qed

end

text \<open>What every step keeps, the loop keeps.\<close>

lemma walk_invariant:
  assumes "walk ts ends run_out step i st = Inr (st', j)" and "Q st"
    and "\<And>t s r. t \<in> set ts \<Longrightarrow> Q s \<Longrightarrow> step t s = Inr r \<Longrightarrow> Q (state_of r)"
    and "\<And>s s'. Q s \<Longrightarrow> run_out s = Inr s' \<Longrightarrow> Q s'"
  shows "Q st'"
  using assms(1,2)
proof (induction "length ts - i" arbitrary: i st rule: less_induct)
  case less
  from less.prems(1) show ?case
  proof (cases rule: walk_cases)
    case out
    with less.prems assms(4) show ?thesis by blast
  next
    case (more s)
    then have "Q s" using assms(3) [of "ts ! (i + 1)" st "Continue s"] less.prems(2) by simp
    with more show ?thesis by (intro less.hyps [of "i + 1" s]) auto
  next
    case brk
    with assms(3) [of "ts ! (i + 1)" st "Break st'"] less.prems(2) show ?thesis by simp
  next
    case bck
    with assms(3) [of "ts ! (i + 1)" st "Back st'"] less.prems(2) show ?thesis by simp
  qed
qed

section \<open>The routines\<close>

definition getNextNonNothingToken :: "token list \<Rightarrow> nat \<Rightarrow> (token \<times> nat) outcome" where
  "getNextNonNothingToken ts i =
     walk ts (\<lambda>cur. tk_second cur = EndOfFile) (\<lambda>_. Inr tokenDataType0)
       (\<lambda>t t0. Inr (if tk_second t \<noteq> Nothing \<and> tk_second t \<noteq> EndOfLine then Break t else Continue t0))
       i tokenDataType0"

text \<open>The state of a bracket loop: ended early, level, tokens collected.\<close>

type_synonym bracket_state = "bool \<times> int \<times> token list"

text \<open>The push and the change of level that both kinds of bracket share.\<close>

definition bracket_push ::
  "TokenType \<Rightarrow> TokenType \<Rightarrow> bool \<Rightarrow> token \<Rightarrow> int \<Rightarrow> token list \<Rightarrow> int \<times> token list" where
  "bracket_push opener closer preserveBraces t level sub =
     (if tk_second t = opener
      then (level + 1, if level \<noteq> 0 \<or> preserveBraces then sub @ [t] else sub)
      else if tk_second t = closer
      then (level - 1, if level - 1 \<noteq> 0 \<or> preserveBraces then sub @ [t] else sub)
      else (level, sub @ [t]))"

definition scope_step :: "bool \<Rightarrow> token \<Rightarrow> bracket_state \<Rightarrow> bracket_state progress outcome" where
  "scope_step preserveBraces t st =
     (case st of (early, level, sub) \<Rightarrow>
       if tk_second t = Nothing then Inr (Continue (early, level, sub))
       else if level \<le> 0 \<and> tk_second t = Semi_Colon then Inr (Break (True, level, sub))
       else let (level', sub') = bracket_push Left_Brace Right_Brace preserveBraces t level sub
            in Inr (if level' \<le> 0 then Break (False, level', sub') else Continue (False, level', sub')))"

definition is_eof :: "token \<Rightarrow> bool" where
  "is_eof t \<longleftrightarrow> tk_second t = EndOfFile"

definition scope_loop ::
  "token list \<Rightarrow> token \<Rightarrow> bool \<Rightarrow> int \<Rightarrow> nat \<Rightarrow> token list \<Rightarrow> (bool \<times> token list \<times> nat) outcome" where
  "scope_loop ts firstToken preserveBraces brLevel i sub =
     rbind (walk ts is_eof (\<lambda>_. token_error firstToken ''Unmatched brace'') (scope_step preserveBraces)
              i (False, brLevel, sub))
       (\<lambda>((early, level, sub'), j). Inr (early, sub', j))"

definition GATHER_SCOPE_BODY ::
  "token list \<Rightarrow> int \<Rightarrow> nat \<Rightarrow> bool \<Rightarrow> (bool \<times> token list \<times> nat) outcome" where
  "GATHER_SCOPE_BODY ts brLevel i preserveBraces =
     (if before_last ts i
      then rbind (NEXT_TOKEN ts i) (\<lambda>(firstToken, _). scope_loop ts firstToken preserveBraces brLevel i [])
      else Inr (True, [], i))"

definition GATHER_SCOPE_BODY_APPEND ::
  "token list \<Rightarrow> token list \<Rightarrow> int \<Rightarrow> nat \<Rightarrow> bool \<Rightarrow> (bool \<times> token list \<times> nat) outcome" where
  "GATHER_SCOPE_BODY_APPEND ts sub brLevel i preserveBraces =
     rbind (NEXT_TOKEN ts i) (\<lambda>(firstToken, _). scope_loop ts firstToken preserveBraces brLevel i sub)"

definition paren_step :: "bool \<Rightarrow> token \<Rightarrow> bracket_state \<Rightarrow> bracket_state progress outcome" where
  "paren_step preserveBraces t st =
     (case st of (early, level, sub) \<Rightarrow>
       if tk_second t = Nothing then Inr (Continue (early, level, sub))
       else let (level', sub') = bracket_push Left_Paren Right_Paren preserveBraces t level sub
            in Inr (if level' \<le> 0 then Break (early, level', sub') else Continue (early, level', sub')))"

text \<open>With \<open>pLevel = 1\<close> the first token, used for the report only, is the current one.\<close>

definition GATHER_PAREN_EXPRESSION ::
  "token list \<Rightarrow> token list \<Rightarrow> int \<Rightarrow> nat \<Rightarrow> bool \<Rightarrow> (token list \<times> nat) outcome" where
  "GATHER_PAREN_EXPRESSION ts sub pLevel i preserveBraces =
     rbind (if pLevel = 1 then vec_at ts i else vec_at ts (i + 1)) (\<lambda>firstToken.
     rbind (walk ts (\<lambda>cur. tk_second cur = EndOfFile \<or> tk_second cur = Semi_Colon)
              (\<lambda>_. token_error firstToken ''Unmatched parenthesis'') (paren_step preserveBraces)
              i (False, pLevel, sub))
       (\<lambda>((_, _, sub'), j). Inr (sub', j)))"

text \<open>Loops that stop at a token of one of several types, kept or not; the flag is the result.\<close>

definition stop_step ::
  "(token \<Rightarrow> bool) \<Rightarrow> (token \<Rightarrow> bool) \<Rightarrow> bool \<Rightarrow> token \<Rightarrow> bool \<times> token list \<Rightarrow> (bool \<times> token list) progress outcome" where
  "stop_step skips stops includeLast t st =
     (case st of (flag, sub) \<Rightarrow>
       if skips t then Inr (Continue (flag, sub))
       else if stops t then Inr (Break (flag, if includeLast then sub @ [t] else sub))
       else Inr (Continue (flag, sub @ [t])))"

definition is_nothing :: "token \<Rightarrow> bool" where
  "is_nothing t \<longleftrightarrow> tk_second t = Nothing"

definition is_eol :: "token \<Rightarrow> bool" where
  "is_eol t \<longleftrightarrow> tk_second t = EndOfLine"

text \<open>The common prologue of the loops: the first token, for the report, or \<open>return true\<close>.\<close>

definition with_first ::
  "token list \<Rightarrow> nat \<Rightarrow> token list \<Rightarrow> (token \<Rightarrow> ((bool \<times> token list) \<times> nat) outcome)
   \<Rightarrow> (bool \<times> token list \<times> nat) outcome" where
  "with_first ts i sub loop =
     (if before_last ts i
      then rbind (NEXT_TOKEN ts i) (\<lambda>(firstToken, _).
           rbind (loop firstToken) (\<lambda>((flag, sub'), j). Inr (flag, sub', j)))
      else Inr (True, sub, i))"

definition GATHER_TO_SEMICOLON ::
  "token list \<Rightarrow> token list \<Rightarrow> nat \<Rightarrow> bool \<Rightarrow> bool \<Rightarrow> (bool \<times> token list \<times> nat) outcome" where
  "GATHER_TO_SEMICOLON ts sub i includeLast allowRunOut =
     with_first ts i sub (\<lambda>firstToken.
       walk ts is_eol
         (\<lambda>(flag, sub). if \<not> allowRunOut then token_error firstToken ''Missing semicolon'' else Inr (True, sub))
         (stop_step is_nothing (\<lambda>t. tk_second t = Semi_Colon) includeLast) i (False, sub))"

definition GATHER_TO_SEMICOLON_OR_OTHER ::
  "token list \<Rightarrow> token list \<Rightarrow> nat \<Rightarrow> TokenType \<Rightarrow> bool \<Rightarrow> bool \<Rightarrow> (bool \<times> token list \<times> nat) outcome" where
  "GATHER_TO_SEMICOLON_OR_OTHER ts sub i other includeLast allowRunOut =
     with_first ts i sub (\<lambda>firstToken.
       walk ts is_eol
         (\<lambda>(flag, sub). if \<not> allowRunOut then token_error firstToken ''Missing semicolon'' else Inr (flag, sub))
         (stop_step is_nothing (\<lambda>t. tk_second t = Semi_Colon \<or> tk_second t = other) includeLast) i (False, sub))"

definition GATHER_TO_A_OR_B ::
  "token list \<Rightarrow> token list \<Rightarrow> nat \<Rightarrow> TokenType \<Rightarrow> TokenType \<Rightarrow> bool \<Rightarrow> (bool \<times> token list \<times> nat) outcome" where
  "GATHER_TO_A_OR_B ts sub i a b includeLast =
     with_first ts i sub (\<lambda>firstToken.
       walk ts never
         (\<lambda>_. token_error firstToken
            (''End of file reached before expected '' @ tokenAsString a @ '' or '' @ tokenAsString b))
         (stop_step is_nothing (\<lambda>t. tk_second t = a \<or> tk_second t = b) includeLast) i (False, sub))"

definition GATHER_TO_TOKEN ::
  "token list \<Rightarrow> token list \<Rightarrow> nat \<Rightarrow> TokenType \<Rightarrow> bool \<Rightarrow> bool \<Rightarrow> (bool \<times> token list \<times> nat) outcome" where
  "GATHER_TO_TOKEN ts sub i a includeLast allowRunOut =
     with_first ts i sub (\<lambda>firstToken.
       walk ts never
         (\<lambda>(flag, sub). if \<not> allowRunOut
            then token_error firstToken (''End of file reached before expected '' @ tokenAsString a)
            else Inr (flag, sub))
         (stop_step never (\<lambda>t. tk_second t = a) includeLast) i (False, sub))"

section \<open>What the routines collect\<close>

abbreviation third :: "bracket_state \<Rightarrow> token list" where
  "third st \<equiv> snd (snd st)"

interpretation scope_collector: collector "scope_step preserve" third for preserve
  by unfold_locales (auto simp: scope_step_def bracket_push_def Let_def split: if_splits prod.splits)

interpretation paren_collector: collector "paren_step preserve" third for preserve
  by unfold_locales (auto simp: paren_step_def bracket_push_def Let_def split: if_splits prod.splits)

interpretation stop_collector: collector "stop_step skips stops incl" snd for skips stops incl
  by unfold_locales (auto simp: stop_step_def split: if_splits prod.splits)

text \<open>\<open>gathered ts i sub sub' j\<close>: the new tokens come from the part of the vector stepped over.\<close>

definition gathered :: "token list \<Rightarrow> nat \<Rightarrow> token list \<Rightarrow> token list \<Rightarrow> nat \<Rightarrow> bool" where
  "gathered ts i sub sub' j \<longleftrightarrow> i \<le> j \<and> (j = i \<or> j < length ts)
     \<and> (\<exists>xs. sub' = sub @ xs \<and> subseq xs (drop (i + 1) (take (j + 1) ts)))"

lemma gathered_refl [simp]: "gathered ts i sub sub i"
  by (simp add: gathered_def)

lemma getNext_forward:
  "getNextNonNothingToken ts i = Inr (t, j) \<Longrightarrow> i \<le> j \<and> (j = i \<or> j < length ts)"
  unfolding getNextNonNothingToken_def by (rule walk_forward)

lemma scope_gathered:
  assumes "scope_loop ts first preserve level i sub = Inr (early, sub', j)"
  shows "gathered ts i sub sub' j"
proof -
  obtain l where w: "walk ts is_eof (\<lambda>_. token_error first ''Unmatched brace'') (scope_step preserve)
      i (False, level, sub) = Inr ((early, l, sub'), j)"
    using assms by (auto simp: scope_loop_def)
  show ?thesis
    using walk_forward [OF w] scope_collector.walk_collects [OF _ w] by (auto simp: gathered_def)
qed

lemma with_first_gathered:
  assumes "with_first ts i sub (\<lambda>f. walk ts ends (run_out f) (stop_step skips stops incl) i (False, sub)) =
      Inr (flag, sub', j)"
    and "\<And>f s s'. run_out f s = Inr s' \<Longrightarrow> snd s' = snd s"
  shows "gathered ts i sub sub' j"
proof (cases "before_last ts i")
  case True
  then obtain f where w: "walk ts ends (run_out f) (stop_step skips stops incl) i (False, sub) =
      Inr ((flag, sub'), j)"
    using assms(1) by (auto simp: with_first_def)
  show ?thesis
    using walk_forward [OF w] stop_collector.walk_collects [OF assms(2) w] by (auto simp: gathered_def)
next
  case False
  with assms(1) show ?thesis by (auto simp: with_first_def gathered_def)
qed

lemma GATHER_SCOPE_BODY_gathered:
  "GATHER_SCOPE_BODY ts level i preserve = Inr (early, sub', j) \<Longrightarrow> gathered ts i [] sub' j"
  by (auto simp: GATHER_SCOPE_BODY_def split: if_splits dest: scope_gathered)

lemma GATHER_SCOPE_BODY_APPEND_gathered:
  "GATHER_SCOPE_BODY_APPEND ts sub level i preserve = Inr (early, sub', j) \<Longrightarrow> gathered ts i sub sub' j"
  by (auto simp: GATHER_SCOPE_BODY_APPEND_def dest: scope_gathered)

lemma GATHER_PAREN_EXPRESSION_gathered:
  assumes "GATHER_PAREN_EXPRESSION ts sub level i preserve = Inr (sub', j)"
  shows "gathered ts i sub sub' j"
proof -
  obtain f e l where w: "walk ts (\<lambda>cur. tk_second cur = EndOfFile \<or> tk_second cur = Semi_Colon)
      (\<lambda>_. token_error f ''Unmatched parenthesis'') (paren_step preserve)
      i (False, level, sub) = Inr ((e, l, sub'), j)"
    using assms by (auto simp: GATHER_PAREN_EXPRESSION_def)
  show ?thesis
    using walk_forward [OF w] paren_collector.walk_collects [OF _ w] by (auto simp: gathered_def)
qed

lemma GATHER_TO_SEMICOLON_gathered:
  "GATHER_TO_SEMICOLON ts sub i incl allow = Inr (flag, sub', j) \<Longrightarrow> gathered ts i sub sub' j"
  unfolding GATHER_TO_SEMICOLON_def by (erule with_first_gathered) (auto split: if_splits)

lemma GATHER_TO_SEMICOLON_OR_OTHER_gathered:
  "GATHER_TO_SEMICOLON_OR_OTHER ts sub i other incl allow = Inr (flag, sub', j) \<Longrightarrow> gathered ts i sub sub' j"
  unfolding GATHER_TO_SEMICOLON_OR_OTHER_def by (erule with_first_gathered) (auto split: if_splits)

lemma GATHER_TO_A_OR_B_gathered:
  "GATHER_TO_A_OR_B ts sub i a b incl = Inr (flag, sub', j) \<Longrightarrow> gathered ts i sub sub' j"
  unfolding GATHER_TO_A_OR_B_def by (erule with_first_gathered) auto

lemma GATHER_TO_TOKEN_gathered:
  "GATHER_TO_TOKEN ts sub i a incl allow = Inr (flag, sub', j) \<Longrightarrow> gathered ts i sub sub' j"
  unfolding GATHER_TO_TOKEN_def by (erule with_first_gathered) (auto split: if_splits)

lemmas GATHER_gathered = GATHER_SCOPE_BODY_gathered GATHER_SCOPE_BODY_APPEND_gathered
  GATHER_PAREN_EXPRESSION_gathered GATHER_TO_SEMICOLON_gathered GATHER_TO_SEMICOLON_OR_OTHER_gathered
  GATHER_TO_A_OR_B_gathered GATHER_TO_TOKEN_gathered

lemma gathered_forward: "gathered ts i sub sub' j \<Longrightarrow> i \<le> j \<and> (j = i \<or> j < length ts)"
  by (simp add: gathered_def)

lemma subseq_set: "subseq xs ys \<Longrightarrow> set xs \<subseteq> set ys"
  by (auto dest: list_emb_set)

lemma gathered_subset:
  assumes "gathered ts i sub sub' j"
  shows "set sub' \<subseteq> set sub \<union> set ts"
proof -
  obtain xs where "sub' = sub @ xs" "set xs \<subseteq> set (drop (i + 1) (take (j + 1) ts))"
    using assms by (auto simp: gathered_def dest: subseq_set)
  moreover have "set (drop (i + 1) (take (j + 1) ts)) \<subseteq> set ts"
    by (meson order_trans set_drop_subset set_take_subset)
  ultimately show ?thesis by auto
qed

section \<open>Matching brackets\<close>

text \<open>A token list in which every bracket of one kind is closed, counted from level \<open>l\<close>.\<close>

definition bracket_delta :: "TokenType \<Rightarrow> TokenType \<Rightarrow> token \<Rightarrow> int" where
  "bracket_delta opener closer t =
     (if tk_second t = opener then 1 else if tk_second t = closer then -1 else 0)"

fun nested :: "TokenType \<Rightarrow> TokenType \<Rightarrow> int \<Rightarrow> token list \<Rightarrow> bool" where
  "nested opener closer l [] \<longleftrightarrow> l = 0"
| "nested opener closer l (t # ts) \<longleftrightarrow>
     0 \<le> l + bracket_delta opener closer t \<and> nested opener closer (l + bracket_delta opener closer t) ts"

abbreviation significant :: "token list \<Rightarrow> token list" where
  "significant \<equiv> filter (\<lambda>t. tk_second t \<noteq> Nothing)"

locale bracket_walk =
  fixes step :: "token \<Rightarrow> bracket_state \<Rightarrow> bracket_state progress outcome"
    and opener closer :: TokenType and preserve :: bool
  assumes step_nothing: "tk_second t = Nothing \<Longrightarrow> step t (False, l, sub) = Inr (Continue (False, l, sub))"
    and step_push: "tk_second t \<noteq> Nothing \<Longrightarrow> 0 < l \<or> tk_second t = opener \<Longrightarrow>
      step t (False, l, sub) =
        (let (l', sub') = bracket_push opener closer preserve t l sub
         in Inr (if l' \<le> 0 then Break (False, l', sub') else Continue (False, l', sub')))"
    and two_kinds: "opener \<noteq> closer" "opener \<noteq> Nothing" "closer \<noteq> Nothing"
begin

lemma walk_body:
  assumes "drop (i + 1) ts = body @ c # rest" and "nested opener closer l body" and "0 \<le> l"
    and "tk_second c = closer" and "\<not> ends (ts ! i)" and "\<forall>t \<in> set body. \<not> ends t"
  shows "walk ts ends ro step i (False, 1 + l, sub) =
    Inr ((False, 0, sub @ significant body @ (if preserve then [c] else [])), i + 1 + length body)"
  using assms
proof (induction body arbitrary: i l sub)
  case Nil
  have i: "i + 1 < length ts" "ts ! (i + 1) = c"
    using Nil.prems(1) by (auto simp: not_le [symmetric] intro: ccontr) (metis append_Nil nth_via_drop)
  show ?case
    using Nil.prems(2-) two_kinds i step_push [of c 1 sub]
    by (subst walk_next) (auto simp: bracket_push_def)
next
  case (Cons t body)
  have i: "i + 1 < length ts" "ts ! (i + 1) = t"
    using Cons.prems(1) by (auto simp: not_le [symmetric] intro: ccontr) (metis append_Cons nth_via_drop)
  have d: "drop (i + 1 + 1) ts = body @ c # rest"
    using Cons.prems(1) i(1) by (metis append_Cons drop_nth list.inject semiring_norm(174) add.commute plus_1_eq_Suc)
  let ?l = "l + bracket_delta opener closer t"
  show ?case
  proof (cases "tk_second t = Nothing")
    case True
    then have "?l = l" using two_kinds by (simp add: bracket_delta_def)
    with True Cons.IH [of "i + 1" l sub] Cons.prems d i show ?thesis
      by (subst walk_next) (simp_all add: step_nothing)
  next
    case False
    have "step t (False, 1 + l, sub) = Inr (Continue (False, 1 + ?l, sub @ [t]))"
      using False Cons.prems(2,3) step_push [of t "1 + l" sub]
      by (auto simp: bracket_push_def bracket_delta_def split: if_splits)
    with False Cons.IH [of "i + 1" ?l "sub @ [t]"] Cons.prems d i show ?thesis
      by (subst walk_next) simp_all
  qed
qed

lemma walk_brackets:
  assumes "drop (i + 1) ts = b # body @ c # rest" and "nested opener closer 0 body"
    and "tk_second b = opener" and "tk_second c = closer"
    and "\<not> ends (ts ! i)" and "\<not> ends b" and "\<forall>t \<in> set body. \<not> ends t"
  shows "walk ts ends ro step i (False, 0, sub) =
    Inr ((False, 0, sub @ (if preserve then b # significant body @ [c] else significant body)),
      i + 2 + length body)"
proof -
  have i: "i + 1 < length ts" "ts ! (i + 1) = b"
    using assms(1) by (auto simp: not_le [symmetric] intro: ccontr) (metis nth_via_drop)
  have d: "drop (i + 1 + 1) ts = body @ c # rest"
    using assms(1) i(1) by (metis drop_nth list.inject add.commute plus_1_eq_Suc)
  show ?thesis
    using step_push [of b 0 sub] assms two_kinds i
      walk_body [OF d assms(2) order_refl assms(4), of ends ro "if preserve then sub @ [b] else sub"]
    by (subst walk_next) (auto simp: bracket_push_def)
qed

end

interpretation scope_brackets: bracket_walk "scope_step preserve" Left_Brace Right_Brace preserve
  for preserve
  by unfold_locales (auto simp: scope_step_def Let_def split: prod.splits)

interpretation paren_brackets: bracket_walk "paren_step preserve" Left_Paren Right_Paren preserve
  for preserve
  by unfold_locales (auto simp: paren_step_def Let_def split: prod.splits)

text \<open>C19. From the token before an opening brace, \<open>GATHER_SCOPE_BODY\<close> collects exactly up to the
  brace that matches it, with or without the two braces, and leaves the index there.\<close>

theorem GATHER_SCOPE_BODY_brackets:
  assumes "drop (i + 1) ts = b # body @ c # rest" and "nested Left_Brace Right_Brace 0 body"
    and "tk_second b = Left_Brace" and "tk_second c = Right_Brace"
    and "\<not> is_eof (ts ! i)" and "\<forall>t \<in> set body. \<not> is_eof t"
  shows "GATHER_SCOPE_BODY ts 0 i preserve =
    Inr (False, if preserve then b # significant body @ [c] else significant body, i + 2 + length body)"
proof -
  have i: "i + 1 < length ts"
    using assms(1) by (auto simp: not_le [symmetric] intro: ccontr)
  have b: "\<not> is_eof b" using assms(3) by (simp add: is_eof_def)
  note scope_brackets.walk_brackets [OF assms(1-5) b assms(6)]
  then show ?thesis
    using i by (simp add: GATHER_SCOPE_BODY_def scope_loop_def before_last_def NEXT_TOKEN_in)
qed

abbreviation tk :: "TokenType \<Rightarrow> token" where
  "tk \<equiv> tokenDataType2 ''''"

theorem GATHER_SCOPE_BODY_brackets_witness:
  "GATHER_SCOPE_BODY [tk Right_Paren, tk Left_Brace, tk Left_Brace, tk Right_Brace, tk Right_Brace, tk Plus] 0 0 True =
   Inr (False, [tk Left_Brace, tk Left_Brace, tk Right_Brace, tk Right_Brace], 4)"
  using GATHER_SCOPE_BODY_brackets [of 0 _ "tk Left_Brace" "[tk Left_Brace, tk Right_Brace]" "tk Right_Brace" "[tk Plus]"]
  by (simp add: tokenDataType2_def bracket_delta_def is_eof_def)

text \<open>C28. The same for parentheses, where a semicolon inside would be reported instead.\<close>

theorem GATHER_PAREN_EXPRESSION_brackets:
  assumes "drop (i + 1) ts = b # body @ c # rest" and "nested Left_Paren Right_Paren 0 body"
    and "tk_second b = Left_Paren" and "tk_second c = Right_Paren"
    and "tk_second (ts ! i) \<notin> {EndOfFile, Semi_Colon}"
    and "\<forall>t \<in> set body. tk_second t \<notin> {EndOfFile, Semi_Colon}"
  shows "GATHER_PAREN_EXPRESSION ts sub 0 i preserve =
    Inr (sub @ (if preserve then b # significant body @ [c] else significant body), i + 2 + length body)"
proof -
  have i: "i + 1 < length ts"
    using assms(1) by (auto simp: not_le [symmetric] intro: ccontr)
  let ?ends = "\<lambda>cur. tk_second cur = EndOfFile \<or> tk_second cur = Semi_Colon"
  have "\<not> ?ends (ts ! i)" "\<not> ?ends b" "\<forall>t \<in> set body. \<not> ?ends t"
    using assms(3,5,6) by auto
  note paren_brackets.walk_brackets [where ends = ?ends, OF assms(1-4) this]
  then show ?thesis
    using i by (simp add: GATHER_PAREN_EXPRESSION_def vec_at_def)
qed

theorem GATHER_PAREN_EXPRESSION_brackets_witness:
  "GATHER_PAREN_EXPRESSION [tk If_Statement, tk Left_Paren, tk Identifier, tk Right_Paren, tk Left_Brace] [] 0 0 False =
   Inr ([tk Identifier], 3)"
  using GATHER_PAREN_EXPRESSION_brackets [of 0 _ "tk Left_Paren" "[tk Identifier]" "tk Right_Paren" "[tk Left_Brace]"]
  by (simp add: tokenDataType2_def bracket_delta_def)

end
