(* ===== verification/Parser_Cases.thy ===== *)
theory Parser_Cases
  imports Ast Gather
begin

text \<open>
  The branches of the switch in \<open>generateAST\<close> (\<^verbatim>\<open>src/src/parser.cpp\<close>), one definition per branch or
  group of branches. A branch gets the recursive parser as the argument \<open>gen\<close> (the call one level
  deeper, with its \<open>tokens\<close> and \<open>parentNodePtr\<close>), the token vector, the index and the parent node. It
  returns what the code after the switch does with the node, the changed parent, and the index.
\<close>

type_synonym parser = "token list \<Rightarrow> ast \<Rightarrow> ast outcome"

text \<open>The labels \<open>addNode\<close>, \<open>addNodeAsLeaf\<close> and \<open>dontAddNode\<close>.\<close>

datatype placement = Add_Node ast | Add_Leaf ast | Dont_Add

type_synonym branch = "(placement \<times> ast \<times> nat) outcome"

section \<open>Tables\<close>

definition operatorDefaultNodeType :: "(TokenType \<times> ASTNodeType) list" where
  "operatorDefaultNodeType = [
     (Dot_Dot, Range_Node), (Bang_Equal, Compare_Not), (Equal_Equal, Compare_Equal),
     (Less, Compare_Less), (Greater, Compare_Greater), (Greater_Equal, Compare_GreaterEqual),
     (Plus, Expression_Plus), (Minus, Expression_Minus), (Star, Expression_Times),
     (Slash, Expression_Divide), (Ampersand, Address_Of_Operation), (Ref, Reference_Operation),
     (Exact, Exact_Type_Node), (Left_Bracket, Access_Operation), (Dot, Member_Access),
     (Arrow_Right, Pipe_Operation)]"

definition compileTimeDefinable :: "TokenType list" where
  "compileTimeDefinable = [While_Statement, For_Statement, If_Statement, Struct_Define, Module_Define]"

text \<open>The case labels that share the branch for operators.\<close>

definition operatorTokens :: "TokenType list" where
  "operatorTokens = [Dot_Dot, Dot, Bang_Equal, Equal_Equal, Less, Less_Equal, Greater, Greater_Equal,
     Plus, Minus, Star, Slash, Ref, Exact, Left_Bracket, Arrow_Right, Bar, Bar_Bar, Ampersand,
     Ampersand_Ampersand, Tilde, Tilde_Tilde, Caret, Caret_Caret, Percent, Percent_Percent, At, At_At]"

section \<open>Helpers\<close>

definition base_node :: "token \<Rightarrow> ast" where
  "base_node t = Node (info0\<lparr>node_token := t, node_line := tk_lineNumber t\<rparr>) [] []"

definition scope_body :: "ast \<Rightarrow> ast" where
  "scope_body n = set_codegen generateScopeBody (set_type Scope_Body n)"

definition expression_term :: "ast \<Rightarrow> ast" where
  "expression_term n = set_codegen generateExpression (set_type Expression_Term n)"

text \<open>\<open>n->childNodes[0]\<close>.\<close>

definition first_child :: "ast \<Rightarrow> ast outcome" where
  "first_child n = vec_at (childNodes n) 0"

definition pop_leaf :: "ast \<Rightarrow> ast" where
  "pop_leaf p = set_leaves (butlast (leafNodes p)) p"

text \<open>
  A node with two owners may be put in a third place while it has no children (nothing changes such
  a node afterwards); a node about to be changed must have one owner.
\<close>

definition attach :: "ast \<Rightarrow> ast outcome" where
  "attach n = (if shared (info n) \<and> childNodes n \<noteq> [] then Inl Shared_Node else Inr n)"

definition sole_owner :: "ast \<Rightarrow> ast outcome" where
  "sole_owner n = (if shared (info n) then Inl Shared_Node else Inr n)"

definition mark_shared :: "ast \<Rightarrow> ast" where
  "mark_shared = map_info (shared_update (\<lambda>_. True))"

text \<open>The change of a level at one token.\<close>

definition level_at :: "TokenType \<Rightarrow> TokenType \<Rightarrow> token \<Rightarrow> int \<Rightarrow> int" where
  "level_at opener closer t l =
     (let l' = (if tk_second t = opener then l + 1 else l)
      in if tk_second t = closer then l' - 1 else l')"

definition line_or_statement_end :: "token \<Rightarrow> bool" where
  "line_or_statement_end t \<longleftrightarrow> tk_second t = EndOfLine \<or> tk_second t = Semi_Colon"

section \<open>Statements\<close>

text \<open>The condition in parentheses and the body in braces of \<open>if\<close> and \<open>while\<close>.\<close>

definition condition_and_body :: "parser \<Rightarrow> token list \<Rightarrow> nat \<Rightarrow> (ast \<times> ast \<times> nat) outcome" where
  "condition_and_body gen ts i =
     rbind (GATHER_PAREN_EXPRESSION ts [] 0 i False) (\<lambda>(sub, i).
     rbind (gen sub ASTNode0) (\<lambda>cond.
     rbind (GATHER_SCOPE_BODY ts 0 i True) (\<lambda>(_, sub, i).
     rbind (gen sub ASTNode0) (\<lambda>body.
       Inr (set_type Condition cond, scope_body body, i)))))"

text \<open>\<open>prevNode->childNodes[2] = elseNode\<close>.\<close>

definition set_else :: "ast \<Rightarrow> ast \<Rightarrow> ast" where
  "set_else e prev = set_children ((childNodes prev)[2 := e]) prev"

text \<open>The else-if loop. \<open>prevNode\<close> moves down the chain, so the rest of the chain is built on the
  new node before it is stored in its parent.\<close>

lemma getNext_found:
  assumes "getNextNonNothingToken ts i = Inr (t, j)" and "tk_second t \<noteq> Nothing"
  shows "i < j \<and> j < length ts \<and> t = ts ! j"
proof -
  have "walk ts (\<lambda>cur. tk_second cur = EndOfFile) (\<lambda>_. Inr tokenDataType0)
      (\<lambda>t t0. Inr (if tk_second t \<noteq> Nothing \<and> tk_second t \<noteq> EndOfLine then Break t else Continue t0))
      i tokenDataType0 = Inr (t, j) \<Longrightarrow> i < j \<and> j < length ts \<and> t = ts ! j"
  proof (induction "length ts - i" arbitrary: i rule: less_induct)
    case less
    from less.prems show ?case
    proof (cases rule: walk_cases)
      case out
      with assms(2) show ?thesis by (auto simp: tokenDataType0_def)
    next
      case (more s)
      then have "s = tokenDataType0" by (simp split: if_splits)
      with more have "i + 1 < j \<and> j < length ts \<and> t = ts ! j" by (intro less.hyps) auto
      then show ?thesis by simp
    qed (auto split: if_splits)
  qed
  with assms(1) show ?thesis by (simp add: getNextNonNothingToken_def)
qed

lemma getNext_step:
  "getNextNonNothingToken ts i = Inr (t, j) \<Longrightarrow>
   i \<le> j \<and> (j = i \<or> j < length ts) \<and> (tk_second t \<noteq> Nothing \<longrightarrow> i < j \<and> t \<in> set ts)"
  using getNext_forward [of ts i t j] getNext_found [of ts i t j] by auto

function else_chain :: "parser \<Rightarrow> token list \<Rightarrow> nat \<Rightarrow> ast \<Rightarrow> (ast \<times> nat) outcome" where
  "else_chain gen ts i prev =
     rbind (getNextNonNothingToken ts i) (\<lambda>(nextToken, sI2).
       if tk_second nextToken \<noteq> Else_Statement then Inr (prev, i)
       else rbind (getNextNonNothingToken ts sI2) (\<lambda>(nextToken2, i2).
         if tk_second nextToken2 = If_Statement
         then rbind (GATHER_PAREN_EXPRESSION ts [nextToken2] 0 i2 True) (\<lambda>(sub, i3).
              rbind (GATHER_SCOPE_BODY_APPEND ts sub 0 i3 True) (\<lambda>(_, sub, i4).
              rbind (gen sub ASTNode0) (\<lambda>r.
              rbind (first_child r) (\<lambda>elseNode.
              rbind (vec_at (childNodes prev) 2) (\<lambda>_.
              rbind (else_chain gen ts i4 elseNode) (\<lambda>(elseNode', j).
                Inr (set_else elseNode' prev, j)))))))
         else rbind (GATHER_SCOPE_BODY ts 0 sI2 True) (\<lambda>(_, sub, i3).
              rbind (gen sub ASTNode0) (\<lambda>elseNode.
              rbind (vec_at (childNodes prev) 2) (\<lambda>_.
                Inr (set_else (set_codegen generateScopeBody (set_type Else_Statement_Node elseNode)) prev, i3))))))"
  by pat_completeness auto

termination
  by (relation "measure (\<lambda>(_, ts, i, _). length ts - i)")
    (auto dest!: getNext_step GATHER_gathered gathered_forward)

declare else_chain.simps [simp del]

definition parse_if :: "parser \<Rightarrow> token list \<Rightarrow> nat \<Rightarrow> ast \<Rightarrow> ast \<Rightarrow> branch" where
  "parse_if gen ts i node parent =
     rbind (condition_and_body gen ts i) (\<lambda>(conditionNode, bodyNode, i).
     let blankElse = set_codegen generateScopeBody (ASTNode1 Else_Statement_Node);
         node = set_children [conditionNode, bodyNode, blankElse]
                  (set_codegen generateIf (set_type If_Statement_Node node))
     in rbind (else_chain gen ts i node) (\<lambda>(node, i). Inr (Add_Node node, parent, i)))"

definition parse_while :: "parser \<Rightarrow> token list \<Rightarrow> nat \<Rightarrow> ast \<Rightarrow> ast \<Rightarrow> branch" where
  "parse_while gen ts i node parent =
     rbind (condition_and_body gen ts i) (\<lambda>(conditionNode, bodyNode, i).
       Inr (Add_Node (set_children [conditionNode, bodyNode] (set_type While_Statement_Node node)), parent, i))"

text \<open>The loop over the head of a \<open>for\<close>: level, iterator node, tokens since the colon.\<close>

definition for_step ::
  "parser \<Rightarrow> token \<Rightarrow> int \<times> ast \<times> token list \<Rightarrow> (int \<times> ast \<times> token list) progress outcome" where
  "for_step gen t st =
     (case st of (level, iteratorNode, sub) \<Rightarrow>
       let level = level_at Left_Paren Right_Paren t level
       in if tk_second t = Right_Paren \<and> level = 0 then Inr (Break (level, iteratorNode, sub))
          else if tk_second t = Colon \<and> ntype iteratorNode = Nothing_Node
          then rbind (gen sub ASTNode0) (\<lambda>n.
                 Inr (Continue (level, set_codegen generateIterator (set_type Iterator n), [])))
          else if level = 0 \<or> line_or_statement_end t
          then Inr (Break (level, iteratorNode, sub @ [t]))
          else Inr (Continue (level, iteratorNode, sub @ [t])))"

definition parse_for :: "parser \<Rightarrow> token list \<Rightarrow> nat \<Rightarrow> ast \<Rightarrow> ast \<Rightarrow> branch" where
  "parse_for gen ts i node parent =
     rbind (walk ts never Inr (for_step gen) (i + 1) (1, ASTNode0, [])) (\<lambda>((_, iteratorNode, sub), i).
     rbind (rbind (gen sub ASTNode0) first_child) (\<lambda>rangeNode.
     rbind (GATHER_SCOPE_BODY ts 0 i True) (\<lambda>(_, sub, i).
     rbind (gen sub ASTNode0) (\<lambda>bodyNode.
       Inr (Add_Node (set_children [iteratorNode, set_type Range_Node rangeNode, scope_body bodyNode]
              (set_codegen generateFor (set_type For_Statement_Node node))), parent, i)))))"

definition parse_struct :: "parser \<Rightarrow> token list \<Rightarrow> nat \<Rightarrow> ast \<Rightarrow> ast \<Rightarrow> branch" where
  "parse_struct gen ts i node parent =
     rbind (GATHER_SCOPE_BODY ts 0 i True) (\<lambda>(_, sub, i).
     rbind (gen sub ASTNode0) (\<lambda>bodyNode.
       Inr (Add_Node (push_child (scope_body bodyNode) (set_type Struct_Define_Node node)), parent, i)))"

text \<open>A module's body is parsed into the node itself.\<close>

definition parse_module :: "parser \<Rightarrow> token list \<Rightarrow> nat \<Rightarrow> token \<Rightarrow> ast \<Rightarrow> ast \<Rightarrow> branch" where
  "parse_module gen ts i token node parent =
     rbind (GATHER_SCOPE_BODY ts 0 i True) (\<lambda>(_, sub, i).
     rbind (gen sub node) (\<lambda>node.
       Inr (Add_Node (set_codegen generateScopeBody (set_token token (set_type Module_Define_Node node))),
            parent, i)))"

section \<open>Terms and operators\<close>

definition colon_step :: "token \<Rightarrow> int \<times> token list \<Rightarrow> (int \<times> token list) progress outcome" where
  "colon_step t st =
     (case st of (level, sub) \<Rightarrow>
       let level = level_at Left_Paren Right_Paren t level
       in if level = 0 then Inr (Break (level, sub))
          else if tk_second t = Equal \<or> tk_second t = Semi_Colon then Inr (Back (level, sub))
          else if tk_second t = EndOfLine then Inr (Break (level, sub))
          else Inr (Continue (level, sub @ [t])))"

definition parse_colon :: "parser \<Rightarrow> token list \<Rightarrow> nat \<Rightarrow> token \<Rightarrow> ast \<Rightarrow> branch" where
  "parse_colon gen ts i token parent =
     (if leafNodes parent = [] then token_error token ''Binary operator expected left argument''
      else rbind (sole_owner (last (leafNodes parent))) (\<lambda>firstTerm.
           let node = set_type Identifier_Node firstTerm
           in rbind (walk ts never Inr colon_step i (1, [])) (\<lambda>((_, sub), i).
              if sub = [] then token_error token ''Operator expected right argument''
              else rbind (rbind (gen sub ASTNode0) first_child) (\<lambda>secondTerm.
                Inr (Add_Leaf (push_child (set_type Type_Node secondTerm) node), pop_leaf parent, i)))))"

text \<open>Levels of parentheses, braces and brackets, with the tokens collected; \<open>isLeaf\<close> first.\<close>

type_synonym levels_state = "bool \<times> int \<times> int \<times> int \<times> token list"

definition op_step :: "token \<Rightarrow> levels_state \<Rightarrow> levels_state progress outcome" where
  "op_step t st =
     (case st of (isLeaf, paren, brace, bracket, sub) \<Rightarrow>
       let paren = level_at Left_Paren Right_Paren t paren;
           brace = level_at Left_Brace Right_Brace t brace;
           bracket = level_at Left_Bracket Right_Bracket t bracket
       in if paren = 0 \<and> brace = 0 \<and> bracket = 0 then Inr (Break (isLeaf, paren, brace, bracket, sub))
          else if paren = 1 \<and> brace = 1 \<and> bracket = 1 \<and> tk_second t = Equal
          then Inr (Back (isLeaf, paren, brace, bracket, sub))
          else if line_or_statement_end t then Inr (Break (False, paren, brace, bracket, sub))
          else Inr (Continue (isLeaf, paren, brace, bracket, sub @ [t])))"

definition access_step :: "token \<Rightarrow> token \<Rightarrow> levels_state \<Rightarrow> levels_state progress outcome" where
  "access_step token t st =
     (case st of (isLeaf, paren, brace, bracket, sub) \<Rightarrow>
       let paren = level_at Left_Paren Right_Paren t paren;
           brace = level_at Left_Brace Right_Brace t brace;
           bracket = level_at Left_Bracket Right_Bracket t bracket
       in if bracket = 0 then Inr (Break (isLeaf, paren, brace, bracket, sub))
          else if paren = 1 \<and> brace = 1 \<and> bracket = 1 \<and> tk_second t = Equal
          then token_error token ''Missing closing bracket''
          else Inr (Continue (isLeaf, paren, brace, bracket, sub @ [t])))"

text \<open>The type of an operator's node, before and after a look at its left operand.\<close>

definition operator_type :: "TokenType \<Rightarrow> ASTNodeType" where
  "operator_type tokenType =
     (case map_of operatorDefaultNodeType tokenType of Some ty \<Rightarrow> ty | None \<Rightarrow> Redefined_Operator_Expr)"

definition unary_type :: "bool \<Rightarrow> TokenType \<Rightarrow> ASTNodeType \<Rightarrow> ASTNodeType" where
  "unary_type isUnaryR tokenType ty =
     (if isUnaryR \<and> tokenType = Ampersand then Address_Of_Operation
      else if isUnaryR \<and> tokenType = Star then Dereference_Operation
      else ty)"

definition operator_codegen :: "bool \<Rightarrow> ASTNodeType \<Rightarrow> codegen_method" where
  "operator_codegen isUnaryR ty =
     (if ty = Member_Access then generateMemberAccess
      else if isUnaryR then generateUnaryExpression
      else if ty = Access_Operation then generateAccessOperation
      else generateBinaryExpression)"

definition parse_operator :: "parser \<Rightarrow> token list \<Rightarrow> nat \<Rightarrow> token \<Rightarrow> ast \<Rightarrow> ast \<Rightarrow> branch" where
  "parse_operator gen ts i token node parent =
     (let tokenType = tk_second token;
          isUnaryR = (leafNodes parent = []);
          ty = unary_type isUnaryR tokenType (operator_type tokenType);
          isAccessOperation = (operator_type tokenType = Access_Operation);
          node = set_codegen (operator_codegen isUnaryR ty) (set_type ty node);
          parent' = (if isUnaryR then parent else pop_leaf parent)
      in rbind (if isUnaryR then Inr ASTNode0 else attach (last (leafNodes parent))) (\<lambda>firstTerm.
         rbind (walk ts never Inr (if \<not> isUnaryR \<and> isAccessOperation then access_step token else op_step)
                  i (True, 1, 1, 1, [])) (\<lambda>((isLeaf, _, _, _, sub), i).
         rbind (if sub = []
                then if \<not> isUnaryR \<and> tokenType = Star
                     then Inr (set_children [firstTerm] (set_type Pointer_Node node))
                     else if isUnaryR \<and> tokenType = Percent
                     then Inr (set_codegen generatePipePlaceholder (set_type Pipe_Placeholder node))
                     else token_error token ''Operator expected right argument''
                else rbind (rbind (gen sub ASTNode0) first_child) (\<lambda>secondTerm.
                       Inr (set_children (if isUnaryR then [secondTerm] else [firstTerm, secondTerm]) node)))
           (\<lambda>node. Inr (if isLeaf then Add_Leaf node else Add_Node node, parent', i)))))"

definition parse_equal :: "parser \<Rightarrow> token list \<Rightarrow> nat \<Rightarrow> ast \<Rightarrow> ast \<Rightarrow> branch" where
  "parse_equal gen ts i node parent =
     rbind (rbind (vec_back (leafNodes parent)) attach) (\<lambda>firstTerm.
     rbind (GATHER_TO_SEMICOLON ts [] i False False) (\<lambda>(_, sub, i).
     rbind (gen sub ASTNode0) (\<lambda>secondTerm.
       Inr (Add_Node (set_children [firstTerm, expression_term secondTerm]
              (set_codegen generateExpressionStatement (set_type Expression_Statement node))),
            pop_leaf parent, i))))"

section \<open>Directives and definitions\<close>

definition set_text :: "string \<Rightarrow> ast \<Rightarrow> ast" where
  "set_text str = map_info (node_token_update (tk_first_update (\<lambda>_. str)))"

definition parse_hash :: "parser \<Rightarrow> token list \<Rightarrow> nat \<Rightarrow> ast \<Rightarrow> ast \<Rightarrow> branch" where
  "parse_hash gen ts i node parent =
     rbind (NEXT_TOKEN ts i) (\<lambda>(tt, i).
     rbind (GATHER_TO_SEMICOLON ts [] i True True) (\<lambda>(_, sub, i).
     rbind (gen sub ASTNode0) (\<lambda>bodyNode.
     let name = tk_first tt;
         identifier = set_type Identifier_Node (set_token tt ASTNode0);
         bodyNode = scope_body bodyNode;
         node = set_type Compile_Time_Directive node;
         node = (if name = ''cast'' then set_codegen generateCast node else node);
         node = (if name = ''extern''
                 then set_codegen generateScopeBody (map_info (isExtern_update (\<lambda>_. True)) node) else node);
         identifier = (if name = ''extern'' then set_codegen generateNothing identifier else identifier);
         bodyNode = (if name = ''extern'' then setChildrenAsExtern bodyNode else bodyNode);
         node = (if name = ''new'' then set_codegen generateTypeInstance node else node)
     in Inr (Add_Node (set_children [identifier, bodyNode] (set_text (''#'' @ name) node)), parent, i))))"

text \<open>The look-ahead of \<open>::\<close> for a brace before any parenthesis.\<close>

fun define_scan :: "bool \<Rightarrow> token list \<Rightarrow> bool" where
  "define_scan lParenReached [] = False"
| "define_scan lParenReached (t # ts) =
     (if tk_second t = Left_Paren then define_scan True ts
      else if tk_second t = Left_Brace then \<not> lParenReached
      else if tk_second t = Semi_Colon then False
      else define_scan lParenReached ts)"

definition head_step :: "token \<Rightarrow> token list \<Rightarrow> token list progress outcome" where
  "head_step t sub =
     (if tk_second t = Left_Brace then Inr (Back sub)
      else if tk_second t = Left_Paren then Inr (Break (sub @ [t]))
      else Inr (Continue (sub @ [t])))"

definition to_brace_step :: "token \<Rightarrow> token list \<Rightarrow> token list progress outcome" where
  "to_brace_step t sub =
     (if tk_second t = Left_Brace then Inr (Break sub) else Inr (Continue (sub @ [t])))"

definition to_paren_step :: "token \<Rightarrow> token list \<Rightarrow> token list progress outcome" where
  "to_paren_step t sub =
     (if tk_second t = Left_Paren then Inr (Break sub) else Inr (Continue (sub @ [t])))"

text \<open>\<open>name :: { ... }\<close>, \<open>name :: struct { ... }\<close>, \<open>name :: module { ... }\<close> and the like.\<close>

definition parse_define_block ::
  "parser \<Rightarrow> token list \<Rightarrow> nat \<Rightarrow> token \<Rightarrow> ast \<Rightarrow> ast \<Rightarrow> ast \<Rightarrow> branch" where
  "parse_define_block gen ts i tt identifier node parent =
     (let keyword = tk_second tt \<in> set compileTimeDefinable
      in rbind (walk ts never (\<lambda>_. token_error tt ''Unmatched parenthesis'') head_step i []) (\<lambda>(sub, i).
         rbind (walk ts never Inr to_brace_step i sub) (\<lambda>(sub, i).
         rbind (GATHER_SCOPE_BODY_APPEND ts sub 0 (i - 1) keyword) (\<lambda>(_, sub, i).
         rbind (gen sub ASTNode0) (\<lambda>bodyNode.
         let bodyNode = scope_body bodyNode;
             node = set_children [bodyNode] (set_token (ntoken identifier) (set_type Compiler_Define node))
         in Inr (Add_Node
              (case childNodes bodyNode of
                 [] \<Rightarrow> node
               | c # _ \<Rightarrow>
                   if tk_first (ntoken c) = ''struct''
                   then set_codegen generateStruct (set_type Compiler_Define_Struct (set_token (ntoken identifier) c))
                   else node), parent, i))))))"

text \<open>The loop over the parameters: level, finished parameters, tokens of the current one.\<close>

definition params_step ::
  "parser \<Rightarrow> token \<Rightarrow> int \<times> ast list \<times> token list \<Rightarrow> (int \<times> ast list \<times> token list) progress outcome" where
  "params_step gen t st =
     (case st of (level, arguments, sub) \<Rightarrow>
       let level = level_at Left_Paren Right_Paren t level
       in if level = 0 \<or> line_or_statement_end t then Inr (Break (level, arguments, sub))
          else if tk_second t = Comma \<and> level = 1
          then rbind (gen sub ASTNode0) (\<lambda>n. Inr (Continue (level, arguments @ [expression_term n], [])))
          else Inr (Continue (level, arguments, sub @ [t])))"

text \<open>\<open><type> <identifier>\<close>, \<open>...\<close>, or nothing.\<close>

definition fix_parameter :: "ast \<Rightarrow> ast outcome" where
  "fix_parameter a =
     (case leafNodes a of
        [] \<Rightarrow> Inr a
      | [ty, name] \<Rightarrow>
          rbind (sole_owner ty) (\<lambda>ty. rbind (attach name) (\<lambda>name.
            Inr (set_leaves [] (set_children (childNodes a @ [set_type Type_Node ty, name]) a))))
      | l # ls \<Rightarrow>
          if ls = [] \<and> ntype l = Argument_List
          then Inr (set_leaves [] (set_children [l] (expression_term a)))
          else token_error (ntoken l) ''Expected type followed by identifier'')"

primrec fix_parameters :: "ast list \<Rightarrow> ast list outcome" where
  "fix_parameters [] = Inr []"
| "fix_parameters (a # as) = rbind (fix_parameter a) (\<lambda>a'. rbind (fix_parameters as) (\<lambda>as'. Inr (a' # as')))"

definition parse_parameters :: "parser \<Rightarrow> token list \<Rightarrow> nat \<Rightarrow> (ast list \<times> nat) outcome" where
  "parse_parameters gen ts i =
     rbind (walk ts never Inr (params_step gen) i (1, [], [])) (\<lambda>((_, arguments, sub), i).
     rbind (gen sub ASTNode0) (\<lambda>n.
     rbind (fix_parameters (arguments @ [expression_term n])) (\<lambda>arguments. Inr (arguments, i))))"

text \<open>The modifiers between the parameters and the body, with the index one before the brace.\<close>

definition parse_modifiers :: "parser \<Rightarrow> token list \<Rightarrow> nat \<Rightarrow> (ast \<times> nat) outcome" where
  "parse_modifiers gen ts i =
     rbind (GATHER_TO_TOKEN ts [] i Left_Brace True True) (\<lambda>(noModifiers, sub, i).
       if noModifiers then Inr (ASTNode1 Compiler_Modifiers, i - 1)
       else rbind (gen sub ASTNode0) (\<lambda>n. Inr (set_type Compiler_Modifiers n, i - 1)))"

definition hide_ast :: "ast \<Rightarrow> ast \<Rightarrow> ast" where
  "hide_ast modifiersNode node =
     (if list_ex (\<lambda>m. tk_first (ntoken m) = ''#hideast'') (childNodes modifiersNode)
      then map_info (showInASTOutput_update (\<lambda>_. False)) node else node)"

text \<open>A \<open>cast\<close> or \<open>create\<close> function is named by its return type.\<close>

definition special_function :: "ast \<Rightarrow> ast \<Rightarrow> ast \<Rightarrow> ast outcome" where
  "special_function identifier secondPart node =
     (let name = tk_first (ntoken identifier)
      in if name = ''cast''
         then case childNodes secondPart of
                c # _ \<Rightarrow> Inr (set_type Compiler_Define_Cast (set_token (ntoken c) node))
              | [] \<Rightarrow> token_error (ntoken secondPart) ''Cast function must have a return type''
         else if name = ''create''
         then case childNodes secondPart of
                c # _ \<Rightarrow> Inr (set_type Compiler_Define_Function (set_token (ntoken c) node))
              | [] \<Rightarrow> token_error (ntoken secondPart) ''Struct initializer function must have a return type''
         else Inr node)"

definition parse_define_function ::
  "parser \<Rightarrow> token list \<Rightarrow> nat \<Rightarrow> ast \<Rightarrow> ast \<Rightarrow> ast \<Rightarrow> branch" where
  "parse_define_function gen ts i identifier node parent =
     rbind (walk ts never Inr to_paren_step i []) (\<lambda>(sub, i).
     rbind (gen sub ASTNode0) (\<lambda>secondPart.
     rbind (parse_parameters gen ts i) (\<lambda>(arguments, i).
     rbind (parse_modifiers gen ts i) (\<lambda>(modifiersNode, i).
     rbind (GATHER_SCOPE_BODY ts 0 i True) (\<lambda>(endedEarly, sub, i).
     rbind (if endedEarly then Inr [] else rbind (gen sub ASTNode0) (\<lambda>b. Inr [scope_body b])) (\<lambda>body.
     let secondPart = set_type Type_Node secondPart;
         node = hide_ast modifiersNode (set_type Compiler_Define_Function node);
         node = set_codegen (if endedEarly then generatePrototype else generateFunction) node;
         node = set_children ([identifier, secondPart, ASTNode2 Arguments arguments, modifiersNode] @ body)
                  (set_token (ntoken identifier) node)
     in rbind (special_function identifier secondPart node) (\<lambda>node.
          Inr (Add_Node node, parent, i))))))))"

text \<open>The identifier loses its type: with two owners that is allowed only when nothing changes.\<close>

definition define_identifier :: "ast \<Rightarrow> ast outcome" where
  "define_identifier l =
     (if shared (info l) \<and> (ntype l \<noteq> Identifier_Node \<or> childNodes l \<noteq> []) then Inl Shared_Node
      else Inr (set_type Identifier_Node l))"

definition parse_define :: "parser \<Rightarrow> token list \<Rightarrow> nat \<Rightarrow> token \<Rightarrow> ast \<Rightarrow> ast \<Rightarrow> branch" where
  "parse_define gen ts i token node parent =
     (if leafNodes parent = [] then token_error token ''Expected a leaf node, but none were found''
      else rbind (define_identifier (last (leafNodes parent))) (\<lambda>identifier.
           rbind (NEXT_TOKEN ts i) (\<lambda>(tt, _).
           if define_scan False (drop i ts) \<or> tk_second tt \<in> set compileTimeDefinable
           then parse_define_block gen ts i tt identifier node (pop_leaf parent)
           else parse_define_function gen ts i identifier node (pop_leaf parent))))"

definition parse_operator_keyword :: "token list \<Rightarrow> nat \<Rightarrow> ast \<Rightarrow> ast \<Rightarrow> branch" where
  "parse_operator_keyword ts i node parent =
     rbind (NEXT_TOKEN ts i) (\<lambda>(t, i).
       let node = set_text (tk_first (ntoken node) @ ''.'' @ tokenAsString (tk_second t))
                    (set_type Operator_Overload_Node node)
       in Inr (Add_Leaf (set_children [ASTNode4 Operator_Type_Node [] t False] node), parent, i))"

section \<open>Parentheses, literals, jumps and scopes\<close>

type_synonym call_state = "bool \<times> int \<times> ast list \<times> token list"

definition call_step :: "parser \<Rightarrow> token \<Rightarrow> call_state \<Rightarrow> call_state progress outcome" where
  "call_step gen t st =
     (case st of (isLeaf, level, insideNodes, sub) \<Rightarrow>
       let level = level_at Left_Paren Right_Paren t level
       in if level = 0 then Inr (Break (isLeaf, level, insideNodes, sub))
          else if line_or_statement_end t then Inr (Break (False, level, insideNodes, sub))
          else if tk_second t = Comma \<and> level = 1
          then rbind (gen sub ASTNode0) (\<lambda>n.
                 Inr (Continue (isLeaf, level, insideNodes @ [expression_term n], [])))
          else Inr (Continue (isLeaf, level, insideNodes, sub @ [t])))"

definition parse_paren :: "parser \<Rightarrow> token list \<Rightarrow> nat \<Rightarrow> ast \<Rightarrow> ast \<Rightarrow> branch" where
  "parse_paren gen ts i node parent =
     (let hasPrevious = (leafNodes parent \<noteq> []);
          previousTerm = (if hasPrevious then last (leafNodes parent) else ASTNode0);
          parent' = (if hasPrevious then pop_leaf parent else parent);
          isFunction = (hasPrevious \<and> ntype previousTerm = Identifier_Node)
      in rbind (walk ts never Inr (call_step gen) i (True, 1, [], [])) (\<lambda>((isLeaf, _, insideNodes, sub), i).
         rbind (gen sub ASTNode0) (\<lambda>n.
         let insideNodes = insideNodes @ [expression_term n];
             node = (if isFunction
                     then set_children [ASTNode2 Arguments insideNodes]
                            (set_token (ntoken previousTerm)
                              (set_codegen generateCallExpression (set_type Function_Call node)))
                     else set_codegen generateExpression (set_type Expression_Paren_Term (insideNodes ! 0)))
         in Inr (if isLeaf then Add_Leaf node else Add_Node node, parent', i))))"

text \<open>The node of \<open>...\<close> goes to the leaves and to the children.\<close>

definition parse_ellipsis :: "nat \<Rightarrow> ast \<Rightarrow> ast \<Rightarrow> branch" where
  "parse_ellipsis i node parent =
     (let node = mark_shared (set_type Argument_List node)
      in Inr (Add_Node node, push_leaf node parent, i))"

definition parse_leaf :: "ASTNodeType \<Rightarrow> codegen_method \<Rightarrow> nat \<Rightarrow> ast \<Rightarrow> ast \<Rightarrow> branch" where
  "parse_leaf ty g i node parent = Inr (Dont_Add, push_leaf (set_codegen g (set_type ty node)) parent, i)"

text \<open>The statements that end at \<open>positionChangeStatement\<close>.\<close>

definition parse_jump ::
  "parser \<Rightarrow> token list \<Rightarrow> nat \<Rightarrow> ASTNodeType \<Rightarrow> codegen_method \<Rightarrow> ast \<Rightarrow> ast \<Rightarrow> branch" where
  "parse_jump gen ts i ty g node parent =
     rbind (GATHER_TO_SEMICOLON ts [] i True False) (\<lambda>(_, sub, i).
     rbind (gen sub ASTNode0) (\<lambda>argumentTerm.
       Inr (Add_Node (set_children [expression_term argumentTerm] (set_codegen g (set_type ty node))), parent, i)))"

text \<open>At a semicolon the leaves become children. The loop that empties the leaves compares its
  counter with the shrinking size, so the first half of them stays.\<close>

function pop_loop :: "nat \<Rightarrow> 'a list \<Rightarrow> 'a list" where
  "pop_loop l ls = (if l < length ls then pop_loop (l + 1) (butlast ls) else ls)"
  by pat_completeness auto

termination
  by (relation "measure (\<lambda>(l, ls). length ls - l)") auto

declare pop_loop.simps [simp del]

primrec attach_all :: "ast list \<Rightarrow> ast list outcome" where
  "attach_all [] = Inr []"
| "attach_all (n # ns) = rbind (attach n) (\<lambda>n. rbind (attach_all ns) (\<lambda>ns. Inr (n # ns)))"

definition parse_semicolon :: "nat \<Rightarrow> ast \<Rightarrow> branch" where
  "parse_semicolon i parent =
     rbind (attach_all (leafNodes parent)) (\<lambda>ls.
     let stay = length (pop_loop 0 ls);
         ls = map mark_shared (take stay ls) @ drop stay ls
     in Inr (Dont_Add, set_leaves (take stay ls) (set_children (childNodes parent @ ls) parent), i))"

text \<open>The index is moved past the closing brace once more than the gathering loop did.\<close>

definition parse_scope :: "parser \<Rightarrow> token list \<Rightarrow> nat \<Rightarrow> ast \<Rightarrow> branch" where
  "parse_scope gen ts i parent =
     rbind (GATHER_SCOPE_BODY ts 1 i False) (\<lambda>(_, sub, i).
     rbind (gen sub ASTNode0) (\<lambda>node. Inr (Add_Node (scope_body node), parent, i + 1)))"

section \<open>The switch\<close>

definition parse_token :: "parser \<Rightarrow> token list \<Rightarrow> nat \<Rightarrow> ast \<Rightarrow> branch" where
  "parse_token gen ts i parent =
     (let token = ts ! i; tokenType = tk_second token; node = base_node token
      in if tokenType = If_Statement then parse_if gen ts i node parent
         else if tokenType = Else_Statement
         then token_error token ''else statement must be preceded by at least one if statement''
         else if tokenType = While_Statement then parse_while gen ts i node parent
         else if tokenType = For_Statement then parse_for gen ts i node parent
         else if tokenType = Struct_Define then parse_struct gen ts i node parent
         else if tokenType = Module_Define then parse_module gen ts i token node parent
         else if tokenType = Colon then parse_colon gen ts i token parent
         else if tokenType \<in> set operatorTokens then parse_operator gen ts i token node parent
         else if tokenType = Equal then parse_equal gen ts i node parent
         else if tokenType = Hash then parse_hash gen ts i node parent
         else if tokenType = Colon_Colon then parse_define gen ts i token node parent
         else if tokenType = Operator_Keyword then parse_operator_keyword ts i node parent
         else if tokenType = Left_Paren then parse_paren gen ts i node parent
         else if tokenType = Right_Brace then token_error token ''Unmatched brace''
         else if tokenType = Dot_Dot_Dot then parse_ellipsis i node parent
         else if tokenType = Integer then parse_leaf Integer_Node generateConstant i node parent
         else if tokenType = Float then parse_leaf Float_Node generateConstant i node parent
         else if tokenType = String then parse_leaf String_Constant_Node generateConstant i node parent
         else if tokenType = Character then parse_leaf Character_Constant_Node generateConstant i node parent
         else if tokenType = True_Literal \<or> tokenType = False_Literal
         then parse_leaf Boolean_Node generateConstant i node parent
         else if tokenType = Comment then Inr (Dont_Add, parent, i)
         else if tokenType = Identifier then parse_leaf Identifier_Node generateVariableExpression i node parent
         else if tokenType = Return_Statement then parse_jump gen ts i Return_Node generateReturn node parent
         else if tokenType = Break_Statement then parse_jump gen ts i Break_Node No_Codegen node parent
         else if tokenType = Continue_Statement then parse_jump gen ts i Continue_Node No_Codegen node parent
         else if tokenType = Goto_Statement then parse_jump gen ts i Goto_Node No_Codegen node parent
         else if tokenType = Semi_Colon then parse_semicolon i parent
         else if tokenType = Left_Brace then parse_scope gen ts i parent
         else Inr (Dont_Add, parent, i))"

definition place :: "placement \<Rightarrow> ast \<Rightarrow> ast" where
  "place pl parent =
     (case pl of Add_Node n \<Rightarrow> push_child n parent | Add_Leaf n \<Rightarrow> push_leaf n parent | Dont_Add \<Rightarrow> parent)"

text \<open>After the loop: a single leaf of a node without children becomes its child.\<close>

definition finish_node :: "ast \<Rightarrow> ast" where
  "finish_node p =
     (if length (leafNodes p) = 1 \<and> childNodes p = []
      then set_leaves [] (set_children [last (leafNodes p)] p) else p)"

section \<open>No branch moves the index back\<close>

lemma parse_semicolon_forward: "parse_semicolon i parent = Inr (pl, p, j) \<Longrightarrow> i \<le> j"
  by (auto simp: parse_semicolon_def Let_def)

lemmas forward_rules = getNext_step GATHER_gathered [THEN gathered_forward] walk_forward

lemma else_chain_cases:
  assumes "else_chain gen ts i prev = Inr (n, j)"
  obtains (No_Else) "n = prev" and "j = i"
  | (Else_If) k sub r e e' where "i < k" and "k < length ts" and "set sub \<subseteq> set ts"
      and "sub \<noteq> [] \<and> tk_second (hd sub) = If_Statement"
      and "gen sub ASTNode0 = Inr r" and "first_child r = Inr e" and "2 < length (childNodes prev)"
      and "else_chain gen ts k e = Inr (e', j)" and "n = set_else e' prev"
  | (Else) sub e where "i \<le> j" and "set sub \<subseteq> set ts" and "gen sub ASTNode0 = Inr e"
      and "2 < length (childNodes prev)"
      and "n = set_else (set_codegen generateScopeBody (set_type Else_Statement_Node e)) prev"
proof -
  note eq = assms [unfolded else_chain.simps [of gen ts i prev]]
  obtain t1 k1 where t1: "getNextNonNothingToken ts i = Inr (t1, k1)"
    using eq by (auto simp: rbind_eq_Inr)
  show thesis
  proof (cases "tk_second t1 = Else_Statement")
    case False
    with eq t1 show thesis by (intro No_Else) simp_all
  next
    case else1: True
    then have i: "i < k1" using getNext_step [OF t1] by simp
    obtain t2 k2 where t2: "getNextNonNothingToken ts k1 = Inr (t2, k2)"
      using eq t1 else1 by (auto simp: rbind_eq_Inr)
    show thesis
    proof (cases "tk_second t2 = If_Statement")
      case True
      then obtain sub1 k3 b sub k4 r e e' where g: "GATHER_PAREN_EXPRESSION ts [t2] 0 k2 True = Inr (sub1, k3)"
          "GATHER_SCOPE_BODY_APPEND ts sub1 0 k3 True = Inr (b, sub, k4)"
        and r: "gen sub ASTNode0 = Inr r" "first_child r = Inr e" "2 < length (childNodes prev)"
          "else_chain gen ts k4 e = Inr (e', j)" "n = set_else e' prev"
        using eq t1 t2 else1 by (auto simp: rbind_eq_Inr)
      note G = GATHER_gathered(3) [OF g(1)] GATHER_gathered(2) [OF g(2)]
      have k2: "k1 < k2 \<and> k2 < length ts \<and> t2 \<in> set ts"
        using getNext_step [OF t2] getNext_found [OF t2] True by simp
      have "i < k4" "k4 < length ts"
        using G [THEN gathered_forward] i k2 by auto
      moreover have "set sub \<subseteq> set ts"
        using G [THEN gathered_subset] k2 by auto
      moreover have "sub \<noteq> [] \<and> tk_second (hd sub) = If_Statement"
        using G True by (auto simp: gathered_def)
      ultimately show thesis using r by (rule Else_If)
    next
      case False
      then obtain b sub e where g: "GATHER_SCOPE_BODY ts 0 k1 True = Inr (b, sub, j)"
        and r: "gen sub ASTNode0 = Inr e" "2 < length (childNodes prev)"
          "n = set_else (set_codegen generateScopeBody (set_type Else_Statement_Node e)) prev"
        using eq t1 t2 else1 by (auto simp: rbind_eq_Inr)
      note G = GATHER_gathered(1) [OF g]
      have "i \<le> j" using gathered_forward [OF G] i by simp
      moreover have "set sub \<subseteq> set ts" using gathered_subset [OF G] by simp
      ultimately show thesis using r by (rule Else)
    qed
  qed
qed

text \<open>An induction along the chain, from its end.\<close>

lemma else_chain_rule [consumes 1, case_names No_Else Else_If Else]:
  assumes "else_chain gen ts i prev = Inr (n, j)"
    and "\<And>i prev. P i prev prev i"
    and "\<And>i k sub r e e' j prev. \<lbrakk>i < k; set sub \<subseteq> set ts; sub \<noteq> [] \<and> tk_second (hd sub) = If_Statement;
          gen sub ASTNode0 = Inr r; first_child r = Inr e;
          2 < length (childNodes prev); P k e e' j\<rbrakk> \<Longrightarrow> P i prev (set_else e' prev) j"
    and "\<And>i j sub e prev. \<lbrakk>i \<le> j; set sub \<subseteq> set ts; gen sub ASTNode0 = Inr e; 2 < length (childNodes prev)\<rbrakk>
          \<Longrightarrow> P i prev (set_else (set_codegen generateScopeBody (set_type Else_Statement_Node e)) prev) j"
  shows "P i prev n j"
  using assms(1)
proof (induction "length ts - i" arbitrary: i prev n rule: less_induct)
  case less
  from less.prems show ?case
  proof (cases rule: else_chain_cases)
    case (Else_If k sub r e e')
    have "P k e e' j" using Else_If(1,2,8) by (intro less.hyps) auto
    with Else_If show ?thesis using assms(3) by blast
  qed (use assms(2,4) in blast)+
qed

lemma else_chain_forward: "else_chain gen ts i prev = Inr (n, j) \<Longrightarrow> i \<le> j"
  by (induction rule: else_chain_rule) auto

lemma condition_and_body_forward: "condition_and_body gen ts i = Inr (c, b, j) \<Longrightarrow> i \<le> j"
  by (auto simp: condition_and_body_def dest!: forward_rules)

lemma parse_modifiers_forward: "parse_modifiers gen ts i = Inr (n, j) \<Longrightarrow> i - 1 \<le> j"
  by (auto simp: parse_modifiers_def split: if_splits dest!: forward_rules)

lemma parse_parameters_forward: "parse_parameters gen ts i = Inr (n, j) \<Longrightarrow> i \<le> j"
  by (auto simp: parse_parameters_def dest!: forward_rules)

text \<open>The two branches of \<open>::\<close> step back after a loop that has moved the index.\<close>

lemma to_paren_moves:
  assumes "walk ts never Inr to_paren_step i sub = Inr (sub', j)" and "i + 1 < length ts"
  shows "i < j"
  using assms(1)
proof (cases rule: walk_cases)
  case (more s)
  then show ?thesis using walk_forward [OF more(4)] by simp
qed (use assms in \<open>auto simp: to_paren_step_def walk_stop split: if_splits\<close>)

lemma head_moves:
  assumes "walk ts never (\<lambda>_. token_error tt msg) head_step i sub = Inr (sub', j)"
  shows "i < j \<or> j + 1 < length ts \<and> tk_second (ts ! (j + 1)) = Left_Brace"
  using assms
proof (cases rule: walk_cases)
  case (more s)
  then show ?thesis using walk_forward [OF more(4)] by simp
qed (auto simp: head_step_def split: if_splits)

lemma to_brace_moves:
  assumes "walk ts never Inr to_brace_step i sub = Inr (sub', j)" and "i + 1 < length ts"
  shows "i < j"
  using assms(1)
proof (cases rule: walk_cases)
  case (more s)
  then show ?thesis using walk_forward [OF more(4)] by simp
qed (use assms in \<open>auto simp: to_brace_step_def split: if_splits\<close>)

lemma parse_define_function_forward:
  assumes "parse_define_function gen ts i identifier node parent = Inr (pl, p, j)" and "i + 1 < length ts"
  shows "i \<le> j"
proof -
  obtain sub k args k2 m k3 early sub2 where
    w: "walk ts never Inr to_paren_step i [] = Inr (sub, k)"
    and a: "parse_parameters gen ts k = Inr (args, k2)" and m: "parse_modifiers gen ts k2 = Inr (m, k3)"
    and g: "GATHER_SCOPE_BODY ts 0 k3 True = Inr (early, sub2, j)"
    using assms(1) by (auto simp: parse_define_function_def Let_def)
  show ?thesis
    using to_paren_moves [OF w assms(2)] parse_parameters_forward [OF a] parse_modifiers_forward [OF m]
      gathered_forward [OF GATHER_SCOPE_BODY_gathered [OF g]] by linarith
qed

lemma parse_define_block_forward:
  assumes "parse_define_block gen ts i tt identifier node parent = Inr (pl, p, j)"
  shows "i \<le> j"
proof -
  obtain sub k sub2 k2 b sub3 where
    h: "walk ts never (\<lambda>_. token_error tt ''Unmatched parenthesis'') head_step i [] = Inr (sub, k)"
    and w: "walk ts never Inr to_brace_step k sub = Inr (sub2, k2)"
    and g: "GATHER_SCOPE_BODY_APPEND ts sub2 0 (k2 - 1) (tk_second tt \<in> set compileTimeDefinable) = Inr (b, sub3, j)"
    using assms by (auto simp: parse_define_block_def Let_def)
  have "i \<le> k" "k \<le> k2" "k2 - 1 \<le> j"
    using walk_forward [OF h] walk_forward [OF w]
      gathered_forward [OF GATHER_SCOPE_BODY_APPEND_gathered [OF g]] by auto
  moreover have "i < k \<or> k < k2"
    using head_moves [OF h] to_brace_moves [OF w] by auto
  ultimately show ?thesis by auto
qed

lemma parse_define_forward:
  assumes "parse_define gen ts i token node parent = Inr (pl, p, j)"
  shows "i \<le> j"
  using assms
  by (auto simp: parse_define_def split: if_splits
    dest!: parse_define_function_forward parse_define_block_forward)

lemma parse_if_forward: "parse_if gen ts i node parent = Inr (pl, p, j) \<Longrightarrow> i \<le> j"
  by (auto simp: parse_if_def Let_def dest!: condition_and_body_forward else_chain_forward)

lemma parse_while_forward: "parse_while gen ts i node parent = Inr (pl, p, j) \<Longrightarrow> i \<le> j"
  by (auto simp: parse_while_def dest!: condition_and_body_forward)

lemma parse_for_forward: "parse_for gen ts i node parent = Inr (pl, p, j) \<Longrightarrow> i \<le> j"
  by (auto simp: parse_for_def dest!: forward_rules)

lemma parse_struct_forward: "parse_struct gen ts i node parent = Inr (pl, p, j) \<Longrightarrow> i \<le> j"
  by (auto simp: parse_struct_def dest!: forward_rules)

lemma parse_module_forward: "parse_module gen ts i t node parent = Inr (pl, p, j) \<Longrightarrow> i \<le> j"
  by (auto simp: parse_module_def dest!: forward_rules)

lemma parse_colon_forward: "parse_colon gen ts i t parent = Inr (pl, p, j) \<Longrightarrow> i \<le> j"
  by (auto simp: parse_colon_def Let_def split: if_splits dest!: walk_forward)

lemma parse_operator_forward: "parse_operator gen ts i t node parent = Inr (pl, p, j) \<Longrightarrow> i \<le> j"
  by (auto simp: parse_operator_def Let_def dest!: walk_forward)

lemma parse_equal_forward: "parse_equal gen ts i node parent = Inr (pl, p, j) \<Longrightarrow> i \<le> j"
  by (auto simp: parse_equal_def dest!: forward_rules)

lemma parse_hash_forward: "parse_hash gen ts i node parent = Inr (pl, p, j) \<Longrightarrow> i \<le> j"
  by (auto simp: parse_hash_def Let_def dest!: forward_rules)

lemma parse_operator_keyword_forward: "parse_operator_keyword ts i node parent = Inr (pl, p, j) \<Longrightarrow> i \<le> j"
  by (auto simp: parse_operator_keyword_def Let_def)

lemma parse_paren_forward: "parse_paren gen ts i node parent = Inr (pl, p, j) \<Longrightarrow> i \<le> j"
  by (auto simp: parse_paren_def Let_def dest!: walk_forward)

lemma parse_leaf_forward: "parse_leaf ty g i node parent = Inr (pl, p, j) \<Longrightarrow> i \<le> j"
  by (simp add: parse_leaf_def)

lemma parse_ellipsis_forward: "parse_ellipsis i node parent = Inr (pl, p, j) \<Longrightarrow> i \<le> j"
  by (simp add: parse_ellipsis_def Let_def)

lemma parse_jump_forward: "parse_jump gen ts i ty g node parent = Inr (pl, p, j) \<Longrightarrow> i \<le> j"
  by (auto simp: parse_jump_def dest!: forward_rules)

lemma parse_scope_forward: "parse_scope gen ts i parent = Inr (pl, p, j) \<Longrightarrow> i \<le> j"
  by (auto simp: parse_scope_def dest!: forward_rules)

lemmas branch_forward = parse_if_forward parse_while_forward parse_for_forward parse_struct_forward
  parse_module_forward parse_colon_forward parse_operator_forward parse_equal_forward parse_hash_forward
  parse_define_forward parse_operator_keyword_forward parse_paren_forward parse_leaf_forward
  parse_ellipsis_forward parse_jump_forward parse_semicolon_forward parse_scope_forward

lemma if_EqE:
  assumes "(if c then a else b) = x"
  obtains (True) "c" and "a = x" | (False) "\<not> c" and "b = x"
  using assms by (cases c) auto

text \<open>The branches that return, for case analyses of the switch.\<close>

lemma parse_token_cases:
  assumes "parse_token gen ts i parent = Inr x"
  obtains (If) "parse_if gen ts i (base_node (ts ! i)) parent = Inr x"
  | (While) "parse_while gen ts i (base_node (ts ! i)) parent = Inr x"
  | (For) "parse_for gen ts i (base_node (ts ! i)) parent = Inr x"
  | (Struct) "parse_struct gen ts i (base_node (ts ! i)) parent = Inr x"
  | (Module) "parse_module gen ts i (ts ! i) (base_node (ts ! i)) parent = Inr x"
  | (Colon) "parse_colon gen ts i (ts ! i) parent = Inr x"
  | (Operator) "parse_operator gen ts i (ts ! i) (base_node (ts ! i)) parent = Inr x"
  | (Equal) "parse_equal gen ts i (base_node (ts ! i)) parent = Inr x"
  | (Hash) "parse_hash gen ts i (base_node (ts ! i)) parent = Inr x"
  | (Define) "parse_define gen ts i (ts ! i) (base_node (ts ! i)) parent = Inr x"
  | (Operator_Keyword) "parse_operator_keyword ts i (base_node (ts ! i)) parent = Inr x"
  | (Paren) "parse_paren gen ts i (base_node (ts ! i)) parent = Inr x"
  | (Ellipsis) "parse_ellipsis i (base_node (ts ! i)) parent = Inr x"
  | (Leaf) ty g where "parse_leaf ty g i (base_node (ts ! i)) parent = Inr x"
      and "ty \<noteq> String_Node" and "g = generateConstant \<or> g = generateVariableExpression"
  | (Jump) ty g where "parse_jump gen ts i ty g (base_node (ts ! i)) parent = Inr x"
      and "ty \<noteq> String_Node" and "g = generateReturn \<or> g = No_Codegen"
  | (Semicolon) "parse_semicolon i parent = Inr x"
  | (Scope) "parse_scope gen ts i parent = Inr x"
  | (Skip) "x = (Dont_Add, parent, i)"
  using assms unfolding parse_token_def Let_def
  apply (elim if_EqE)
  subgoal by (erule If)
  subgoal by (erule notE [OF token_error_not_Inr(1)])
  subgoal by (erule While)
  subgoal by (erule For)
  subgoal by (erule Struct)
  subgoal by (erule Module)
  subgoal by (erule Colon)
  subgoal by (erule Operator)
  subgoal by (erule Equal)
  subgoal by (erule Hash)
  subgoal by (erule Define)
  subgoal by (erule Operator_Keyword)
  subgoal by (erule Paren)
  subgoal by (erule notE [OF token_error_not_Inr(1)])
  subgoal by (erule Ellipsis)
  subgoal by (erule Leaf; simp (no_asm))
  subgoal by (erule Leaf; simp (no_asm))
  subgoal by (erule Leaf; simp (no_asm))
  subgoal by (erule Leaf; simp (no_asm))
  subgoal by (erule Leaf; simp (no_asm))
  subgoal by (drule sum.inject(2) [THEN iffD1]) (rule Skip, erule sym)
  subgoal by (erule Leaf; simp (no_asm))
  subgoal by (erule Jump; simp (no_asm))
  subgoal by (erule Jump; simp (no_asm))
  subgoal by (erule Jump; simp (no_asm))
  subgoal by (erule Jump; simp (no_asm))
  subgoal by (erule Semicolon)
  subgoal by (erule Scope)
  subgoal by (drule sum.inject(2) [THEN iffD1]) (rule Skip, erule sym)
  done

lemma parse_token_forward: "parse_token gen ts i parent = Inr (pl, p, j) \<Longrightarrow> i \<le> j"
  by (erule parse_token_cases) (auto dest: branch_forward)

end
