(* ===== verification/Parser.thy ===== *)
theory Parser
  imports Parser_Cases Tokenizer Comments
begin

text \<open>
  \<open>generateAST\<close> (\<^verbatim>\<open>src/src/parser.cpp\<close>): the loop over the tokens and the recursion, whose depth the
  code limits with \<open>MAX_AST_DEPTH\<close>. The recursion is on the levels left, so the depth of a call is
  \<open>MAX_AST_DEPTH\<close> minus its first argument. The results: what every node of a tree has, whatever the
  tokens were.
\<close>

section \<open>The loop\<close>

function parse_loop :: "parser \<Rightarrow> token list \<Rightarrow> nat \<Rightarrow> ast \<Rightarrow> ast outcome" where
  "parse_loop gen ts i parent =
     (if i < length ts
      then rbind (parse_token gen ts i parent) (\<lambda>(pl, parent', j). parse_loop gen ts (j + 1) (place pl parent'))
      else Inr (finish_node parent))"
  by pat_completeness auto

termination
  by (relation "measure (\<lambda>(_, ts, i, _). length ts - i)") (auto dest: parse_token_forward)

declare parse_loop.simps [simp del]

section \<open>generateAST\<close>

definition MAX_AST_DEPTH :: nat where
  "MAX_AST_DEPTH = 20"

definition global_token :: token where
  "global_token = tokenDataType6 ''global'' Nothing 0 0 Null Null"

fun generateAST :: "nat \<Rightarrow> token list \<Rightarrow> ast \<Rightarrow> ast outcome" where
  "generateAST 0 ts parent = Inl (Exited ''Error: Max AST Depth of 20 Reached'')"
| "generateAST (Suc r) ts parent =
     parse_loop (generateAST r) ts 0
       (if Suc r = MAX_AST_DEPTH then set_type Scope_Body (set_token global_token parent) else parent)"

definition parse_program :: "token list \<Rightarrow> ast outcome" where
  "parse_program ts = generateAST MAX_AST_DEPTH ts ASTNode0"

text \<open>The pipeline of \<open>main\<close> up to the tree of the main file.\<close>

definition parse_file :: "string \<Rightarrow> string \<Rightarrow> lexer \<Rightarrow> ast outcome" where
  "parse_file raw fileName g = rbind (prepare_tokens (tokens (tokenize raw [] fileName g))) parse_program"

text \<open>The tree without positions: types, texts, children.\<close>

datatype tree = Tree ASTNodeType string "tree list"

fun outline :: "ast \<Rightarrow> tree" where
  "outline (Node a cs ls) = Tree (nodeType a) (tk_first (node_token a)) (map outline cs)"

end
