(* ===== verification/Well_Formed.thy ===== *)
theory Well_Formed
  imports Parser
begin

text \<open>
  What every node built by \<open>generateAST\<close> has, for any token vector: enough children for the code
  generation method stored in it, the four leading parts of a function definition in their places, a
  token that stems from the vector, and never the type \<open>String_Node\<close>. The contract of the recursive
  call is the locale \<open>subparser\<close>; the branches of the switch are treated once under it, and
  \<open>generateAST\<close> is shown to satisfy it at every depth.
\<close>

section \<open>Well-formed trees\<close>

text \<open>The least number of children that a generation method indexes without a test of its own.\<close>

definition needs :: "codegen_method \<Rightarrow> nat" where
  "needs g =
     (if g = generateIf \<or> g = generateFor then 3
      else if g = generateExpressionStatement \<or> g = generateAccessOperation then 2
      else if g = generateReturn \<or> g = generateCallExpression \<or> g = generateMemberAccess
           \<or> g = generateUnaryExpression \<or> g = generateBinaryExpression then 1
      else if g = generateCast \<or> g = generateTypeInstance then 2
      else if g = generatePrototype then 4
      else if g = generateFunction then 5
      else 0)"

definition definition_parts :: "ASTNodeType list" where
  "definition_parts = [Identifier_Node, Type_Node, Arguments, Compiler_Modifiers]"

definition node_ok :: "(token \<Rightarrow> bool) \<Rightarrow> ninfo \<Rightarrow> ast list \<Rightarrow> bool" where
  "node_ok T a cs \<longleftrightarrow> needs (codegen a) \<le> length cs
     \<and> (codegen a = generateFunction \<or> codegen a = generatePrototype \<longrightarrow>
          map ntype (take 4 cs) = definition_parts)
     \<and> nodeType a \<noteq> String_Node \<and> T (node_token a)"

text \<open>The condition at a node and at everything below it, leaves included.\<close>

fun tree_ok :: "(token \<Rightarrow> bool) \<Rightarrow> ast \<Rightarrow> bool" where
  "tree_ok T (Node a cs ls) \<longleftrightarrow> node_ok T a cs \<and> list_all (tree_ok T) cs \<and> list_all (tree_ok T) ls"

lemma tree_ok_iff:
  "tree_ok T n \<longleftrightarrow> node_ok T (info n) (childNodes n) \<and> (\<forall>c \<in> set (childNodes n). tree_ok T c)
     \<and> (\<forall>l \<in> set (leafNodes n). tree_ok T l)"
  by (cases n) (auto simp: list_all_iff)

declare tree_ok.simps [simp del]

lemma tree_ok_child: "tree_ok T n \<Longrightarrow> c \<in> set (childNodes n) \<Longrightarrow> tree_ok T c"
  by (simp add: tree_ok_iff [of T n])

lemma tree_ok_leaf: "tree_ok T n \<Longrightarrow> l \<in> set (leafNodes n) \<Longrightarrow> tree_ok T l"
  by (simp add: tree_ok_iff [of T n])

lemma tree_ok_nodes: "tree_ok T n \<Longrightarrow> m \<in> set (nodes n) \<Longrightarrow> tree_ok T m"
proof (induction n rule: ast_child_induct)
  case (Node n)
  then show ?case using nodes_iff [of m n] tree_ok_child by blast
qed

named_theorems tree_intros

lemma ok_set_type [tree_intros]: "tree_ok T n \<Longrightarrow> ty \<noteq> String_Node \<Longrightarrow> tree_ok T (set_type ty n)"
  by (simp add: tree_ok_iff [of T n] tree_ok_iff [of T "set_type ty n"] node_ok_def)

lemma ok_set_token: "tree_ok T n \<Longrightarrow> T t \<Longrightarrow> tree_ok T (set_token t n)"
  by (simp add: tree_ok_iff [of T n] tree_ok_iff [of T "set_token t n"] node_ok_def)

lemma ok_set_codegen:
  "tree_ok T n \<Longrightarrow> needs g \<le> length (childNodes n) \<Longrightarrow> g \<noteq> generateFunction \<Longrightarrow> g \<noteq> generatePrototype
   \<Longrightarrow> tree_ok T (set_codegen g n)"
  by (simp add: tree_ok_iff [of T n] tree_ok_iff [of T "set_codegen g n"] node_ok_def)

lemma ok_set_codegen_free [tree_intros]:
  "tree_ok T n \<Longrightarrow> g \<in> {generateScopeBody, generateExpression, generateIterator, generateStruct, generateNothing,
     generateConstant, generateVariableExpression, generatePipePlaceholder, No_Codegen}
   \<Longrightarrow> tree_ok T (set_codegen g n)"
  by (erule ok_set_codegen) (auto simp: needs_def)

lemma node_ok_append: "node_ok T a cs \<Longrightarrow> node_ok T a (cs @ ds)"
  by (auto simp: node_ok_def definition_parts_def needs_def)

lemma ok_push_child [tree_intros]: "tree_ok T n \<Longrightarrow> tree_ok T c \<Longrightarrow> tree_ok T (push_child c n)"
  using node_ok_append [of T "info n" "childNodes n" "[c]"]
  by (auto simp: tree_ok_iff [of T n] tree_ok_iff [of T "push_child c n"])

lemma ok_push_leaf [tree_intros]: "tree_ok T n \<Longrightarrow> tree_ok T c \<Longrightarrow> tree_ok T (push_leaf c n)"
  by (auto simp: tree_ok_iff [of T n] tree_ok_iff [of T "push_leaf c n"])

lemma ok_set_leaves [tree_intros]:
  "tree_ok T n \<Longrightarrow> list_all (tree_ok T) ls \<Longrightarrow> tree_ok T (set_leaves ls n)"
  by (auto simp: tree_ok_iff [of T n] tree_ok_iff [of T "set_leaves ls n"] list_all_iff)

lemma ok_pop_leaf [tree_intros]: "tree_ok T n \<Longrightarrow> tree_ok T (pop_leaf n)"
  unfolding pop_leaf_def
  by (rule ok_set_leaves) (auto simp: list_all_iff dest: in_set_butlastD tree_ok_leaf)

lemma ok_map_flag:
  "tree_ok T n \<Longrightarrow> codegen (f (info n)) = codegen (info n) \<Longrightarrow> nodeType (f (info n)) = ntype n
   \<Longrightarrow> node_token (f (info n)) = ntoken n \<Longrightarrow> tree_ok T (map_info f n)"
  by (simp add: tree_ok_iff [of T n] tree_ok_iff [of T "map_info f n"] node_ok_def)

lemma ok_mark_shared [tree_intros]: "tree_ok T n \<Longrightarrow> tree_ok T (mark_shared n)"
  unfolding mark_shared_def by (erule ok_map_flag) simp_all

lemma ok_hide_ast [tree_intros]: "tree_ok T n \<Longrightarrow> tree_ok T (hide_ast m n)"
  unfolding hide_ast_def by (auto intro: ok_map_flag)

lemma ok_extern: "tree_ok T n \<Longrightarrow> tree_ok T (setChildrenAsExtern n)"
proof (induction n rule: setChildrenAsExtern.induct)
  case (1 a cs ls)
  have "ntype (setChildrenAsExtern c) = ntype c" for c by (cases c) simp
  then have "map ntype (take 4 (map setChildrenAsExtern cs)) = map ntype (take 4 cs)"
    by (simp add: take_map)
  with 1 show ?case by (auto simp: tree_ok.simps list_all_iff node_ok_def)
qed

lemma ok_scope_body [tree_intros]: "tree_ok T n \<Longrightarrow> tree_ok T (scope_body n)"
  unfolding scope_body_def by (intro tree_intros) simp_all

lemma ok_expression_term [tree_intros]: "tree_ok T n \<Longrightarrow> tree_ok T (expression_term n)"
  unfolding expression_term_def by (intro tree_intros) simp_all

lemma ok_first_child: "tree_ok T n \<Longrightarrow> first_child n = Inr c \<Longrightarrow> tree_ok T c"
  by (auto simp: first_child_def intro: tree_ok_child)

text \<open>A node given its children.\<close>

lemma ok_set_children:
  assumes "node_ok T (info n) cs" and "list_all (tree_ok T) cs" and "list_all (tree_ok T) (leafNodes n)"
  shows "tree_ok T (set_children cs n)"
  using assms by (auto simp: tree_ok_iff [of T "set_children cs n"] list_all_iff)

lemma ok_attach: "attach n = Inr m \<Longrightarrow> m = n"
  by (simp add: attach_def split: if_splits)

lemma ok_sole_owner: "sole_owner n = Inr m \<Longrightarrow> m = n"
  by (simp add: sole_owner_def split: if_splits)

lemma ok_attach_all: "attach_all ns = Inr ms \<Longrightarrow> ms = ns"
  by (induction ns arbitrary: ms) (auto dest: ok_attach)

lemmas ownership = ok_attach ok_sole_owner ok_attach_all

lemma ok_finish [tree_intros]: "tree_ok T n \<Longrightarrow> tree_ok T (finish_node n)"
  unfolding finish_node_def
  using node_ok_append [of T "info n" "[]" "[last (leafNodes n)]"] tree_ok_iff [of T n]
  by (cases "leafNodes n") (auto intro!: ok_set_leaves ok_set_children)

lemma ok_place:
  "tree_ok T p \<Longrightarrow> (\<forall>n. pl = Add_Node n \<or> pl = Add_Leaf n \<longrightarrow> tree_ok T n) \<Longrightarrow> tree_ok T (place pl p)"
  by (cases pl) (auto simp: place_def intro: tree_intros)

section \<open>The contract of the recursive call\<close>

text \<open>\<open>T\<close> is any property of tokens that does not depend on their text and holds of the tokens the
  parser makes itself.\<close>

locale token_property =
  fixes T :: "token \<Rightarrow> bool"
  assumes T_default: "T tokenDataType0"
    and T_global: "T global_token"
    and T_text: "T t \<Longrightarrow> T (t\<lparr>tk_first := str\<rparr>)"
begin

lemma ok_default: "ty \<noteq> String_Node \<Longrightarrow> tree_ok T (ASTNode1 ty)" "tree_ok T ASTNode0"
  using T_default
  by (simp_all add: tree_ok.simps node_ok_def needs_def info0_def ASTNode1_def ASTNode0_def)

lemma ok_base_node: "T t \<Longrightarrow> tree_ok T (base_node t)"
  by (simp add: base_node_def tree_ok.simps node_ok_def needs_def info0_def)

end

text \<open>What a branch hands to the code after the switch.\<close>

definition placed_ok :: "(token \<Rightarrow> bool) \<Rightarrow> placement \<Rightarrow> bool" where
  "placed_ok T pl \<longleftrightarrow> (\<forall>n. pl = Add_Node n \<or> pl = Add_Leaf n \<longrightarrow> tree_ok T n)"

lemma placed_ok_simps [simp]:
  "placed_ok T (Add_Node n) \<longleftrightarrow> tree_ok T n" "placed_ok T (Add_Leaf n) \<longleftrightarrow> tree_ok T n"
  "placed_ok T Dont_Add"
  by (auto simp: placed_ok_def)

locale subparser = token_property T for T +
  fixes gen :: parser
  assumes gen_ok: "gen ts p = Inr n \<Longrightarrow> list_all T ts \<Longrightarrow> tree_ok T p \<Longrightarrow> tree_ok T n"
    and gen_if: "gen ts ASTNode0 = Inr n \<Longrightarrow> ts \<noteq> [] \<Longrightarrow> tk_second (hd ts) = If_Statement \<Longrightarrow>
      list_all T ts \<Longrightarrow> \<exists>c cs. childNodes n = c # cs \<and> codegen (info c) = generateIf"
begin

lemma gen_new: "gen ts ASTNode0 = Inr n \<Longrightarrow> list_all T ts \<Longrightarrow> tree_ok T n"
  by (erule gen_ok) (simp_all add: ok_default)

lemma gen_first: "gen ts ASTNode0 = Inr r \<Longrightarrow> first_child r = Inr n \<Longrightarrow> list_all T ts \<Longrightarrow> tree_ok T n"
  by (blast intro: ok_first_child gen_new)

lemma gathered_T: "gathered ts i sub sub' j \<Longrightarrow> list_all T ts \<Longrightarrow> list_all T sub \<Longrightarrow> list_all T sub'"
  using gathered_subset by (fastforce simp: list_all_iff)

lemma condition_and_body_ok:
  "condition_and_body gen ts i = Inr (c, b, j) \<Longrightarrow> list_all T ts \<Longrightarrow> tree_ok T c \<and> tree_ok T b"
  unfolding condition_and_body_def
  by (auto intro!: tree_intros dest: gen_new dest!: GATHER_gathered gathered_T)

lemma set_else_ok:
  assumes "tree_ok T prev" and "tree_ok T e" and "2 < length (childNodes prev)" and "codegen (info prev) = generateIf"
  shows "tree_ok T (set_else e prev)"
proof -
  have "set ((childNodes prev)[2 := e]) \<subseteq> insert e (set (childNodes prev))"
    by (rule set_update_subset_insert)
  with assms show ?thesis
    unfolding set_else_def
    by (intro ok_set_children) (auto simp: tree_ok_iff [of T prev] node_ok_def list_all_iff)
qed

lemma else_chain_ok:
  assumes "else_chain gen ts i prev = Inr (n, j)" and "list_all T ts" and "tree_ok T prev"
    and "codegen (info prev) = generateIf"
  shows "tree_ok T n \<and> info n = info prev"
  using assms(1,3,4)
proof (induction rule: else_chain_rule)
  case (No_Else i prev)
  then show ?case by simp
next
  case (Else_If i k sub r e e' j prev)
  have sub: "list_all T sub" using Else_If(2) assms(2) by (auto simp: list_all_iff)
  obtain c cs where "childNodes r = c # cs" "codegen (info c) = generateIf"
    using gen_if [OF Else_If(4)] Else_If(3) sub by auto
  then have "codegen (info e) = generateIf"
    using Else_If(5) by (simp add: first_child_def vec_at_def)
  moreover have "tree_ok T e" using gen_first [OF Else_If(4,5) sub] .
  ultimately have "tree_ok T e'" using Else_If(7) by blast
  with Else_If show ?case by (simp add: set_else_ok) (simp add: set_else_def)
next
  case (Else i j sub e prev)
  have "list_all T sub" using Else(2) assms(2) by (auto simp: list_all_iff)
  with Else have "tree_ok T (set_codegen generateScopeBody (set_type Else_Statement_Node e))"
    by (intro tree_intros) (simp_all add: gen_new)
  with Else show ?case by (simp add: set_else_ok) (simp add: set_else_def)
qed

lemma ok_made:
  assumes "node_ok T (info n) cs" and "list_all (tree_ok T) cs" and "leafNodes n = []"
  shows "tree_ok T (set_children cs n)"
  using assms by (intro ok_set_children) simp_all

lemma base_sel [simp]:
  "info (base_node t) = info0\<lparr>node_token := t, node_line := tk_lineNumber t\<rparr>"
  "childNodes (base_node t) = []" "leafNodes (base_node t) = []"
  by (simp_all add: base_node_def)

lemmas node_facts = node_ok_def needs_def info0_def

lemma blank_else_ok: "tree_ok T (set_codegen generateScopeBody (ASTNode1 Else_Statement_Node))"
  by (intro tree_intros ok_default) simp_all

lemma parse_if_ok:
  assumes "parse_if gen ts i (base_node t) parent = Inr (pl, p, j)"
    and "list_all T ts" and "T t" and "tree_ok T parent"
  shows "placed_ok T pl \<and> tree_ok T p"
    and "\<exists>n. pl = Add_Node n \<and> codegen (info n) = generateIf"
proof -
  obtain c b k n where cb: "condition_and_body gen ts i = Inr (c, b, k)"
    and e: "else_chain gen ts k (set_children [c, b, set_codegen generateScopeBody (ASTNode1 Else_Statement_Node)]
       (set_codegen generateIf (set_type If_Statement_Node (base_node t)))) = Inr (n, j)"
    and pl: "pl = Add_Node n" "p = parent"
    using assms(1) by (auto simp: parse_if_def Let_def)
  have "tree_ok T (set_children [c, b, set_codegen generateScopeBody (ASTNode1 Else_Statement_Node)]
       (set_codegen generateIf (set_type If_Statement_Node (base_node t))))"
    using condition_and_body_ok [OF cb assms(2)] assms(3) blank_else_ok
    by (intro ok_made) (simp_all add: node_facts)
  from else_chain_ok [OF e assms(2) this] pl assms(4)
  show "placed_ok T pl \<and> tree_ok T p" "\<exists>n. pl = Add_Node n \<and> codegen (info n) = generateIf"
    by simp_all
qed

lemma parse_while_ok:
  "parse_while gen ts i (base_node t) parent = Inr (pl, p, j) \<Longrightarrow> list_all T ts \<Longrightarrow> T t \<Longrightarrow> tree_ok T parent
   \<Longrightarrow> placed_ok T pl \<and> tree_ok T p"
  unfolding parse_while_def
  by (auto intro!: ok_made simp: node_facts dest!: condition_and_body_ok)

lemma for_walk_ok:
  assumes "walk ts never Inr (for_step gen) i (1, ASTNode0, []) = Inr ((l, it, sub), j)" and "list_all T ts"
  shows "tree_ok T it \<and> list_all T sub"
proof -
  let ?Q = "\<lambda>(l, it, sub). tree_ok T it \<and> list_all T sub"
  have "?Q (l, it, sub)"
  proof (rule walk_invariant [OF assms(1), of ?Q])
    show "?Q (1, ASTNode0, [])" by (simp add: ok_default)
    fix t s r
    assume "t \<in> set ts" "?Q s" "for_step gen t s = Inr r"
    then show "?Q (state_of r)"
      using assms(2) by (auto simp: for_step_def Let_def list_all_iff split: prod.splits if_splits
        intro!: tree_intros dest: gen_new)
  qed auto
  then show ?thesis by simp
qed

lemma parse_for_ok:
  assumes "parse_for gen ts i (base_node t) parent = Inr (pl, p, j)"
    and "list_all T ts" and "T t" and "tree_ok T parent"
  shows "placed_ok T pl \<and> tree_ok T p"
proof -
  obtain l it sub k r range early sub2 k2 body where
    w: "walk ts never Inr (for_step gen) (i + 1) (1, ASTNode0, []) = Inr ((l, it, sub), k)"
    and r: "gen sub ASTNode0 = Inr r" "first_child r = Inr range"
    and g: "GATHER_SCOPE_BODY ts 0 k True = Inr (early, sub2, k2)" and b: "gen sub2 ASTNode0 = Inr body"
    and pl: "pl = Add_Node (set_children [it, set_type Range_Node range, scope_body body]
              (set_codegen generateFor (set_type For_Statement_Node (base_node t))))" "p = parent"
    using assms(1) by (auto simp: parse_for_def)
  have "tree_ok T it" "tree_ok T range" "tree_ok T body"
    using for_walk_ok [OF w assms(2)] gen_first [OF r] gen_new [OF b]
      gathered_T [OF GATHER_SCOPE_BODY_gathered [OF g] assms(2)] by auto
  then show ?thesis
    using assms(3,4) pl
    by (auto intro!: ok_made tree_intros simp: node_facts)
qed

lemma parse_struct_ok:
  "parse_struct gen ts i (base_node t) parent = Inr (pl, p, j) \<Longrightarrow> list_all T ts \<Longrightarrow> T t \<Longrightarrow> tree_ok T parent
   \<Longrightarrow> placed_ok T pl \<and> tree_ok T p"
  unfolding parse_struct_def
  by (auto intro!: tree_intros ok_base_node dest: gen_new dest!: GATHER_gathered gathered_T)

lemma parse_module_ok:
  "parse_module gen ts i t (base_node t) parent = Inr (pl, p, j) \<Longrightarrow> list_all T ts \<Longrightarrow> T t \<Longrightarrow> tree_ok T parent
   \<Longrightarrow> placed_ok T pl \<and> tree_ok T p"
  unfolding parse_module_def
  by (auto intro!: ok_set_codegen_free ok_set_token ok_set_type dest!: GATHER_gathered gathered_T)
    (erule gen_ok, simp_all add: ok_base_node)

text \<open>The loops that only collect tokens.\<close>

lemma collect_T:
  assumes "walk ts ends run_out step i st = Inr (st', j)" and "list_all T ts" and "list_all T (f st)"
    and "\<And>t s r. step t s = Inr r \<Longrightarrow> f (state_of r) = f s \<or> f (state_of r) = f s @ [t]"
    and "\<And>s s'. run_out s = Inr s' \<Longrightarrow> f s' = f s"
  shows "list_all T (f st')"
  by (rule walk_invariant [OF assms(1), of "\<lambda>s. list_all T (f s)"])
    (use assms in \<open>fastforce simp: list_all_iff\<close>)+

lemma colon_T:
  "walk ts never Inr colon_step i (1, []) = Inr ((l, sub), j) \<Longrightarrow> list_all T ts \<Longrightarrow> list_all T sub"
  using collect_T [where f = snd and step = colon_step and st = "(1, [])" and st' = "(l, sub)"]
  by (fastforce simp: colon_step_def Let_def split: if_splits)

lemma op_T:
  "walk ts never Inr (if b then access_step t else op_step) i (True, 1, 1, 1, []) =
     Inr ((isLeaf, l1, l2, l3, sub), j) \<Longrightarrow> list_all T ts \<Longrightarrow> list_all T sub"
  using collect_T [where f = "\<lambda>(_, _, _, _, sub). sub" and step = "if b then access_step t else op_step"
      and st = "(True, 1, 1, 1, [])" and st' = "(isLeaf, l1, l2, l3, sub)"]
  by (fastforce simp: op_step_def access_step_def Let_def split: if_splits)

lemma parse_colon_ok:
  assumes "parse_colon gen ts i t parent = Inr (pl, p, j)" and "list_all T ts" and "tree_ok T parent"
  shows "placed_ok T pl \<and> tree_ok T p"
proof -
  obtain l sub r ty where ne: "leafNodes parent \<noteq> []"
    and w: "walk ts never Inr colon_step i (1, []) = Inr ((l, sub), j)"
    and r: "gen sub ASTNode0 = Inr r" "first_child r = Inr ty"
    and pl: "pl = Add_Leaf (push_child (set_type Type_Node ty) (set_type Identifier_Node (last (leafNodes parent))))"
      "p = pop_leaf parent"
    using assms(1) by (auto simp: parse_colon_def Let_def split: if_splits dest!: ok_sole_owner)
  have "tree_ok T (last (leafNodes parent))" "tree_ok T ty"
    using gen_first [OF r colon_T [OF w assms(2)]] tree_ok_leaf [OF assms(3)] ne by auto
  with pl assms(3) show ?thesis by (auto intro!: tree_intros)
qed

lemma operator_type_ok: "unary_type u ty (operator_type ty) \<noteq> String_Node"
  by (auto simp: unary_type_def operator_type_def operatorDefaultNodeType_def)

lemma parse_operator_ok:
  assumes "parse_operator gen ts i t (base_node t) parent = Inr (pl, p, j)"
    and "list_all T ts" and "T t" and "tree_ok T parent"
  shows "placed_ok T pl \<and> tree_ok T p"
proof -
  define u where "u \<longleftrightarrow> leafNodes parent = []"
  define ty where "ty = unary_type u (tk_second t) (operator_type (tk_second t))"
  define node where "node = set_codegen (operator_codegen u ty) (set_type ty (base_node t))"
  obtain first isLeaf l1 l2 l3 sub n where
    f: "(if u then Inr ASTNode0 else attach (last (leafNodes parent))) = Inr first"
    and w: "walk ts never Inr (if \<not> u \<and> operator_type (tk_second t) = Access_Operation then access_step t else op_step)
        i (True, 1, 1, 1, []) = Inr ((isLeaf, l1, l2, l3, sub), j)"
    and n: "(if sub = [] then if \<not> u \<and> tk_second t = Star then Inr (set_children [first] (set_type Pointer_Node node))
        else if u \<and> tk_second t = Percent
        then Inr (set_codegen generatePipePlaceholder (set_type Pipe_Placeholder node))
        else token_error t ''Operator expected right argument''
      else rbind (rbind (gen sub ASTNode0) first_child) (\<lambda>secondTerm.
        Inr (set_children (if u then [secondTerm] else [first, secondTerm]) node))) = Inr n"
    and pl: "pl = (if isLeaf then Add_Leaf n else Add_Node n)" "p = (if u then parent else pop_leaf parent)"
    using assms(1) unfolding parse_operator_def Let_def u_def ty_def node_def by (auto simp: rbind_eq_Inr)
  have first: "tree_ok T first"
    using f ok_default tree_ok_leaf [OF assms(4)] u_def by (auto split: if_splits dest!: ok_attach)
  have sub: "list_all T sub" using op_T [OF w assms(2)] .
  have "tree_ok T n"
  proof (cases "sub = []")
    case True
    consider "\<not> u" "tk_second t = Star" "n = set_children [first] (set_type Pointer_Node node)"
      | "u" "tk_second t = Percent" "n = set_codegen generatePipePlaceholder (set_type Pipe_Placeholder node)"
      using n True by (auto split: if_splits)
    then show ?thesis
    proof cases
      case 1
      then have "needs (codegen (info node)) \<le> 1"
        by (simp add: node_def ty_def unary_type_def operator_type_def operatorDefaultNodeType_def
          operator_codegen_def needs_def)
      then show ?thesis
        using 1 first assms(3)
        by (auto intro!: ok_made simp: node_ok_def node_def operator_codegen_def)
    next
      case 2
      have "tree_ok T (set_type Pipe_Placeholder (base_node t))"
        by (intro tree_intros ok_base_node assms(3)) simp
      have "n = set_codegen generatePipePlaceholder (set_type Pipe_Placeholder (base_node t))"
        using 2 by (simp add: node_def set_codegen_def set_type_def map_info_def)
      with \<open>tree_ok T (set_type Pipe_Placeholder (base_node t))\<close> show ?thesis
        by (auto intro!: ok_set_codegen_free)
    qed
  next
    case False
    then obtain r second where r: "gen sub ASTNode0 = Inr r" "first_child r = Inr second"
      and ne: "n = set_children (if u then [second] else [first, second]) node"
      using n by (auto split: if_splits)
    have "needs (codegen (info node)) \<le> (if u then 1 else 2)"
      by (simp add: node_def operator_codegen_def needs_def)
    then show ?thesis
      using ne first gen_first [OF r sub] assms(3) operator_type_ok [of u "tk_second t"]
      by (auto intro!: ok_made simp: node_ok_def node_def operator_codegen_def ty_def info0_def)
  qed
  with pl assms(4) show ?thesis by (auto intro: tree_intros)
qed

lemma parse_equal_ok:
  assumes "parse_equal gen ts i (base_node t) parent = Inr (pl, p, j)"
    and "list_all T ts" and "T t" and "tree_ok T parent"
  shows "placed_ok T pl \<and> tree_ok T p"
proof -
  obtain early sub second where ne: "leafNodes parent \<noteq> []"
    and g: "GATHER_TO_SEMICOLON ts [] i False False = Inr (early, sub, j)"
    and s: "gen sub ASTNode0 = Inr second"
    and pl: "pl = Add_Node (set_children [last (leafNodes parent), expression_term second]
              (set_codegen generateExpressionStatement (set_type Expression_Statement (base_node t))))"
      "p = pop_leaf parent"
    using assms(1) by (auto simp: parse_equal_def dest!: ok_attach)
  have "tree_ok T (last (leafNodes parent))" "tree_ok T (expression_term second)"
    using gen_new [OF s gathered_T [OF GATHER_TO_SEMICOLON_gathered [OF g] assms(2)]]
      tree_ok_leaf [OF assms(4)] ne
    by (auto intro: tree_intros)
  with pl assms(3,4) show ?thesis by (auto intro!: ok_made ok_pop_leaf simp: node_facts)
qed

lemma parse_hash_ok:
  assumes "parse_hash gen ts i (base_node t) parent = Inr (pl, p, j)"
    and "list_all T ts" and "T t" and "tree_ok T parent"
  shows "placed_ok T pl \<and> tree_ok T p"
proof -
  obtain tt k early sub body where tt: "NEXT_TOKEN ts i = Inr (tt, k)"
    and g: "GATHER_TO_SEMICOLON ts [] k True True = Inr (early, sub, j)" and b: "gen sub ASTNode0 = Inr body"
    using assms(1) by (auto simp: parse_hash_def Let_def)
  have "T tt" using tt assms(2) by (auto simp: list_all_iff)
  then have idn: "tree_ok T (set_type Identifier_Node (set_token tt ASTNode0))"
    by (intro tree_intros ok_set_token ok_default) simp_all
  have body: "tree_ok T (scope_body body)"
    using gen_new [OF b gathered_T [OF GATHER_TO_SEMICOLON_gathered [OF g] assms(2)]] by (simp add: tree_intros)
  have "T (t\<lparr>tk_first := str\<rparr>)" for str using T_text assms(3) .
  then show ?thesis
    using assms(1,4) tt g b idn body ok_extern [OF body]
    by (auto simp: parse_hash_def Let_def set_text_def node_facts
      intro!: ok_made ok_set_codegen_free split: if_splits)
qed

lemma parse_operator_keyword_ok:
  assumes "parse_operator_keyword ts i (base_node t) parent = Inr (pl, p, j)"
    and "list_all T ts" and "T t" and "tree_ok T parent"
  shows "placed_ok T pl \<and> tree_ok T p"
proof -
  have "T (ts ! j)" if "j < length ts" for j using assms(2) that by (simp add: list_all_iff)
  then have "tree_ok T (ASTNode4 Operator_Type_Node [] (ts ! j) False)" if "j < length ts" for j
    using that by (simp add: ASTNode4_def tree_ok.simps node_facts)
  then show ?thesis
    using assms T_text [OF assms(3)]
    by (auto simp: parse_operator_keyword_def Let_def set_text_def node_facts intro!: ok_made)
qed

lemma call_walk_ok:
  assumes "walk ts never Inr (call_step gen) i (True, 1, [], []) = Inr ((b, l, ins, sub), j)" and "list_all T ts"
  shows "list_all (tree_ok T) ins \<and> list_all T sub"
proof -
  let ?Q = "\<lambda>(b, l, ins, sub). list_all (tree_ok T) ins \<and> list_all T sub"
  have "?Q (b, l, ins, sub)"
  proof (rule walk_invariant [OF assms(1), of ?Q])
    fix t s r
    assume "t \<in> set ts" and q: "?Q s" and r: "call_step gen t s = Inr r"
    then have "T t" using assms(2) by (simp add: list_all_iff)
    then show "?Q (state_of r)"
      using q r by (auto simp: call_step_def Let_def split: prod.splits if_splits
        intro!: tree_intros dest: gen_new)
  qed auto
  then show ?thesis by simp
qed

lemma ok_node2: "ty \<noteq> String_Node \<Longrightarrow> list_all (tree_ok T) cs \<Longrightarrow> tree_ok T (ASTNode2 ty cs)"
  using T_default by (simp add: ASTNode2_def tree_ok.simps node_facts)

lemma parse_paren_ok:
  assumes "parse_paren gen ts i (base_node t) parent = Inr (pl, p, j)"
    and "list_all T ts" and "T t" and "tree_ok T parent"
  shows "placed_ok T pl \<and> tree_ok T p"
proof -
  obtain b l ins sub n where
    w: "walk ts never Inr (call_step gen) i (True, 1, [], []) = Inr ((b, l, ins, sub), j)"
    and n: "gen sub ASTNode0 = Inr n"
    using assms(1) by (auto simp: parse_paren_def Let_def)
  let ?ins = "ins @ [expression_term n]"
  have ins: "list_all (tree_ok T) ?ins"
    using call_walk_ok [OF w assms(2)] gen_new [OF n] by (auto intro: tree_intros)
  then have first: "tree_ok T (?ins ! 0)"
    by (metis Nil_is_append_conv length_greater_0_conv list.distinct(1) list_all_length)
  have parent: "tree_ok T (if leafNodes parent \<noteq> [] then pop_leaf parent else parent)"
    using assms(4) by (simp add: tree_intros)
  have prev: "leafNodes parent \<noteq> [] \<Longrightarrow> T (ntoken (last (leafNodes parent)))"
    using tree_ok_leaf [OF assms(4), of "last (leafNodes parent)"]
      tree_ok_iff [of T "last (leafNodes parent)"] by (simp add: node_ok_def)
  have "tree_ok T (set_children [ASTNode2 Arguments ?ins] (set_token (ntoken (last (leafNodes parent)))
      (set_codegen generateCallExpression (set_type Function_Call (base_node t)))))" if "leafNodes parent \<noteq> []"
    using ok_node2 [OF _ ins] prev [OF that] by (intro ok_made) (simp_all add: node_facts)
  moreover have "tree_ok T (set_codegen generateExpression (set_type Expression_Paren_Term (?ins ! 0)))"
    using first by (intro tree_intros) simp_all
  ultimately have m: "tree_ok T m"
    if "m = (if leafNodes parent \<noteq> [] \<and> ntype (last (leafNodes parent)) = Identifier_Node
        then set_children [ASTNode2 Arguments ?ins] (set_token (ntoken (last (leafNodes parent)))
          (set_codegen generateCallExpression (set_type Function_Call (base_node t))))
        else set_codegen generateExpression (set_type Expression_Paren_Term (?ins ! 0)))" for m
    unfolding that by (cases "leafNodes parent = []") simp_all
  show ?thesis
  proof (cases "leafNodes parent = []")
    case True
    with assms(1) w n m [OF refl] parent show ?thesis
      by (cases b) (auto simp add: parse_paren_def Let_def simp del: nth_append_length)
  next
    case False
    with assms(1) w n m [OF refl] parent show ?thesis
      by (cases b; cases "ntype (last (leafNodes parent)) = Identifier_Node")
        (auto simp add: parse_paren_def Let_def)
  qed
qed

lemma parse_ellipsis_ok:
  "parse_ellipsis i (base_node t) parent = Inr (pl, p, j) \<Longrightarrow> T t \<Longrightarrow> tree_ok T parent
   \<Longrightarrow> placed_ok T pl \<and> tree_ok T p"
  by (auto simp: parse_ellipsis_def Let_def intro!: tree_intros ok_base_node)

lemma parse_leaf_ok:
  "parse_leaf ty g i (base_node t) parent = Inr (pl, p, j) \<Longrightarrow> ty \<noteq> String_Node
   \<Longrightarrow> g = generateConstant \<or> g = generateVariableExpression \<Longrightarrow> T t \<Longrightarrow> tree_ok T parent
   \<Longrightarrow> placed_ok T pl \<and> tree_ok T p"
  by (auto simp: parse_leaf_def intro!: tree_intros ok_base_node)

lemma parse_jump_ok:
  assumes "parse_jump gen ts i ty g (base_node t) parent = Inr (pl, p, j)"
    and "ty \<noteq> String_Node" and "g = generateReturn \<or> g = No_Codegen"
    and "list_all T ts" and "T t" and "tree_ok T parent"
  shows "placed_ok T pl \<and> tree_ok T p"
proof -
  obtain early sub n where g: "GATHER_TO_SEMICOLON ts [] i True False = Inr (early, sub, j)"
    and n: "gen sub ASTNode0 = Inr n"
    and pl: "pl = Add_Node (set_children [expression_term n] (set_codegen g (set_type ty (base_node t))))" "p = parent"
    using assms(1) by (auto simp: parse_jump_def)
  have "tree_ok T (expression_term n)"
    using gen_new [OF n gathered_T [OF GATHER_TO_SEMICOLON_gathered [OF g] assms(4)]] by (simp add: tree_intros)
  with pl assms(2,3,5,6) show ?thesis by (auto intro!: ok_made simp: node_facts)
qed

lemma parse_semicolon_ok:
  assumes "parse_semicolon i parent = Inr (pl, p, j)" and "tree_ok T parent"
  shows "placed_ok T pl \<and> tree_ok T p"
proof -
  have ls: "list_all (tree_ok T) (leafNodes parent)"
    using assms(2) by (auto simp: list_all_iff dest: tree_ok_leaf)
  define stay where "stay = length (pop_loop 0 (leafNodes parent))"
  define ms where "ms = map mark_shared (take stay (leafNodes parent)) @ drop stay (leafNodes parent)"
  have p: "pl = Dont_Add" "p = set_leaves (take stay ms) (set_children (childNodes parent @ ms) parent)"
    using assms(1) by (auto simp: parse_semicolon_def Let_def ms_def stay_def dest!: ok_attach_all)
  have ms: "list_all (tree_ok T) ms"
    using ls by (auto simp: ms_def list_all_iff intro!: tree_intros dest: in_set_takeD in_set_dropD)
  have "tree_ok T (set_children (childNodes parent @ ms) parent)"
    using assms(2) ms ls tree_ok_iff [of T parent]
    by (intro ok_set_children) (auto simp: node_ok_append list_all_iff)
  moreover have "list_all (tree_ok T) (take stay ms)"
    using ms by (auto simp: list_all_iff dest: in_set_takeD)
  ultimately show ?thesis using p by (auto intro: tree_intros)
qed

lemma parse_scope_ok:
  "parse_scope gen ts i parent = Inr (pl, p, j) \<Longrightarrow> list_all T ts \<Longrightarrow> tree_ok T parent
   \<Longrightarrow> placed_ok T pl \<and> tree_ok T p"
  unfolding parse_scope_def
  by (auto intro!: tree_intros dest: gen_new dest!: GATHER_gathered gathered_T)

text \<open>Definitions.\<close>

lemma sub_T:
  assumes "walk ts ends run_out step i st = Inr (st', j)" and "list_all T ts" and "list_all T st"
    and "\<And>t s r. step t s = Inr r \<Longrightarrow> state_of r = s \<or> state_of r = s @ [t]"
    and "\<And>s s'. run_out s = Inr s' \<Longrightarrow> s' = s"
  shows "list_all T st'"
  using collect_T [where f = "\<lambda>s. s", OF assms] .

lemma define_steps:
  "head_step t s = Inr r \<Longrightarrow> state_of r = s \<or> state_of r = s @ [t]"
  "to_brace_step t s = Inr r \<Longrightarrow> state_of r = s \<or> state_of r = s @ [t]"
  "to_paren_step t s = Inr r \<Longrightarrow> state_of r = s \<or> state_of r = s @ [t]"
  by (auto simp: head_step_def to_brace_step_def to_paren_step_def split: if_splits)

lemma parse_define_block_ok:
  assumes "parse_define_block gen ts i tt idn (base_node t) parent = Inr (pl, p, j)"
    and "list_all T ts" and "T t" and "tree_ok T parent" and "tree_ok T idn"
  shows "placed_ok T pl \<and> tree_ok T p"
proof -
  obtain sub k sub2 k2 b sub3 body where
    h: "walk ts never (\<lambda>_. token_error tt ''Unmatched parenthesis'') head_step i [] = Inr (sub, k)"
    and w: "walk ts never Inr to_brace_step k sub = Inr (sub2, k2)"
    and g: "GATHER_SCOPE_BODY_APPEND ts sub2 0 (k2 - 1) (tk_second tt \<in> set compileTimeDefinable) = Inr (b, sub3, j)"
    and n: "gen sub3 ASTNode0 = Inr body"
    using assms(1) by (auto simp: parse_define_block_def Let_def)
  have "list_all T sub" using sub_T [OF h assms(2)] define_steps(1) by simp
  then have "list_all T sub2" using sub_T [OF w assms(2)] define_steps(2) by simp
  then have "list_all T sub3" using gathered_T [OF GATHER_SCOPE_BODY_APPEND_gathered [OF g] assms(2)] by simp
  then have body: "tree_ok T (scope_body body)" using gen_new [OF n] by (simp add: tree_intros)
  have T: "T (ntoken idn)" using assms(5) tree_ok_iff [of T idn] by (simp add: node_ok_def)
  have node: "tree_ok T (set_children [scope_body body] (set_token (ntoken idn) (set_type Compiler_Define (base_node t))))"
    using body T by (intro ok_made) (simp_all add: node_facts)
  have struct: "tree_ok T (set_codegen generateStruct (set_type Compiler_Define_Struct (set_token (ntoken idn) c)))"
    if "c \<in> set (childNodes (scope_body body))" for c
    using tree_ok_child [OF body that] T by (intro tree_intros ok_set_token) simp_all
  show ?thesis
    using assms(1,4) h w g n node struct
    by (auto simp: parse_define_block_def Let_def split: list.splits)
qed

lemma params_walk_ok:
  assumes "walk ts never Inr (params_step gen) i (1, [], []) = Inr ((l, args, sub), j)" and "list_all T ts"
  shows "list_all (tree_ok T) args \<and> list_all T sub"
proof -
  let ?Q = "\<lambda>(l, args, sub). list_all (tree_ok T) args \<and> list_all T sub"
  have "?Q (l, args, sub)"
  proof (rule walk_invariant [OF assms(1), of ?Q])
    fix t s r
    assume "t \<in> set ts" and q: "?Q s" and r: "params_step gen t s = Inr r"
    then have "T t" using assms(2) by (simp add: list_all_iff)
    then show "?Q (state_of r)"
      using q r by (auto simp: params_step_def Let_def split: prod.splits if_splits
        intro!: tree_intros dest: gen_new)
  qed auto
  then show ?thesis by simp
qed

lemma fix_parameter_ok: "fix_parameter a = Inr b \<Longrightarrow> tree_ok T a \<Longrightarrow> tree_ok T b"
proof -
  assume fx: "fix_parameter a = Inr b" and a: "tree_ok T a"
  have leaf: "tree_ok T l" if "l \<in> set (leafNodes a)" for l using tree_ok_leaf [OF a that] .
  consider "b = a" | ty name where "leafNodes a = [ty, name]"
      "b = set_leaves [] (set_children (childNodes a @ [set_type Type_Node ty, name]) a)"
    | l where "leafNodes a = [l]" "b = set_leaves [] (set_children [l] (expression_term a))"
    using fx by (auto simp: fix_parameter_def split: list.splits if_splits dest!: ownership)
  then show ?thesis
  proof cases
    case 1
    with a show ?thesis by simp
  next
    case (2 ty name)
    have "tree_ok T (set_children (childNodes a @ [set_type Type_Node ty, name]) a)"
      using a leaf 2 tree_ok_iff [of T a]
      by (intro ok_set_children) (auto simp: node_ok_append list_all_iff intro: tree_intros)
    with 2 show ?thesis by (auto intro: tree_intros)
  next
    case (3 l)
    have "node_ok T (info (expression_term a)) [l]"
      using a tree_ok_iff [of T a] by (simp add: expression_term_def node_ok_def needs_def)
    then have "tree_ok T (set_children [l] (expression_term a))"
      using leaf 3 by (intro ok_set_children) (auto simp: expression_term_def)
    with 3 show ?thesis by (auto intro: tree_intros)
  qed
qed

lemma fix_parameters_ok:
  "fix_parameters xs = Inr ys \<Longrightarrow> list_all (tree_ok T) xs \<Longrightarrow> list_all (tree_ok T) ys"
  by (induction xs arbitrary: ys) (auto intro: fix_parameter_ok)

lemma parse_parameters_ok:
  assumes "parse_parameters gen ts i = Inr (args, j)" and "list_all T ts"
  shows "list_all (tree_ok T) args"
proof -
  obtain l xs sub n where w: "walk ts never Inr (params_step gen) i (1, [], []) = Inr ((l, xs, sub), j)"
    and n: "gen sub ASTNode0 = Inr n" and f: "fix_parameters (xs @ [expression_term n]) = Inr args"
    using assms(1) by (auto simp: parse_parameters_def)
  show ?thesis
    using params_walk_ok [OF w assms(2)] gen_new [OF n] fix_parameters_ok [OF f] by (simp add: tree_intros)
qed

lemma parse_modifiers_ok:
  assumes "parse_modifiers gen ts i = Inr (m, j)" and "list_all T ts"
  shows "tree_ok T m \<and> ntype m = Compiler_Modifiers"
proof -
  obtain none sub k where g: "GATHER_TO_TOKEN ts [] i Left_Brace True True = Inr (none, sub, k)"
    and m: "(if none then m = ASTNode1 Compiler_Modifiers
             else \<exists>n. gen sub ASTNode0 = Inr n \<and> m = set_type Compiler_Modifiers n)"
    using assms(1) by (auto simp: parse_modifiers_def split: if_splits)
  show ?thesis
    using m gathered_T [OF GATHER_TO_TOKEN_gathered [OF g] assms(2)]
    by (auto split: if_splits intro!: tree_intros ok_default dest: gen_new)
qed

lemma hide_ast_sel [simp]:
  "childNodes (hide_ast m n) = childNodes n" "leafNodes (hide_ast m n) = leafNodes n"
  "ntype (hide_ast m n) = ntype n" "ntoken (hide_ast m n) = ntoken n"
  by (simp_all add: hide_ast_def)

lemma special_function_ok:
  assumes "special_function idn second node = Inr n" and "tree_ok T node" and "tree_ok T second"
  shows "tree_ok T n"
proof -
  have "T (ntoken c)" if "c \<in> set (childNodes second)" for c
    using tree_ok_child [OF assms(3) that] tree_ok_iff [of T c] by (simp add: node_ok_def)
  then show ?thesis
    using assms by (auto simp: special_function_def Let_def intro!: ok_set_type ok_set_token
      split: list.splits if_splits)
qed

lemma parse_define_function_ok:
  assumes "parse_define_function gen ts i idn (base_node t) parent = Inr (pl, p, j)"
    and "list_all T ts" and "T t" and "tree_ok T parent" and "tree_ok T idn" and "ntype idn = Identifier_Node"
  shows "placed_ok T pl \<and> tree_ok T p"
proof -
  obtain sub k second args k2 m k3 early sub2 body n where
    w: "walk ts never Inr to_paren_step i [] = Inr (sub, k)" and s: "gen sub ASTNode0 = Inr second"
    and a: "parse_parameters gen ts k = Inr (args, k2)" and m: "parse_modifiers gen ts k2 = Inr (m, k3)"
    and g: "GATHER_SCOPE_BODY ts 0 k3 True = Inr (early, sub2, j)"
    and b: "(if early then Inr [] else rbind (gen sub2 ASTNode0) (\<lambda>b. Inr [scope_body b])) = Inr body"
    and n: "special_function idn (set_type Type_Node second)
      (set_children ([idn, set_type Type_Node second, ASTNode2 Arguments args, m] @ body)
         (set_token (ntoken idn) (set_codegen (if early then generatePrototype else generateFunction)
           (hide_ast m (set_type Compiler_Define_Function (base_node t)))))) = Inr n"
    and pl: "pl = Add_Node n" "p = parent"
    using assms(1) unfolding parse_define_function_def Let_def by (auto simp: rbind_eq_Inr)
  have "list_all T sub" using sub_T [OF w assms(2)] define_steps(3) by simp
  then have second: "tree_ok T (set_type Type_Node second)" using gen_new [OF s] by (intro tree_intros) simp_all
  have sub2: "list_all T sub2" using gathered_T [OF GATHER_SCOPE_BODY_gathered [OF g] assms(2)] by simp
  have body: "list_all (tree_ok T) body \<and> length body = (if early then 0 else 1)"
    using b sub2 by (auto split: if_splits intro!: tree_intros dest: gen_new)
  have T: "T (ntoken idn)" using assms(5) tree_ok_iff [of T idn] by (simp add: node_ok_def)
  have args: "tree_ok T (ASTNode2 Arguments args)"
    using parse_parameters_ok [OF a assms(2)] by (intro ok_node2) simp_all
  have "tree_ok T (set_children ([idn, set_type Type_Node second, ASTNode2 Arguments args, m] @ body)
         (set_token (ntoken idn) (set_codegen (if early then generatePrototype else generateFunction)
           (hide_ast m (set_type Compiler_Define_Function (base_node t))))))"
    using assms(5,6) second args parse_modifiers_ok [OF m assms(2)] body T
    by (intro ok_made) (auto simp: node_ok_def needs_def definition_parts_def)
  then have "tree_ok T n" using special_function_ok [OF n _ second] by simp
  with pl assms(4) show ?thesis by simp
qed

lemma parse_define_ok:
  assumes "parse_define gen ts i t (base_node t) parent = Inr (pl, p, j)"
    and "list_all T ts" and "T t" and "tree_ok T parent"
  shows "placed_ok T pl \<and> tree_ok T p"
proof -
  obtain idn tt where ne: "leafNodes parent \<noteq> []" and d: "define_identifier (last (leafNodes parent)) = Inr idn"
    and r: "parse_define_block gen ts i tt idn (base_node t) (pop_leaf parent) = Inr (pl, p, j)
      \<or> parse_define_function gen ts i idn (base_node t) (pop_leaf parent) = Inr (pl, p, j)"
  proof -
    obtain idn where d: "leafNodes parent \<noteq> []" "define_identifier (last (leafNodes parent)) = Inr idn"
      and i: "i + 1 < length ts"
      and r: "(if define_scan False (drop i ts) \<or> tk_second (ts ! (i + 1)) \<in> set compileTimeDefinable
           then parse_define_block gen ts i (ts ! (i + 1)) idn (base_node t) (pop_leaf parent)
           else parse_define_function gen ts i idn (base_node t) (pop_leaf parent)) = Inr (pl, p, j)"
      using assms(1) unfolding parse_define_def by (auto simp: rbind_eq_Inr split: if_splits)
    from r d that show ?thesis by (metis (full_types))
  qed
  have "idn = set_type Identifier_Node (last (leafNodes parent))"
    using d by (simp add: define_identifier_def split: if_splits)
  then have "tree_ok T idn" "ntype idn = Identifier_Node"
    using tree_ok_leaf [OF assms(4)] ne by (auto intro!: tree_intros)
  then show ?thesis
    using r parse_define_block_ok parse_define_function_ok assms(2,3) ok_pop_leaf [OF assms(4)] by blast
qed

lemma parse_token_ok:
  assumes "parse_token gen ts i parent = Inr (pl, p, j)" and "list_all T ts" and "i < length ts"
    and "tree_ok T parent"
  shows "placed_ok T pl \<and> tree_ok T p"
proof -
  have t: "T (ts ! i)" using assms(2,3) by (simp add: list_all_length)
  note p = assms(2) t assms(4)
  from assms(1) show ?thesis
  proof (cases rule: parse_token_cases)
    case If
    from parse_if_ok(1) [OF this p] show ?thesis .
  next
    case While
    from parse_while_ok [OF this p] show ?thesis .
  next
    case For
    from parse_for_ok [OF this p] show ?thesis .
  next
    case Struct
    from parse_struct_ok [OF this p] show ?thesis .
  next
    case Module
    from parse_module_ok [OF this p] show ?thesis .
  next
    case Operator
    from parse_operator_ok [OF this p] show ?thesis .
  next
    case Equal
    from parse_equal_ok [OF this p] show ?thesis .
  next
    case Hash
    from parse_hash_ok [OF this p] show ?thesis .
  next
    case Define
    from parse_define_ok [OF this p] show ?thesis .
  next
    case Operator_Keyword
    from parse_operator_keyword_ok [OF this p] show ?thesis .
  next
    case Paren
    from parse_paren_ok [OF this p] show ?thesis .
  next
    case Colon
    from parse_colon_ok [OF this p(1,3)] show ?thesis .
  next
    case Ellipsis
    from parse_ellipsis_ok [OF this p(2,3)] show ?thesis .
  next
    case (Leaf ty g)
    from parse_leaf_ok [OF this p(2,3)] show ?thesis .
  next
    case (Jump ty g)
    from parse_jump_ok [OF this p] show ?thesis .
  next
    case Semicolon
    from parse_semicolon_ok [OF this p(3)] show ?thesis .
  next
    case Scope
    from parse_scope_ok [OF this p(1,3)] show ?thesis .
  next
    case Skip
    with assms(4) show ?thesis by simp
  qed
qed

lemma loop_ok:
  "parse_loop gen ts i parent = Inr n \<Longrightarrow> list_all T ts \<Longrightarrow> tree_ok T parent \<Longrightarrow> tree_ok T n"
proof (induction "length ts - i" arbitrary: i parent rule: less_induct)
  case less
  show ?case
  proof (cases "i < length ts")
    case True
    then obtain pl p j where t: "parse_token gen ts i parent = Inr (pl, p, j)"
      and l: "parse_loop gen ts (j + 1) (place pl p) = Inr n"
      using less.prems(1) by (auto simp: parse_loop.simps [of gen ts i])
    have "tree_ok T (place pl p)"
      using parse_token_ok [OF t less.prems(2) True less.prems(3)] ok_place [of T p pl]
      by (auto simp: placed_ok_def)
    moreover have "length ts - (j + 1) < length ts - i"
      using parse_token_forward [OF t] True by auto
    ultimately show ?thesis using less.hyps l less.prems(2) by blast
  next
    case False
    with less.prems show ?thesis by (auto simp: parse_loop.simps [of gen ts i] intro: tree_intros)
  qed
qed

text \<open>The branches leave the children of the parent in front.\<close>

lemma parse_token_children:
  assumes "parse_token gen ts i parent = Inr (pl, p, j)"
  shows "\<exists>cs. childNodes p = childNodes parent @ cs"
  using assms
proof (cases rule: parse_token_cases)
  case (Leaf ty g)
  then show ?thesis by (auto simp: parse_leaf_def)
qed (auto simp: parse_if_def parse_while_def parse_for_def parse_struct_def parse_module_def parse_colon_def
  parse_operator_def parse_equal_def parse_hash_def parse_define_def parse_define_block_def
  parse_define_function_def parse_operator_keyword_def parse_paren_def parse_ellipsis_def parse_jump_def
  parse_semicolon_def parse_scope_def pop_leaf_def Let_def split: if_splits)

lemma loop_children:
  "parse_loop gen ts i parent = Inr n \<Longrightarrow> childNodes parent \<noteq> [] \<Longrightarrow>
   \<exists>cs. childNodes n = childNodes parent @ cs"
proof (induction "length ts - i" arbitrary: i parent rule: less_induct)
  case less
  show ?case
  proof (cases "i < length ts")
    case True
    then obtain pl p j where t: "parse_token gen ts i parent = Inr (pl, p, j)"
      and l: "parse_loop gen ts (j + 1) (place pl p) = Inr n"
      using less.prems(1) by (auto simp: parse_loop.simps [of gen ts i])
    obtain cs where "childNodes (place pl p) = childNodes parent @ cs"
      using parse_token_children [OF t] by (cases pl) (auto simp: place_def)
    moreover have "length ts - (j + 1) < length ts - i"
      using parse_token_forward [OF t] True by auto
    ultimately show ?thesis using less.hyps [OF _ l] less.prems(2) by auto
  next
    case False
    with less.prems show ?thesis by (auto simp: parse_loop.simps [of gen ts i] finish_node_def)
  qed
qed

lemma loop_if:
  assumes "parse_loop gen ts 0 p = Inr n" and "ts \<noteq> []" and "tk_second (hd ts) = If_Statement"
    and "childNodes p = []" and "list_all T ts" and "tree_ok T p"
  shows "\<exists>c cs. childNodes n = c # cs \<and> codegen (info c) = generateIf"
proof -
  have "parse_token gen ts 0 p = parse_if gen ts 0 (base_node (ts ! 0)) p"
    using assms(2,3) by (simp add: parse_token_def Let_def hd_conv_nth)
  then obtain pl p' j where i: "parse_if gen ts 0 (base_node (ts ! 0)) p = Inr (pl, p', j)"
    and l: "parse_loop gen ts (j + 1) (place pl p') = Inr n"
    using assms(1,2) by (auto simp: parse_loop.simps [of gen ts 0])
  have "T (ts ! 0)" using assms(2,5) by (simp add: list_all_length)
  from parse_if_ok(2) [OF i assms(5) this assms(6)] obtain c where c: "pl = Add_Node c" "codegen (info c) = generateIf"
    by blast
  have "p' = p" using i by (auto simp: parse_if_def Let_def)
  with c assms(4) have "childNodes (place pl p') = [c]" by (simp add: place_def)
  with loop_children [OF l] c show ?thesis by auto
qed

end

section \<open>The parser satisfies the contract at every depth\<close>

text \<open>The token position: line, file and column, but not the text.\<close>

definition stems_from :: "token list \<Rightarrow> token \<Rightarrow> bool" where
  "stems_from src t \<longleftrightarrow>
     (\<exists>s \<in> set src. tk_lineNumber t = tk_lineNumber s \<and> tk_lineValue t = tk_lineValue s
        \<and> tk_filePath t = tk_filePath s \<and> tk_indexInLine t = tk_indexInLine s)
     \<or> tk_lineValue t = Null \<and> tk_filePath t = Null"

interpretation stem: token_property "stems_from src" for src
  by unfold_locales (auto simp: stems_from_def tokenDataType0_def global_token_def tokenDataType6_def)

lemma stems_self: "list_all (stems_from src) ts" if "set ts \<subseteq> set src"
  using that by (auto simp: stems_from_def list_all_iff)

lemma generateAST_subparser:
  assumes "token_property T"
  shows "subparser T (generateAST r)"
proof (induction r)
  case 0
  show ?case
    by (intro subparser.intro subparser_axioms.intro assms) simp_all
next
  case (Suc r)
  note loop_ok = subparser.loop_ok [OF Suc] and loop_if = subparser.loop_if [OF Suc]
  have start: "tree_ok T (if b then set_type Scope_Body (set_token global_token p) else p)"
    if "tree_ok T p" for b p
    using that token_property.T_global [OF assms] by (auto intro: ok_set_type ok_set_token)
  show ?case
  proof (intro subparser.intro subparser_axioms.intro assms)
    fix ts p n
    assume "generateAST (Suc r) ts p = Inr n" "list_all T ts" "tree_ok T p"
    then show "tree_ok T n"
      using loop_ok [OF _ _ start] by simp
  next
    fix ts n
    assume r: "generateAST (Suc r) ts ASTNode0 = Inr n" and ts: "ts \<noteq> []" "tk_second (hd ts) = If_Statement"
      and T: "list_all T ts"
    show "\<exists>c cs. childNodes n = c # cs \<and> codegen (info c) = generateIf"
      by (rule loop_if [OF r [unfolded generateAST.simps] ts _ T start])
        (simp_all add: token_property.ok_default [OF assms])
  qed
qed

interpretation asa_parser: subparser "stems_from src" "generateAST r" for src r
  by (rule generateAST_subparser) unfold_locales

lemma parse_program_ok: "parse_program ts = Inr root \<Longrightarrow> tree_ok (stems_from ts) root"
  unfolding parse_program_def
  by (erule asa_parser.gen_ok) (simp_all add: stems_self stem.ok_default)

text \<open>The root of a parse that succeeds.\<close>

definition program_root :: "token list \<Rightarrow> ast" where
  "program_root ts = (case parse_program ts of Inr r \<Rightarrow> r | Inl _ \<Rightarrow> ASTNode0)"

definition return_program :: "token list" where
  "return_program = [tokenDataType0, tokenDataType2 ''return'' Return_Statement, tokenDataType2 ''1'' Integer,
     tokenDataType2 '';'' Semi_Colon, tokenDataType2 '''' EndOfFile]"

lemma return_program_parses:
  "parse_program return_program = Inr (program_root return_program)"
  "hd (childNodes (program_root return_program)) \<in> set (nodes (program_root return_program))"
proof -
  have "isr (parse_program return_program)" by code_simp
  then show "parse_program return_program = Inr (program_root return_program)"
    by (auto simp: program_root_def isr_iff)
  have "childNodes (program_root return_program) \<noteq> []" by code_simp
  then show "hd (childNodes (program_root return_program)) \<in> set (nodes (program_root return_program))"
    by (rule nodes_child [OF hd_in_set]) (rule node_in_nodes)
qed





lemma generateAST_types:
  assumes "parse_program ts = Inr root" and "n \<in> set (nodes root)"
  shows "ntype n \<noteq> String_Node"
proof -
  have "tree_ok (stems_from ts) n"
    using tree_ok_nodes [OF parse_program_ok [OF assms(1)] assms(2)] .
  then show ?thesis
    using tree_ok_iff [of "stems_from ts" n] by (simp add: node_ok_def)
qed

end
