(* ===== verification/Precedence.thy ===== *)
theory Precedence
  imports Ast
begin

text \<open>
  \<open>fixPrecedence\<close> (\<^verbatim>\<open>src/src/parser.cpp\<close>): the parser nests every operator to the right, and this pass
  rotates binary nodes until tighter operators are deeper. The routine goes on to use the pointers
  \<open>leftChild\<close> and \<open>rightChild\<close> after a rotation has put these nodes below a new node and has
  rewritten them, so the model returns, with the new tree, what the two nodes have become.
\<close>

section \<open>Tables\<close>

definition operatorPrecedence :: "(ASTNodeType \<times> nat) list" where
  "operatorPrecedence = [
     (Operator_Overload_Node, 100), (Member_Access, 90), (Access_Operation, 80), (Expression_Paren_Term, 70),
     (Address_Of_Operation, 50), (Expression_Times, 40), (Expression_Divide, 40), (Expression_Plus, 30),
     (Expression_Minus, 30), (Compare_Equal, 20), (Compare_Not, 20), (Compare_Less, 20),
     (Compare_LessEqual, 20), (Compare_Greater, 20), (Compare_GreaterEqual, 20), (Range_Node, 15),
     (Pipe_Operation, 10)]"

definition leftAssociativeOperators :: "ASTNodeType list" where
  "leftAssociativeOperators = [Member_Access, Access_Operation, Pipe_Operation]"

definition in_table :: "ASTNodeType \<Rightarrow> bool" where
  "in_table ty \<longleftrightarrow> map_of operatorPrecedence ty \<noteq> None"

text \<open>\<open>operator[]\<close> of the map; it is used on types in the table only.\<close>

definition prec :: "ASTNodeType \<Rightarrow> nat" where
  "prec ty = (case map_of operatorPrecedence ty of Some p \<Rightarrow> p | None \<Rightarrow> 0)"

section \<open>Rotations\<close>

abbreviation kid :: "ast \<Rightarrow> nat \<Rightarrow> ast" where
  "kid n k \<equiv> childNodes n ! k"

definition set_kid :: "nat \<Rightarrow> ast \<Rightarrow> ast \<Rightarrow> ast" where
  "set_kid k c n = Node (info n) ((childNodes n)[k := c]) (leafNodes n)"

definition binary_op :: "ast \<Rightarrow> bool" where
  "binary_op n \<longleftrightarrow> length (childNodes n) = 2 \<and> in_table (ntype n)"

text \<open>Type, method and token of the child go to the node.\<close>

definition take_over :: "ninfo \<Rightarrow> ast \<Rightarrow> ninfo" where
  "take_over a c = a\<lparr>nodeType := ntype c, codegen := codegen (info c), node_token := ntoken c\<rparr>"

definition same_left_assoc :: "ninfo \<Rightarrow> ast \<Rightarrow> bool" where
  "same_left_assoc a R \<longleftrightarrow> nodeType a \<in> set leftAssociativeOperators \<and> ntype R = nodeType a
     \<and> length (childNodes R) = 2"

definition tighter :: "ninfo \<Rightarrow> ast \<Rightarrow> bool" where
  "tighter a c \<longleftrightarrow> binary_op c \<and> prec (nodeType a) > prec (ntype c)"

text \<open>
  A rotation works on the node's members, its children, and the two nodes behind \<open>leftChild\<close> and
  \<open>rightChild\<close>. The recursive call on the new node is the argument \<open>f\<close>; it returns the new tree and
  what the two children it was given have become.
\<close>

type_synonym rot_state = "ninfo \<times> ast list \<times> ast \<times> ast"

definition rotate_same :: "(ast \<Rightarrow> ast \<times> ast list) \<Rightarrow> ast list \<Rightarrow> rot_state \<Rightarrow> rot_state" where
  "rotate_same f ls st =
     (case st of (a, ch, L, R) \<Rightarrow>
       if same_left_assoc a R
       then let p = f (Node a [L, kid R 0] ls)
            in (a, [fst p, kid R 1], snd p ! 0, set_kid 0 (snd p ! 1) R)
       else st)"

definition rotate_right :: "(ast \<Rightarrow> ast \<times> ast list) \<Rightarrow> ast list \<Rightarrow> rot_state \<Rightarrow> rot_state" where
  "rotate_right f ls st =
     (case st of (a, ch, L, R) \<Rightarrow>
       if tighter a L
       then let p = f (Node a [kid L 1, R] ls)
            in (take_over a L, [kid L 0, fst p], set_kid 1 (snd p ! 0) L, snd p ! 1)
       else st)"

definition rotate_left :: "(ast \<Rightarrow> ast \<times> ast list) \<Rightarrow> ast list \<Rightarrow> rot_state \<Rightarrow> rot_state" where
  "rotate_left f ls st =
     (case st of (a, ch, L, R) \<Rightarrow>
       if tighter a R
       then let p = f (Node a [L, kid R 0] ls)
            in (take_over a R, [fst p, kid R 1], snd p ! 0, set_kid 0 (snd p ! 1) R)
       else st)"

lemma rotate_cong [fundef_cong]:
  "st = st' \<Longrightarrow> (\<And>a ch L R. st' = (a, ch, L, R) \<Longrightarrow> same_left_assoc a R \<Longrightarrow>
      f (Node a [L, kid R 0] ls) = g (Node a [L, kid R 0] ls)) \<Longrightarrow>
   rotate_same f ls st = rotate_same g ls st'"
  "st = st' \<Longrightarrow> (\<And>a ch L R. st' = (a, ch, L, R) \<Longrightarrow> tighter a L \<Longrightarrow>
      f (Node a [kid L 1, R] ls) = g (Node a [kid L 1, R] ls)) \<Longrightarrow>
   rotate_right f ls st = rotate_right g ls st'"
  "st = st' \<Longrightarrow> (\<And>a ch L R. st' = (a, ch, L, R) \<Longrightarrow> tighter a R \<Longrightarrow>
      f (Node a [L, kid R 0] ls) = g (Node a [L, kid R 0] ls)) \<Longrightarrow>
   rotate_left f ls st = rotate_left g ls st'"
  by (auto simp: rotate_same_def rotate_right_def rotate_left_def split: prod.splits)

function fix_prec :: "ast \<Rightarrow> ast \<times> ast list" where
  "fix_prec (Node a cs ls) =
     (let cs' = map (\<lambda>c. fst (fix_prec c)) cs
      in if \<not> in_table (nodeType a) \<or> length cs' \<noteq> 2 then (Node a cs' ls, cs')
         else case rotate_left fix_prec ls (rotate_right fix_prec ls
                (rotate_same fix_prec ls (a, cs', cs' ! 0, cs' ! 1))) of
           (a', ch, L, R) \<Rightarrow> (Node a' ch ls, [L, R]))"
  by pat_completeness auto

section \<open>Termination\<close>

text \<open>The number of nodes. A call keeps it, for the whole tree and for the two children, and the new
  node of a rotation has fewer.\<close>

fun weight :: "ast \<Rightarrow> nat" where
  "weight (Node a cs ls) = Suc (sum_list (map weight cs))"

declare weight.simps [simp del]

lemma weight_children: "weight n = Suc (sum_list (map weight (childNodes n)))"
  by (cases n) (simp add: weight.simps)

lemma weight_kid: "c \<in> set (childNodes n) \<Longrightarrow> weight c < weight n"
  using member_le_sum_list [of "weight c" "map weight (childNodes n)"] by (simp add: weight_children [of n])

lemma two_kids: "length cs = 2 \<longleftrightarrow> (\<exists>x y. cs = [x, y])"
  by (auto simp: numeral_2_eq_2 length_Suc_conv)

lemma weight_two: "length (childNodes n) = 2 \<Longrightarrow> weight n = Suc (weight (kid n 0) + weight (kid n 1))"
  by (auto simp: weight_children [of n] two_kids)

lemma set_kid_sel [simp]:
  "childNodes (set_kid k c n) = (childNodes n)[k := c]" "info (set_kid k c n) = info n"
  by (simp_all add: set_kid_def)

text \<open>What a call keeps.\<close>

definition keeps_weight :: "(ast \<Rightarrow> ast \<times> ast list) \<Rightarrow> ast \<Rightarrow> bool" where
  "keeps_weight f n \<longleftrightarrow> weight (fst (f n)) = weight n \<and> map weight (snd (f n)) = map weight (childNodes n)"

definition rot_weight :: "rot_state \<Rightarrow> nat \<Rightarrow> nat \<Rightarrow> bool" where
  "rot_weight st wl wr \<longleftrightarrow>
     (case st of (a, ch, L, R) \<Rightarrow> sum_list (map weight ch) = wl + wr \<and> weight L = wl \<and> weight R = wr)"

lemma keeps_two:
  assumes "keeps_weight f (Node a [x, y] ls)"
  shows "weight (fst (f (Node a [x, y] ls))) = Suc (weight x + weight y)"
    and "weight (snd (f (Node a [x, y] ls)) ! 0) = weight x"
    and "weight (snd (f (Node a [x, y] ls)) ! 1) = weight y"
proof -
  show "weight (fst (f (Node a [x, y] ls))) = Suc (weight x + weight y)"
    using assms by (simp add: keeps_weight_def weight.simps)
  have "map weight (snd (f (Node a [x, y] ls))) = [weight x, weight y]"
    using assms by (simp add: keeps_weight_def)
  then obtain u v where "snd (f (Node a [x, y] ls)) = [u, v]" "weight u = weight x" "weight v = weight y"
    by auto
  then show "weight (snd (f (Node a [x, y] ls)) ! 0) = weight x" "weight (snd (f (Node a [x, y] ls)) ! 1) = weight y"
    by simp_all
qed

lemma rotate_weight:
  "rot_weight st wl wr \<Longrightarrow> (\<And>a ch L R. st = (a, ch, L, R) \<Longrightarrow> same_left_assoc a R \<Longrightarrow>
      keeps_weight f (Node a [L, kid R 0] ls)) \<Longrightarrow> rot_weight (rotate_same f ls st) wl wr"
  "rot_weight st wl wr \<Longrightarrow> (\<And>a ch L R. st = (a, ch, L, R) \<Longrightarrow> tighter a L \<Longrightarrow>
      keeps_weight f (Node a [kid L 1, R] ls)) \<Longrightarrow> rot_weight (rotate_right f ls st) wl wr"
  "rot_weight st wl wr \<Longrightarrow> (\<And>a ch L R. st = (a, ch, L, R) \<Longrightarrow> tighter a R \<Longrightarrow>
      keeps_weight f (Node a [L, kid R 0] ls)) \<Longrightarrow> rot_weight (rotate_left f ls st) wl wr"
  using keeps_two [of f] weight_two
  by (auto simp: rot_weight_def rotate_same_def rotate_right_def rotate_left_def same_left_assoc_def tighter_def
      binary_op_def Let_def weight_children [of "set_kid _ _ _"] two_kids split: prod.splits)

lemma rotation_smaller:
  "rot_weight (a, ch, L, R) wl wr \<Longrightarrow> same_left_assoc a R \<Longrightarrow> weight (Node a [L, kid R 0] ls) < Suc (wl + wr)"
  "rot_weight (a, ch, L, R) wl wr \<Longrightarrow> tighter a R \<Longrightarrow> weight (Node a [L, kid R 0] ls) < Suc (wl + wr)"
  "rot_weight (a, ch, L, R) wl wr \<Longrightarrow> tighter a L \<Longrightarrow> weight (Node a [kid L 1, R] ls) < Suc (wl + wr)"
  using weight_two by (auto simp: rot_weight_def same_left_assoc_def tighter_def binary_op_def weight.simps)

lemma start_weight:
  assumes "\<And>c. c \<in> set cs \<Longrightarrow> weight (fst (f c)) = weight c" and "length cs = 2"
  shows "rot_weight (a, map (\<lambda>c. fst (f c)) cs, fst (f (cs ! 0)), fst (f (cs ! 1))) (weight (cs ! 0)) (weight (cs ! 1))"
    and "weight (Node b cs ls) = Suc (weight (cs ! 0) + weight (cs ! 1))"
  using assms by (auto simp: rot_weight_def two_kids weight.simps)

lemma fix_prec_keeps: "fix_prec_dom n \<Longrightarrow> keeps_weight fix_prec n"
proof (induction n rule: fix_prec.pinduct)
  case (1 a cs ls)
  let ?cs = "map (\<lambda>c. fst (fix_prec c)) cs"
  have kids: "weight (fst (fix_prec c)) = weight c" if "c \<in> set cs" for c
    using 1(2) that by (simp add: keeps_weight_def)
  show ?case
  proof (cases "\<not> in_table (nodeType a) \<or> length ?cs \<noteq> 2")
    case True
    then show ?thesis
      using kids by (simp add: keeps_weight_def fix_prec.psimps [OF 1(1)] Let_def weight.simps cong: map_cong)
  next
    case False
    then have two: "length cs = 2" by simp
    let ?s0 = "(a, ?cs, ?cs ! 0, ?cs ! 1)"
    let ?s1 = "rotate_same fix_prec ls ?s0"
    let ?s2 = "rotate_right fix_prec ls ?s1"
    let ?s3 = "rotate_left fix_prec ls ?s2"
    let ?wl = "weight (cs ! 0)" and ?wr = "weight (cs ! 1)"
    have "rot_weight ?s0 ?wl ?wr"
      using start_weight(1) [of cs fix_prec a, OF kids two] two by simp
    then have "rot_weight ?s1 ?wl ?wr"
      by (rule rotate_weight(1)) (rule 1(3) [OF refl False]; simp)
    then have "rot_weight ?s2 ?wl ?wr"
      by (rule rotate_weight(2)) (rule 1(4) [OF refl False]; simp)
    then have w: "rot_weight ?s3 ?wl ?wr"
      by (rule rotate_weight(3)) (rule 1(5) [OF refl False]; simp)
    obtain a' ch L R where s3: "?s3 = (a', ch, L, R)" by (cases ?s3) auto
    have "fix_prec (Node a cs ls) = (Node a' ch ls, [L, R])"
      using False s3 by (simp add: fix_prec.psimps [OF 1(1)] Let_def)
    moreover have "map weight cs = [?wl, ?wr]" using two by (auto simp: two_kids)
    ultimately show ?thesis
      using w s3 start_weight(2) [of cs fix_prec, OF kids two] by (simp add: keeps_weight_def rot_weight_def weight.simps)
  qed
qed

lemma start_dom:
  assumes "\<forall>c \<in> set cs. fix_prec_dom c" and "\<not> (\<not> b \<or> length (map (\<lambda>c. fst (fix_prec c)) cs) \<noteq> 2)"
  shows "rot_weight (a, map (\<lambda>c. fst (fix_prec c)) cs, map (\<lambda>c. fst (fix_prec c)) cs ! 0,
      map (\<lambda>c. fst (fix_prec c)) cs ! 1) (weight (cs ! 0)) (weight (cs ! 1))"
    and "weight (Node a cs ls) = Suc (weight (cs ! 0) + weight (cs ! 1))"
proof -
  have kids: "weight (fst (fix_prec c)) = weight c" if "c \<in> set cs" for c
    using fix_prec_keeps [of c] assms(1) that by (simp add: keeps_weight_def)
  have two: "length cs = 2" using assms(2) by simp
  show "rot_weight (a, map (\<lambda>c. fst (fix_prec c)) cs, map (\<lambda>c. fst (fix_prec c)) cs ! 0,
      map (\<lambda>c. fst (fix_prec c)) cs ! 1) (weight (cs ! 0)) (weight (cs ! 1))"
    using start_weight(1) [of cs fix_prec a, OF kids two] two by simp
  show "weight (Node a cs ls) = Suc (weight (cs ! 0) + weight (cs ! 1))"
    using start_weight(2) [of cs fix_prec a, OF kids two] .
qed

lemma fix_prec_total: "All fix_prec_dom"
proof (rule "fix_prec.termination" [of "measure weight"], goal_cases)
  case 1
  show ?case by simp
next
  case (2 a cs ls c)
  then show ?case by (simp add: weight_kid)
next
  case (3 a cs ls x aa ch L R)
  have "\<forall>c \<in> set cs. fix_prec_dom c" using 3(5) by blast
  note w = start_dom [OF this 3(2) [unfolded 3(1)], of a]
  show ?case
    using rotation_smaller(1) [OF w(1) [folded 3(1), unfolded 3(3)] 3(4)] w(2) by simp
next
  case (4 a cs ls x aa ch L R)
  have "\<forall>c \<in> set cs. fix_prec_dom c" using 4(6) by blast
  note w = start_dom [OF this 4(2) [unfolded 4(1)], of a]
  have "rot_weight (rotate_same fix_prec ls (a, x, x ! 0, x ! 1)) (weight (cs ! 0)) (weight (cs ! 1))"
    using w(1) [folded 4(1)] by (rule rotate_weight(1)) (blast intro: fix_prec_keeps 4(5))
  then show ?case
    using rotation_smaller(3) [OF _ 4(4)] w(2) 4(3) by simp
next
  case (5 a cs ls x aa ch L R)
  have "\<forall>c \<in> set cs. fix_prec_dom c" using 5(7) by blast
  note w = start_dom [OF this 5(2) [unfolded 5(1)], of a]
  have "rot_weight (rotate_same fix_prec ls (a, x, x ! 0, x ! 1)) (weight (cs ! 0)) (weight (cs ! 1))"
    using w(1) [folded 5(1)] by (rule rotate_weight(1)) (blast intro: fix_prec_keeps 5(6))
  then have "rot_weight (rotate_right fix_prec ls (rotate_same fix_prec ls (a, x, x ! 0, x ! 1)))
      (weight (cs ! 0)) (weight (cs ! 1))"
    by (rule rotate_weight(2)) (blast intro: fix_prec_keeps 5(5))
  then show ?case
    using rotation_smaller(2) [OF _ 5(4)] w(2) 5(3) by simp
qed

termination fix_prec
  by (rule fix_prec_total)

declare fix_prec.simps [simp del]

definition fixPrecedence :: "ast \<Rightarrow> ast" where
  "fixPrecedence n = fst (fix_prec n)"

text \<open>C22. \<open>fixPrecedence\<close> returns on every tree, and the tree it returns has as many nodes.\<close>

theorem fixPrecedence_weight: "weight (fixPrecedence n) = weight n"
  using fix_prec_keeps [of n] fix_prec_total by (simp add: keeps_weight_def fixPrecedence_def)

section \<open>What the pass computes\<close>

lemma fix_prec_leaf: "\<not> in_table (nodeType a) \<or> length cs \<noteq> 2 \<Longrightarrow>
  fix_prec (Node a cs ls) = (Node a (map (\<lambda>c. fst (fix_prec c)) cs) ls, map (\<lambda>c. fst (fix_prec c)) cs)"
  by (simp add: fix_prec.simps Let_def)

text \<open>A node with two children that are already in order.\<close>

lemma fix_prec_binary:
  assumes "in_table (nodeType a)" and "fst (fix_prec L) = L" and "fst (fix_prec R) = R"
  shows "fix_prec (Node a [L, R] ls) =
    (case rotate_left fix_prec ls (rotate_right fix_prec ls (rotate_same fix_prec ls (a, [L, R], L, R))) of
       (a', ch, L, R) \<Rightarrow> (Node a' ch ls, [L, R]))"
  using assms by (simp add: fix_prec.simps Let_def)

text \<open>An operand: not an operator with two operands, and unchanged by the pass.\<close>

definition atom :: "ast \<Rightarrow> bool" where
  "atom t \<longleftrightarrow> \<not> binary_op t \<and> fst (fix_prec t) = t"

definition right_op :: "ninfo \<Rightarrow> bool" where
  "right_op a \<longleftrightarrow> in_table (nodeType a) \<and> nodeType a \<notin> set leftAssociativeOperators"

text \<open>What the parser builds: operands and operators nested to the right.\<close>

fun spine :: "(ast \<times> ninfo) list \<Rightarrow> ast \<Rightarrow> ast" where
  "spine [] z = z"
| "spine ((x, a) # items) z = Node a [x, spine items z] []"

text \<open>A new operator and its left operand go below every looser operator on the left edge.\<close>

function insert_op :: "ast \<Rightarrow> ninfo \<Rightarrow> ast \<Rightarrow> ast" where
  "insert_op x a t =
     (if tighter a t then Node (take_over a t) [insert_op x a (kid t 0), kid t 1] [] else Node a [x, t] [])"
  by pat_completeness auto

termination
  by (relation "measure (\<lambda>(_, _, t). weight t)") (auto simp: tighter_def binary_op_def intro!: weight_kid)

declare insert_op.simps [simp del]

lemma insert_op_tighter: "tighter a (Node b [l, r] ls) \<Longrightarrow>
  insert_op x a (Node b [l, r] ls) = Node (take_over a (Node b [l, r] ls)) [insert_op x a l, r] []"
  by (simp add: insert_op.simps [of x a "Node b [l, r] ls"])

text \<open>Operators without left associativity over operands; in order when a left operand is tighter and
  a right operand at least as tight.\<close>

inductive right_tree :: "ast \<Rightarrow> bool" where
  operand: "atom t \<Longrightarrow> right_tree t"
| operator: "right_op a \<Longrightarrow> right_tree l \<Longrightarrow> right_tree r \<Longrightarrow> right_tree (Node a [l, r] [])"

fun ordered :: "ast \<Rightarrow> bool" where
  "ordered (Node a [l, r] ls) \<longleftrightarrow>
     (in_table (nodeType a) \<longrightarrow> (binary_op l \<longrightarrow> prec (nodeType a) < prec (ntype l))
        \<and> (binary_op r \<longrightarrow> prec (nodeType a) \<le> prec (ntype r)) \<and> ordered l \<and> ordered r)"
| "ordered (Node a cs ls) \<longleftrightarrow> True"

lemma ordered_atom: "\<not> binary_op t \<Longrightarrow> ordered t"
  by (cases t rule: ordered.cases) (auto simp: binary_op_def)

text \<open>The operands and operators from left to right.\<close>

datatype item = Operand ast | Operator ASTNodeType codegen_method token

function items :: "ast \<Rightarrow> item list" where
  "items t =
     (if binary_op t
      then items (kid t 0) @ [Operator (ntype t) (codegen (info t)) (ntoken t)] @ items (kid t 1)
      else [Operand t])"
  by pat_completeness auto

termination
  by (relation "measure weight") (auto simp: binary_op_def intro!: weight_kid)

declare items.simps [simp del]

lemma items_atom: "\<not> binary_op t \<Longrightarrow> items t = [Operand t]"
  by (simp add: items.simps)

lemma items_node: "in_table (nodeType a) \<Longrightarrow>
  items (Node a [l, r] ls) = items l @ [Operator (nodeType a) (codegen a) (node_token a)] @ items r"
  by (subst items.simps) (simp add: binary_op_def)

lemma binary_Node [simp]: "binary_op (Node a [l, r] ls) \<longleftrightarrow> in_table (nodeType a)"
  by (simp add: binary_op_def)

lemma take_over_sel [simp]:
  "nodeType (take_over a t) = ntype t" "codegen (take_over a t) = codegen (info t)"
  "node_token (take_over a t) = ntoken t"
  by (simp_all add: take_over_def)

lemma right_op_not_same: "right_op a \<Longrightarrow> \<not> same_left_assoc a R"
  by (simp add: right_op_def same_left_assoc_def)

lemma right_tree_fixed: "right_tree t \<Longrightarrow> ordered t \<Longrightarrow> fst (fix_prec t) = t"
proof (induction rule: right_tree.induct)
  case (operand t)
  then show ?case by (simp add: atom_def)
next
  case (operator a l r)
  then have "in_table (nodeType a)" by (simp add: right_op_def)
  with operator have "\<not> tighter a l" "\<not> tighter a r" "fst (fix_prec l) = l" "fst (fix_prec r) = r"
    by (auto simp: tighter_def)
  then show ?case
    using \<open>in_table (nodeType a)\<close> right_op_not_same [OF operator(1)]
    by (simp add: fix_prec_binary rotate_same_def rotate_right_def rotate_left_def)
qed

lemma fix_prec_insert:
  "right_tree t \<Longrightarrow> ordered t \<Longrightarrow> atom x \<Longrightarrow> right_op a \<Longrightarrow> fst (fix_prec (Node a [x, t] [])) = insert_op x a t"
proof (induction t rule: measure_induct_rule [of weight])
  case (less t)
  have x: "\<not> tighter a x" "fst (fix_prec x) = x"
    using less.prems(3) by (simp_all add: atom_def tighter_def)
  have start: "fix_prec (Node a [x, t] []) =
      (case rotate_left fix_prec [] (a, [x, t], x, t) of (a', ch, L, R) \<Rightarrow> (Node a' ch [], [L, R]))"
    using x right_tree_fixed [OF less.prems(1,2)] less.prems(4) right_op_not_same [OF less.prems(4)]
    by (simp add: fix_prec_binary rotate_same_def rotate_right_def right_op_def)
  show ?case
  proof (cases "tighter a t")
    case True
    then obtain b l r where t: "t = Node b [l, r] []" "right_tree l"
      using less.prems(1) by (auto simp: tighter_def atom_def elim: right_tree.cases)
    moreover have "in_table (nodeType b)" using True t by (simp add: tighter_def)
    moreover have "weight l < weight t" using t weight_kid [of l t] by simp
    ultimately have "fst (fix_prec (Node a [x, l] [])) = insert_op x a l"
      using less.prems(2-4) less.IH by auto
    with True t start show ?thesis
      by (simp add: rotate_left_def Let_def insert_op_tighter)
  next
    case False
    with start show ?thesis by (simp add: rotate_left_def insert_op.simps [of x a t])
  qed
qed

lemma insert_op_right_tree: "right_tree t \<Longrightarrow> atom x \<Longrightarrow> right_op a \<Longrightarrow> right_tree (insert_op x a t)"
proof (induction t rule: measure_induct_rule [of weight])
  case (less t)
  show ?case
  proof (cases "tighter a t")
    case True
    then obtain b l r where t: "t = Node b [l, r] []" "right_op b" "right_tree l" "right_tree r"
      using less.prems(1) by (auto simp: tighter_def atom_def elim: right_tree.cases)
    moreover have "weight l < weight t" using t weight_kid [of l t] by simp
    ultimately show ?thesis
      using True less by (simp add: insert_op_tighter right_op_def right_tree.operator)
  next
    case False
    with less.prems show ?thesis by (auto simp: insert_op.simps [of x a t] intro: right_tree.intros)
  qed
qed

lemma insert_op_ordered:
  "ordered t \<Longrightarrow> right_tree t \<Longrightarrow> atom x \<Longrightarrow> right_op a \<Longrightarrow> ordered (insert_op x a t)
     \<and> binary_op (insert_op x a t)
     \<and> (prec (ntype (insert_op x a t)) = prec (nodeType a)
        \<or> binary_op t \<and> prec (ntype (insert_op x a t)) = prec (ntype t))"
proof (induction t rule: measure_induct_rule [of weight])
  case (less t)
  have a: "in_table (nodeType a)" using less.prems(4) by (simp add: right_op_def)
  show ?case
  proof (cases "tighter a t")
    case True
    then obtain b l r where t: "t = Node b [l, r] []" "right_tree l"
      using less.prems(2) by (auto simp: tighter_def atom_def elim: right_tree.cases)
    have b: "in_table (nodeType b)" "prec (nodeType b) < prec (nodeType a)"
      using True t by (simp_all add: tighter_def)
    have "weight l < weight t" using t weight_kid [of l t] by simp
    then have "ordered (insert_op x a l)" "binary_op (insert_op x a l)"
        "prec (nodeType b) < prec (ntype (insert_op x a l))"
      using less.IH [of l] less.prems t b by auto
    with True t b less.prems show ?thesis by (simp add: insert_op_tighter)
  next
    case False
    then have "binary_op t \<longrightarrow> prec (nodeType a) \<le> prec (ntype t)"
      by (auto simp: tighter_def)
    with False less.prems a show ?thesis
      by (auto simp: insert_op.simps [of x a t] atom_def ordered_atom)
  qed
qed

lemma insert_op_items:
  "right_tree t \<Longrightarrow> atom x \<Longrightarrow> right_op a \<Longrightarrow>
   items (insert_op x a t) = Operand x # Operator (nodeType a) (codegen a) (node_token a) # items t"
proof (induction t rule: measure_induct_rule [of weight])
  case (less t)
  have a: "in_table (nodeType a)" using less.prems(3) by (simp add: right_op_def)
  show ?case
  proof (cases "tighter a t")
    case True
    then obtain b l r where t: "t = Node b [l, r] []" "right_tree l"
      using less.prems(1) by (auto simp: tighter_def atom_def elim: right_tree.cases)
    have b: "in_table (nodeType b)" using True t by (simp add: tighter_def)
    have "weight l < weight t" using t weight_kid [of l t] by simp
    with True t b less show ?thesis
      by (simp add: insert_op_tighter items_node)
  next
    case False
    with less.prems a show ?thesis
      by (simp add: insert_op.simps [of x a t] items_node items_atom atom_def)
  qed
qed

definition spine_ok :: "(ast \<times> ninfo) list \<Rightarrow> ast \<Rightarrow> bool" where
  "spine_ok xs z \<longleftrightarrow> atom z \<and> list_all (\<lambda>(x, a). atom x \<and> right_op a) xs"

lemma fix_prec_spine:
  "spine_ok xs z \<Longrightarrow>
   fst (fix_prec (spine xs z)) = foldr (\<lambda>(x, a). insert_op x a) xs z
   \<and> right_tree (foldr (\<lambda>(x, a). insert_op x a) xs z) \<and> ordered (foldr (\<lambda>(x, a). insert_op x a) xs z)
   \<and> items (foldr (\<lambda>(x, a). insert_op x a) xs z) = items (spine xs z)"
proof (induction xs)
  case Nil
  then show ?case by (auto simp: spine_ok_def atom_def ordered_atom intro: right_tree.intros)
next
  case (Cons xa xs)
  obtain x a where xa: "xa = (x, a)" by (cases xa)
  let ?t = "foldr (\<lambda>(x, a). insert_op x a) xs z"
  have x: "atom x" "right_op a" and IH: "fst (fix_prec (spine xs z)) = ?t" "right_tree ?t" "ordered ?t"
      "items ?t = items (spine xs z)"
    using Cons xa by (auto simp: spine_ok_def)
  have "in_table (nodeType a)" using x by (simp add: right_op_def)
  moreover have "fst (fix_prec x) = x" using x by (simp add: atom_def)
  ultimately have "fix_prec (Node a [x, spine xs z] []) = fix_prec (Node a [x, ?t] [])"
    using IH(1) right_tree_fixed [OF IH(2,3)] by (simp add: fix_prec.simps Let_def)
  then show ?case
    using xa x IH fix_prec_insert [OF IH(2,3) x] insert_op_right_tree [OF IH(2) x]
      insert_op_ordered [OF IH(3,2) x] insert_op_items [OF IH(2) x] \<open>in_table (nodeType a)\<close>
    by (simp add: items_node items_atom atom_def)
qed

text \<open>
  C7. Operators that associate to the right in this pass (all but \<^verbatim>\<open>.\<close>, \<^verbatim>\<open>[]\<close> and the pipe), nested to
  the right over operands as the parser leaves them: the result is obtained by inserting the operators
  from the last to the first, it has the same operands and operators from left to right, and it is in
  order: a left operand is tighter than its operator, a right operand is at least as tight.
\<close>

theorem fixPrecedence_spine:
  assumes "spine_ok xs z"
  shows "fixPrecedence (spine xs z) = foldr (\<lambda>(x, a). insert_op x a) xs z
    \<and> ordered (fixPrecedence (spine xs z)) \<and> items (fixPrecedence (spine xs z)) = items (spine xs z)"
  using fix_prec_spine [OF assms] by (simp add: fixPrecedence_def)

text \<open>\<open>a * b + c\<close>, which the parser nests as \<open>a * (b + c)\<close>, becomes \<open>(a * b) + c\<close>.\<close>

definition named :: "ASTNodeType \<Rightarrow> string \<Rightarrow> ninfo" where
  "named ty s = info0\<lparr>nodeType := ty, node_token := tokenDataType2 s Identifier\<rparr>"

definition name_node :: "string \<Rightarrow> ast" where
  "name_node s = Node (named Identifier_Node s) [] []"

lemma atom_name [simp]: "atom (name_node s)"
  by (simp add: atom_def name_node_def named_def binary_op_def fix_prec_leaf)

lemma fixPrecedence_spine_witness:
  "let a = name_node ''a''; b = name_node ''b''; c = name_node ''c'';
       times = named Expression_Times ''*''; plus = named Expression_Plus ''+'' in
   fixPrecedence (spine [(a, times), (b, plus)] c) = Node plus [Node times [a, b] [], c] []
   \<and> ordered (Node plus [Node times [a, b] [], c] [])"
proof -
  let ?xs = "[(name_node ''a'', named Expression_Times ''*''), (name_node ''b'', named Expression_Plus ''+'')]"
  have ok: "spine_ok ?xs (name_node ''c'')"
    by (simp add: spine_ok_def right_op_def named_def in_table_def operatorPrecedence_def leftAssociativeOperators_def)
  have nest: "foldr (\<lambda>(x, a). insert_op x a) ?xs (name_node ''c'')
      = Node (named Expression_Plus ''+'') [Node (named Expression_Times ''*'') [name_node ''a'', name_node ''b''] [],
          name_node ''c''] []"
    by code_simp
  from fixPrecedence_spine [OF ok] have
    f: "fixPrecedence (spine ?xs (name_node ''c'')) = foldr (\<lambda>(x, a). insert_op x a) ?xs (name_node ''c'')"
    and o: "ordered (fixPrecedence (spine ?xs (name_node ''c'')))" by blast+
  show ?thesis
    using o f unfolding f nest Let_def by blast
qed

section \<open>Left-associative operators\<close>

definition left_nest :: "ninfo \<Rightarrow> ast \<Rightarrow> ast list \<Rightarrow> ast" where
  "left_nest a x ys = foldl (\<lambda>t y. Node a [t, y] []) x ys"

lemma left_nest_snoc [simp]: "left_nest a x (ys @ [y]) = Node a [left_nest a x ys, y] []"
  by (simp add: left_nest_def)

lemma left_nest_Nil [simp]: "left_nest a x [] = x"
  by (simp add: left_nest_def)

definition left_op :: "ninfo \<Rightarrow> bool" where
  "left_op a \<longleftrightarrow> nodeType a \<in> set leftAssociativeOperators"

lemma left_op_in_table: "left_op a \<Longrightarrow> in_table (nodeType a)"
  by (auto simp: left_op_def leftAssociativeOperators_def in_table_def operatorPrecedence_def)

lemma left_nest_loose: "atom x \<Longrightarrow> \<not> tighter a (left_nest a x ys)"
  by (cases ys rule: rev_cases) (auto simp: tighter_def atom_def)

lemma atom_plain: "atom x \<Longrightarrow> \<not> tighter a x" "atom x \<Longrightarrow> left_op a \<Longrightarrow> \<not> same_left_assoc a x"
  using left_op_in_table [of a] by (auto simp: atom_def tighter_def same_left_assoc_def binary_op_def)

lemma left_nest_fixed:
  assumes "left_op a" and "atom x" and "list_all atom ys"
  shows "fst (fix_prec (left_nest a x ys)) = left_nest a x ys"
  using assms(3)
proof (induction ys rule: rev_induct)
  case Nil
  then show ?case using assms(2) by (simp add: atom_def)
next
  case (snoc y ys)
  then have "atom y" "fst (fix_prec y) = y" "fst (fix_prec (left_nest a x ys)) = left_nest a x ys"
    by (simp_all add: atom_def)
  then show ?case
    using assms left_nest_loose [of x a ys] atom_plain [of y a] left_op_in_table [of a]
    by (simp add: fix_prec_binary rotate_same_def rotate_right_def rotate_left_def)
qed

lemma left_nest_join:
  assumes "left_op a" and "left_op b" and "nodeType b = nodeType a" and "atom x" and "atom y"
    and "list_all atom ys"
  shows "fst (fix_prec (Node a [x, left_nest b y ys] [])) = left_nest a x (y # ys)
    \<and> snd (fix_prec (Node a [x, left_nest b y ys] [])) ! 0 = x"
  using assms(6)
proof (induction ys rule: rev_induct)
  case Nil
  have "fst (fix_prec x) = x" "fst (fix_prec y) = y" using assms by (simp_all add: atom_def)
  then show ?case
    using assms atom_plain [of _ a] left_op_in_table [of a]
    by (simp add: fix_prec_binary rotate_same_def rotate_right_def rotate_left_def left_nest_def)
next
  case (snoc z ys)
  let ?p = "fix_prec (Node a [x, left_nest b y ys] [])" and ?t = "Node b [left_nest b y ys, z] []"
  have IH: "fst ?p = left_nest a x (y # ys)" "snd ?p ! 0 = x" and z: "atom z"
    using snoc by simp_all
  have x: "fst (fix_prec x) = x" using assms(4) by (simp add: atom_def)
  have t: "fst (fix_prec ?t) = ?t"
    using left_nest_fixed [of b y "ys @ [z]"] assms snoc.prems by simp
  have same: "same_left_assoc a ?t" using assms by (simp add: same_left_assoc_def left_op_def)
  have "\<not> tighter a (set_kid 0 (snd ?p ! 1) ?t)" using assms(3) by (simp add: tighter_def)
  with IH x t same z show ?case
    using atom_plain(1) [OF assms(4)] left_op_in_table [OF assms(1)] left_nest_snoc [of a x "y # ys" z] left_nest_snoc [of b y ys z]
    by (simp add: fix_prec_binary rotate_same_def rotate_right_def rotate_left_def Let_def del: left_nest_snoc)
qed

definition chain_ok :: "ASTNodeType \<Rightarrow> (ast \<times> ninfo) list \<Rightarrow> bool" where
  "chain_ok ty xs \<longleftrightarrow> list_all (\<lambda>(x, a). atom x \<and> left_op a \<and> nodeType a = ty) xs"

lemma fix_prec_chain:
  "chain_ok ty ((x, a) # xs) \<Longrightarrow> atom z \<Longrightarrow>
   fst (fix_prec (spine ((x, a) # xs) z)) = left_nest a x (map fst xs @ [z])"
proof (induction xs arbitrary: x a)
  case Nil
  then show ?case using left_nest_join [of a a x z "[]"] by (simp add: chain_ok_def left_nest_def)
next
  case (Cons yb xs)
  obtain y b where yb: "yb = (y, b)" by (cases yb)
  let ?t = "left_nest b y (map fst xs @ [z])" and ?s = "spine ((y, b) # xs) z"
  have ok: "atom x" "atom y" "left_op a" "left_op b" "nodeType b = nodeType a" "list_all atom (map fst xs @ [z])"
    using Cons.prems yb by (auto simp: chain_ok_def list_all_iff)
  have t: "fst (fix_prec ?s) = ?t" "fst (fix_prec ?t) = ?t"
    using Cons yb left_nest_fixed [OF ok(4,2,6)] by (simp_all add: chain_ok_def del: spine.simps left_nest_snoc)
  have "fix_prec (Node a [x, ?s] []) = fix_prec (Node a [x, ?t] [])"
    using t by (subst (1 2) fix_prec.simps) (simp add: del: spine.simps left_nest_snoc)
  then have "fst (fix_prec (Node a [x, ?s] [])) = left_nest a x (y # (map fst xs @ [z]))"
    using left_nest_join [OF ok(3,4,5,1,2,6)] by (simp del: spine.simps left_nest_snoc)
  then show ?case
    by (simp add: yb)
qed

text \<open>
  C21. A chain of one left-associative operator (\<^verbatim>\<open>a.b.c\<close>, \<^verbatim>\<open>a[i][j]\<close>, a pipe) nested to the right by
  the parser becomes the chain nested to the left over the same operands; every node of it has the
  first operator's members.
\<close>

theorem fixPrecedence_left_chain:
  assumes "chain_ok ty ((x, a) # xs)" and "atom z"
  shows "fixPrecedence (spine ((x, a) # xs) z) = left_nest a x (map fst xs @ [z])"
  unfolding fixPrecedence_def by (rule fix_prec_chain [OF assms])

lemma fixPrecedence_left_chain_witness:
  "let a = name_node ''a''; b = name_node ''b''; c = name_node ''c''; dot = named Member_Access ''.'' in
   fixPrecedence (Node dot [a, Node dot [b, c] []] []) = Node dot [Node dot [a, b] [], c] []"
  using fixPrecedence_left_chain [of Member_Access "name_node ''a''" "named Member_Access ''.''"
      "[(name_node ''b'', named Member_Access ''.'')]" "name_node ''c''"]
  by (simp add: chain_ok_def left_op_def named_def leftAssociativeOperators_def left_nest_def Let_def)

text \<open>Minus and divide are not in \<open>leftAssociativeOperators\<close>, and the rotations keep operators of one
  precedence as they are: \<open>a - b - c\<close> stays \<open>a - (b - c)\<close> and \<open>a / b * c\<close> stays \<open>a / (b * c)\<close>.\<close>

lemma minus_associates_right:
  "let a = name_node ''a''; b = name_node ''b''; c = name_node ''c'';
       minus = named Expression_Minus ''-''; times = named Expression_Times ''*'';
       divide = named Expression_Divide ''/'' in
   fixPrecedence (Node minus [a, Node minus [b, c] []] []) = Node minus [a, Node minus [b, c] []] []
   \<and> fixPrecedence (Node divide [a, Node times [b, c] []] []) = Node divide [a, Node times [b, c] []] []"
  by code_simp

text \<open>\<open>a[i].x\<close>, which the parser nests as an access whose index is \<open>i.x\<close>, stays so.\<close>

lemma member_of_element_misplaced:
  "let a = name_node ''a''; i = name_node ''i''; x = name_node ''x'';
       at = named Access_Operation ''['' ; dot = named Member_Access ''.'' in
   fixPrecedence (Node at [a, Node dot [i, x] []] []) = Node at [a, Node dot [i, x] []] []"
  by code_simp

end
