(* ===== verification/Std_String.thy ===== *)
theory Std_String
  imports Tokens
begin

text \<open>
  What the program uses of \<open>std::string\<close> and of the conversions of the standard library:
  \<open>find\<close>, \<open>substr\<close>, \<open>insert\<close>, \<open>std::to_string\<close> of an integer, \<open>std::stoi\<close>, and the character
  classes of the C locale. Positions are \<open>nat\<close>; \<open>npos\<close> is \<open>None\<close>.
\<close>

section \<open>Searching and cutting\<close>

fun find_in :: "string \<Rightarrow> string \<Rightarrow> nat \<Rightarrow> nat option" where
  "find_in pat [] k = (if pat = [] then Some k else None)"
| "find_in pat (c # s) k = (if prefix pat (c # s) then Some k else find_in pat s (k + 1))"

definition str_find :: "string \<Rightarrow> string \<Rightarrow> nat \<Rightarrow> nat option" where
  "str_find s pat i = (if i \<le> length s then find_in pat (drop i s) i else None)"

definition substr :: "string \<Rightarrow> nat \<Rightarrow> nat \<Rightarrow> string outcome" where
  "substr s pos n = (if pos \<le> length s then Inr (take n (drop pos s)) else Inl (Thrown ''out_of_range''))"

definition substr_from :: "string \<Rightarrow> nat \<Rightarrow> string outcome" where
  "substr_from s pos = (if pos \<le> length s then Inr (drop pos s) else Inl (Thrown ''out_of_range''))"

definition str_insert :: "nat \<Rightarrow> string \<Rightarrow> string \<Rightarrow> string outcome" where
  "str_insert pos x s = (if pos \<le> length s then Inr (take pos s @ x @ drop pos s) else Inl (Thrown ''out_of_range''))"

lemma find_in_Some: "find_in pat s k = Some e \<Longrightarrow> k \<le> e \<and> e \<le> k + length s \<and> prefix pat (drop (e - k) s)"
proof (induction pat s k rule: find_in.induct)
  case (2 pat c s k)
  show ?case
  proof (cases "prefix pat (c # s)")
    case True
    then show ?thesis using 2 by simp
  next
    case False
    with 2 have "k + 1 \<le> e" "e \<le> k + 1 + length s" "prefix pat (drop (e - (k + 1)) s)" by auto
    moreover have "e - k = Suc (e - (k + 1))" using \<open>k + 1 \<le> e\<close> by simp
    ultimately show ?thesis by simp
  qed
qed (auto split: if_splits)

lemma find_in_None: "find_in pat s k = None \<longleftrightarrow> \<not> sublist pat s"
  by (induction pat s k rule: find_in.induct) (auto simp: sublist_Cons_right)

lemma find_in_first: "find_in pat s k = Some e \<Longrightarrow> j < e - k \<Longrightarrow> \<not> prefix pat (drop j s)"
proof (induction pat s k arbitrary: j rule: find_in.induct)
  case (2 pat c s k)
  then have "\<not> prefix pat (c # s)" and rest: "find_in pat s (k + 1) = Some e"
    by (auto split: if_splits)
  then show ?case using 2 by (cases j) auto
qed (auto split: if_splits)

lemma str_find_Some: "str_find s pat i = Some e \<Longrightarrow> i \<le> e \<and> e + length pat \<le> length s \<and> prefix pat (drop e s)"
proof -
  assume "str_find s pat i = Some e"
  then have "i \<le> length s" "find_in pat (drop i s) i = Some e" by (auto simp: str_find_def split: if_splits)
  with find_in_Some [of pat "drop i s" i e] have "i \<le> e" "e \<le> length s" "prefix pat (drop e s)" by auto
  then show ?thesis using prefix_length_le [of pat "drop e s"] by simp
qed

lemma str_find_None: "i \<le> length s \<Longrightarrow> str_find s pat i = None \<longleftrightarrow> \<not> sublist pat (drop i s)"
  by (simp add: str_find_def find_in_None)

section \<open>Integers in decimal\<close>

definition digit_char :: "nat \<Rightarrow> char" where
  "digit_char d = char_of (48 + d)"

fun nat_str :: "nat \<Rightarrow> string" where
  "nat_str n = (if n < 10 then [digit_char n] else nat_str (n div 10) @ [digit_char (n mod 10)])"

declare nat_str.simps [simp del]

definition to_string :: "int \<Rightarrow> string" where
  "to_string i = (if i < 0 then CHR ''-'' # nat_str (nat (- i)) else nat_str (nat i))"

definition is_digit :: "char \<Rightarrow> bool" where
  "is_digit c \<longleftrightarrow> 48 \<le> (of_char c :: nat) \<and> (of_char c :: nat) \<le> 57"

definition digit_val :: "char \<Rightarrow> nat" where
  "digit_val c = of_char c - 48"

definition dec_value :: "string \<Rightarrow> nat" where
  "dec_value s = foldl (\<lambda>v c. 10 * v + digit_val c) 0 s"

definition is_space :: "char \<Rightarrow> bool" where
  "is_space c \<longleftrightarrow> c = CHR '' '' \<or> (9 \<le> (of_char c :: nat) \<and> (of_char c :: nat) \<le> 13)"

definition is_int32 :: "int \<Rightarrow> bool" where
  "is_int32 i \<longleftrightarrow> - (2 ^ 31) \<le> i \<and> i < 2 ^ 31"

text \<open>C division truncates towards zero.\<close>

definition cdiv :: "int \<Rightarrow> int \<Rightarrow> int" where
  "cdiv a b = (if (a < 0) = (b < 0) then \<bar>a\<bar> div \<bar>b\<bar> else - (\<bar>a\<bar> div \<bar>b\<bar>))"

definition cmod :: "int \<Rightarrow> int \<Rightarrow> int" where
  "cmod a b = a - cdiv a b * b"

lemma cdiv_nonneg [simp]: "0 \<le> a \<Longrightarrow> 0 < b \<Longrightarrow> cdiv a b = a div b" "0 \<le> a \<Longrightarrow> 0 < b \<Longrightarrow> cmod a b = a mod b"
  by (simp_all add: cdiv_def cmod_def minus_div_mult_eq_mod)

text \<open>\<open>std::stoi\<close>: \<open>strtol\<close> in base 10, and an exception when no digit is read or the value is not an
  \<open>int\<close>. What follows the digits is ignored.\<close>

definition stoi :: "string \<Rightarrow> int outcome" where
  "stoi s =
     (let s = dropWhile is_space s;
          neg = (case s of c # _ \<Rightarrow> c = CHR ''-'' | [] \<Rightarrow> False);
          body = (case s of c # r \<Rightarrow> if c = CHR ''-'' \<or> c = CHR ''+'' then r else s | [] \<Rightarrow> s);
          ds = takeWhile is_digit body;
          v = (if neg then - int (dec_value ds) else int (dec_value ds))
      in if ds = [] then Inl (Thrown ''invalid_argument'')
         else if is_int32 v then Inr v else Inl (Thrown ''out_of_range''))"

lemma digit_char_digit [simp]: "d < 10 \<Longrightarrow> is_digit (digit_char d)" "d < 10 \<Longrightarrow> digit_val (digit_char d) = d"
  by (simp_all add: is_digit_def digit_char_def digit_val_def)

lemma nat_str_digits: "list_all is_digit (nat_str n)"
  by (induction n rule: nat_str.induct) (subst nat_str.simps, simp)

lemma nat_str_not_Nil [simp]: "nat_str n \<noteq> []"
  by (subst nat_str.simps) simp

lemma dec_value_snoc [simp]: "dec_value (s @ [c]) = 10 * dec_value s + digit_val c"
  by (simp add: dec_value_def)

lemma dec_value_nat_str [simp]: "dec_value (nat_str n) = n"
proof (induction n rule: nat_str.induct)
  case (1 n)
  show ?case
  proof (cases "n < 10")
    case True
    then show ?thesis by (subst nat_str.simps) (simp add: dec_value_def)
  next
    case False
    with 1 show ?thesis by (subst nat_str.simps) simp
  qed
qed

lemma digit_plain: "is_digit c \<Longrightarrow> \<not> is_space c \<and> c \<noteq> CHR ''-'' \<and> c \<noteq> CHR ''+''"
  by (auto simp: is_digit_def is_space_def)

lemma nat_str_head: "\<exists>c r. nat_str n = c # r \<and> is_digit c"
  using nat_str_digits [of n] nat_str_not_Nil [of n] by (cases "nat_str n") auto

lemma takeWhile_digits: "takeWhile is_digit (nat_str n) = nat_str n"
  using nat_str_digits [of n] by (simp add: takeWhile_eq_all_conv list_all_iff)

lemma stoi_nat_str:
  assumes "int n < 2 ^ 31"
  shows "stoi (nat_str n) = Inr (int n)"
proof -
  obtain c r where s: "nat_str n = c # r" "is_digit c" using nat_str_head by blast
  then have "dropWhile is_space (nat_str n) = nat_str n" "c \<noteq> CHR ''-''" "c \<noteq> CHR ''+''"
    using digit_plain [of c] by simp_all
  moreover have "takeWhile is_digit r = r" "dec_value (c # r) = n"
    using s takeWhile_digits [of n] dec_value_nat_str [of n] by (simp_all del: takeWhile_eq_all_conv)
  moreover have "is_int32 (int n)" using assms by (simp add: is_int32_def)
  ultimately show ?thesis
    using s unfolding stoi_def Let_def by (simp del: takeWhile_eq_all_conv)
qed

lemma stoi_minus:
  assumes "int n \<le> 2 ^ 31"
  shows "stoi (CHR ''-'' # nat_str n) = Inr (- int n)"
proof -
  have "is_int32 (- int n)" using assms by (simp add: is_int32_def)
  then show ?thesis by (simp add: stoi_def is_space_def takeWhile_digits Let_def)
qed

theorem stoi_to_string: "is_int32 i \<Longrightarrow> stoi (to_string i) = Inr i"
  using stoi_nat_str [of "nat i"] stoi_minus [of "nat (- i)"]
  by (cases "i < 0") (simp_all add: to_string_def is_int32_def)

lemma to_string_inj: "is_int32 i \<Longrightarrow> is_int32 j \<Longrightarrow> to_string i = to_string j \<Longrightarrow> i = j"
  by (metis stoi_to_string sum.inject(2))

section \<open>Letters\<close>

definition char_upper :: "char \<Rightarrow> char" where
  "char_upper c = (if 97 \<le> (of_char c :: nat) \<and> (of_char c :: nat) \<le> 122 then char_of (of_char c - 32 :: nat) else c)"

definition char_lower :: "char \<Rightarrow> char" where
  "char_lower c = (if 65 \<le> (of_char c :: nat) \<and> (of_char c :: nat) \<le> 90 then char_of (of_char c + 32 :: nat) else c)"

lemma char_lower_upper [simp]: "char_lower (char_upper c) = char_lower c"
  by (auto simp: char_lower_def char_upper_def)

lemma char_upper_upper [simp]: "char_upper (char_upper c) = char_upper c"
  by (auto simp: char_upper_def)

end
