(* ===== verification/Strops.thy ===== *)
theory Strops
  imports Std_String
begin

text \<open>
  The string helpers of \<^verbatim>\<open>src/src/strops.cpp\<close>: splitting and joining, grouping digits, padding,
  trimming, case, prefixes. A loop that may not end is a \<open>partial_function (option)\<close>, where \<open>None\<close>
  is not returning.
\<close>

section \<open>Splitting and joining\<close>

text \<open>The loop of \<open>SplitString\<close> and \<open>SplitGetLastAfterChar\<close>: pieces so far and the start index.\<close>

partial_function (option) split_loop :: "string \<Rightarrow> string \<Rightarrow> nat \<Rightarrow> string list \<Rightarrow> (string list \<times> nat) option" where
  [code]: "split_loop str delim startIndex acc =
     (case str_find str delim startIndex of
        None \<Rightarrow> Some (acc, startIndex)
      | Some endIndex \<Rightarrow>
          if endIndex < length str
          then split_loop str delim (endIndex + length delim)
                 (acc @ [take (endIndex - startIndex) (drop startIndex str)])
          else Some (acc, startIndex))"

definition SplitString :: "string \<Rightarrow> string \<Rightarrow> string list option" where
  "SplitString str delim =
     (case split_loop str delim 0 [] of
        None \<Rightarrow> None
      | Some (acc, startIndex) \<Rightarrow> Some (if startIndex < length str then acc @ [drop startIndex str] else acc))"

definition SplitGetLastAfterChar :: "string \<Rightarrow> string \<Rightarrow> string option" where
  "SplitGetLastAfterChar str delim =
     (case split_loop str delim 0 [] of
        None \<Rightarrow> None
      | Some (acc, startIndex) \<Rightarrow> Some (if startIndex < length str then drop startIndex str else []))"

definition JoinArrayPieces :: "string list \<Rightarrow> string" where
  "JoinArrayPieces input = foldl (\<lambda>outStr s. outStr @ s) [] input"

lemma JoinArrayPieces_concat: "JoinArrayPieces input = concat input"
proof -
  have "foldl (\<lambda>outStr s. outStr @ s) acc input = acc @ concat input" for acc
    by (induction input arbitrary: acc) simp_all
  then show ?thesis by (simp add: JoinArrayPieces_def)
qed

definition with_delim :: "string \<Rightarrow> string list \<Rightarrow> string" where
  "with_delim delim acc = concat (map (\<lambda>p. p @ delim) acc)"

lemma with_delim_simps [simp]:
  "with_delim delim [] = []" "with_delim delim (acc @ [p]) = with_delim delim acc @ p @ delim"
  by (simp_all add: with_delim_def)

lemma split_loop_ends:
  "delim \<noteq> [] \<Longrightarrow> k \<le> length str \<Longrightarrow> with_delim delim acc = take k str \<Longrightarrow> list_all (\<lambda>p. \<not> sublist delim p) acc \<Longrightarrow>
   \<exists>acc' k'. split_loop str delim k acc = Some (acc', k') \<and> k' \<le> length str
     \<and> with_delim delim acc' = take k' str \<and> list_all (\<lambda>p. \<not> sublist delim p) acc'
     \<and> \<not> sublist delim (drop k' str)"
proof (induction "length str - k" arbitrary: k acc rule: less_induct)
  case less
  show ?case
  proof (cases "str_find str delim k")
    case None
    moreover have "\<not> sublist delim (drop k str)"
      using None str_find_None [OF less.prems(2)] by simp
    ultimately show ?thesis
      using less.prems by (subst split_loop.simps) simp
  next
    case (Some e)
    from str_find_Some [OF this] have e: "k \<le> e" "e + length delim \<le> length str" "prefix delim (drop e str)" by auto
    let ?p = "take (e - k) (drop k str)"
    have "\<not> sublist delim ?p"
    proof
      assume "sublist delim ?p"
      then obtain u v where uv: "?p = u @ delim @ v" by (auto simp: sublist_def)
      have fi: "find_in delim (drop k str) k = Some e"
        using Some less.prems(2) by (simp add: str_find_def)
      have "length ?p = e - k" using e by simp
      then have "length u < e - k" using uv less.prems(1) by (cases delim) auto
      moreover have "prefix delim (drop (length u) (drop k str))"
      proof -
        have "drop k str = (u @ delim @ v) @ drop (e - k) (drop k str)"
          unfolding uv [symmetric] by (rule append_take_drop_id [symmetric])
        then have "drop (length u) (drop k str) = delim @ v @ drop (e - k) (drop k str)"
          by (metis append.assoc append_eq_conv_conj)
        then show ?thesis by simp
      qed
      ultimately show False using find_in_first [OF fi] by blast
    qed
    moreover have "take (e + length delim) str = take k str @ ?p @ delim"
    proof -
      obtain r where r: "drop e str = delim @ r" using e(3) by (auto simp: prefix_def)
      have "take (e + length delim) str = take e str @ take (length delim) (drop e str)"
        by (rule take_add)
      moreover have "take e str = take k str @ ?p"
        using e(1) take_add [of k "e - k" str] by simp
      ultimately show ?thesis using r by simp
    qed
    moreover have short: "k < e + length delim" "e < length str" using e(1,2) less.prems(1) by (cases delim; simp)+
    ultimately have "\<exists>acc' k'. split_loop str delim (e + length delim) (acc @ [?p]) = Some (acc', k') \<and> k' \<le> length str
       \<and> with_delim delim acc' = take k' str \<and> list_all (\<lambda>p. \<not> sublist delim p) acc' \<and> \<not> sublist delim (drop k' str)"
      using less.prems e by (intro less.hyps) (auto simp: less_diff_conv2)
    then show ?thesis
      using Some short by (subst split_loop.simps) simp
  qed
qed

text \<open>
  C36. With a delimiter that is not empty, \<open>SplitString\<close> returns, and gluing its pieces back with
  the delimiter gives the string; only a trailing empty piece is left out. No piece has the delimiter
  in it.
\<close>

theorem SplitString_pieces:
  assumes "delim \<noteq> []"
  shows "\<exists>ps. SplitString str delim = Some ps \<and> list_all (\<lambda>p. \<not> sublist delim p) ps
    \<and> (str = with_delim delim ps \<or> (\<exists>qs q. ps = qs @ [q] \<and> q \<noteq> [] \<and> str = with_delim delim qs @ q))"
proof -
  obtain acc k where s: "split_loop str delim 0 [] = Some (acc, k)" "k \<le> length str"
      "with_delim delim acc = take k str" "list_all (\<lambda>p. \<not> sublist delim p) acc" "\<not> sublist delim (drop k str)"
    using split_loop_ends [of delim 0 str "[]"] assms by auto
  show ?thesis
  proof (cases "k < length str")
    case True
    then have "drop k str \<noteq> []" "str = with_delim delim acc @ drop k str" using s by simp_all
    with s True show ?thesis by (auto simp: SplitString_def)
  next
    case False
    with s show ?thesis by (simp add: SplitString_def)
  qed
qed

lemma SplitString_pieces_witness:
  "\<exists>ps. SplitString ''main.asa'' ''.'' = Some ps \<and> list_all (\<lambda>p. \<not> sublist ''.'' p) ps
    \<and> (''main.asa'' = with_delim ''.'' ps \<or> (\<exists>qs q. ps = qs @ [q] \<and> q \<noteq> [] \<and> ''main.asa'' = with_delim ''.'' qs @ q))"
  by (rule SplitString_pieces) simp

lemma split_loop_unfold:
  "split_loop ''main.asa'' ''.'' 0 [] = Some ([''main''], 5)"
  by (subst split_loop.simps, simp add: str_find_def, subst split_loop.simps, simp add: str_find_def)

lemma SplitString_example: "SplitString ''main.asa'' ''.'' = Some [''main'', ''asa'']"
  by (simp add: SplitString_def split_loop_unfold)

text \<open>With the empty delimiter the start index does not move, and the loop does not end.\<close>

lemma split_loop_stuck:
  assumes "split_loop str delim k acc = Some y"
  shows "\<not> (delim = [] \<and> k < length str)"
proof (rule split_loop.raw_induct [where P = "\<lambda>str delim k acc y. \<not> (delim = [] \<and> k < length str)", OF _ assms])
  fix loop :: "string \<Rightarrow> string \<Rightarrow> nat \<Rightarrow> string list \<Rightarrow> (string list \<times> nat) option" and str delim k acc y
  assume IH: "\<And>str delim k acc y. loop str delim k acc = Some y \<Longrightarrow> \<not> (delim = [] \<and> k < length str)"
    and body: "(case str_find str delim k of None \<Rightarrow> Some (acc, k)
      | Some endIndex \<Rightarrow>
          if endIndex < length str
          then loop str delim (endIndex + length delim) (acc @ [take (endIndex - k) (drop k str)])
          else Some (acc, k)) = Some y"
  show "\<not> (delim = [] \<and> k < length str)"
  proof
    assume a: "delim = [] \<and> k < length str"
    then have "str_find str delim k = Some k"
      by (cases "drop k str") (simp_all add: str_find_def)
    with body a have "loop str delim k (acc @ [[]]) = Some y" by simp
    with IH a show False by blast
  qed
qed

lemma SplitString_empty_delim: "str \<noteq> [] \<Longrightarrow> SplitString str [] = None"
  using split_loop_stuck [of str "[]" 0 "[]"] by (cases "split_loop str [] 0 []") (auto simp: SplitString_def)

section \<open>Grouping digits\<close>

text \<open>\<open>CommaLargeNumber(long)\<close>: the position is a \<open>long\<close> and can become negative.\<close>

function comma_loop :: "int \<Rightarrow> int \<Rightarrow> string \<Rightarrow> string outcome" where
  "comma_loop fin n s =
     (if fin < n
      then rbind (str_insert (nat n) '','' s) (\<lambda>s. comma_loop fin (n - 3) s)
      else Inr s)"
  by pat_completeness auto

termination
  by (relation "measure (\<lambda>(fin, n, s). nat (n - fin))") auto

declare comma_loop.simps [simp del]

definition CommaLargeNumber_long :: "int \<Rightarrow> string outcome" where
  "CommaLargeNumber_long v =
     (let s = to_string v in comma_loop (if 0 \<le> v then 0 else 1) (int (length s) - 3) s)"

text \<open>\<open>CommaLargeNumber(unsigned long long)\<close>: the position is a 64-bit word and wraps around.\<close>

partial_function (option) comma_loop_u :: "64 word \<Rightarrow> string \<Rightarrow> string outcome option" where
  [code]: "comma_loop_u n s =
     (if 0 < n
      then (case str_insert (unat n) '','' s of Inl e \<Rightarrow> Some (Inl e) | Inr s \<Rightarrow> comma_loop_u (n - 3) s)
      else Some (Inr s))"

definition CommaLargeNumber_ull :: "64 word \<Rightarrow> string outcome option" where
  "CommaLargeNumber_ull v = (let s = nat_str (unat v) in comma_loop_u (of_nat (length s) - 3) s)"

text \<open>Digits in groups of three, counted from the right.\<close>

fun grouped :: "string \<Rightarrow> string" where
  "grouped ds = (if length ds \<le> 3 then ds
     else grouped (take (length ds - 3) ds) @ '','' @ drop (length ds - 3) ds)"

declare grouped.simps [simp del]

text \<open>The loop inserts from the right, the reference from the left: \<open>rest\<close> is already grouped.\<close>

lemma comma_loop_grouped:
  "pre = length pfx \<Longrightarrow> ds \<noteq> [] \<Longrightarrow>
   comma_loop (int pre) (int (pre + length ds) - 3) (pfx @ ds @ rest) = Inr (pfx @ grouped ds @ rest)"
proof (induction ds arbitrary: rest rule: grouped.induct)
  case (1 ds)
  show ?case
  proof (cases "length ds \<le> 3")
    case True
    then show ?thesis by (subst comma_loop.simps, subst grouped.simps) simp
  next
    case False
    let ?n = "length ds - 3"
    let ?d = "take ?n ds" and ?r = "drop ?n ds"
    have n: "nat (int (pre + length ds) - 3) = pre + ?n" "int (pre + length ds) - 3 = int (pre + length ?d)"
      using False by simp_all
    have "str_insert (pre + ?n) '','' (pfx @ ds @ rest) = Inr (pfx @ ?d @ ('','' @ ?r @ rest))"
      using 1(2) False by (simp add: str_insert_def)
    moreover have "?d \<noteq> []" using False by auto
    moreover have "int pre < int (pre + length ds) - 3" using False by simp
    ultimately show ?thesis
      using 1(1) [OF False 1(2), of "'','' @ ?r @ rest"] n
      by (subst comma_loop.simps, subst grouped.simps) simp
  qed
qed

text \<open>
  On every \<open>long\<close>, \<open>CommaLargeNumber\<close> returns the sign followed by the digits in groups of
  three from the right.
\<close>

theorem CommaLargeNumber_long_grouped:
  "CommaLargeNumber_long v =
     Inr (if v < 0 then CHR ''-'' # grouped (nat_str (nat (- v))) else grouped (nat_str (nat v)))"
  using comma_loop_grouped [of 0 "[]" "nat_str (nat v)" "[]"]
    comma_loop_grouped [of 1 "''-''" "nat_str (nat (- v))" "[]"]
  by (simp add: CommaLargeNumber_long_def to_string_def Let_def)

lemma wrapped:
  "unat (- 2 :: 64 word) = 2 ^ 64 - 2" "unat (- 1 :: 64 word) = 2 ^ 64 - 1"
  "0 < (- 2 :: 64 word)" "0 < (- 1 :: 64 word)"
proof -
  have m2: "(- 2 :: 64 word) = 18446744073709551614" and m1: "(- 1 :: 64 word) = 18446744073709551615"
    by simp_all
  show u: "unat (- 2 :: 64 word) = 2 ^ 64 - 2" "unat (- 1 :: 64 word) = 2 ^ 64 - 1"
    unfolding m2 m1 by simp_all
  show "0 < (- 2 :: 64 word)" "0 < (- 1 :: 64 word)"
    by (simp_all add: word_less_nat_alt u)
qed

lemma comma_loop_u_grouped:
  "ds \<noteq> [] \<Longrightarrow> 2 * length ds + length rest < 2 ^ 63 \<Longrightarrow>
   comma_loop_u (of_nat (length ds) - 3) (ds @ rest) =
     Some (if 3 dvd length ds then Inr (grouped ds @ rest) else Inl (Thrown ''out_of_range''))"
proof (induction ds arbitrary: rest rule: grouped.induct)
  case step: (1 ds)
  consider "length ds = 1" | "length ds = 2" | "length ds = 3" | "3 < length ds"
    using step(2) by (cases "length ds") force+
  then show ?case
  proof cases
    case 4
    let ?n = "length ds - 3"
    let ?d = "take ?n ds" and ?r = "drop ?n ds"
    have n: "of_nat (length ds) - 3 = (of_nat ?n :: 64 word)" using 4 by simp
    have u: "unat (of_nat ?n :: 64 word) = ?n" using step(3) by (simp add: unsigned_of_nat take_bit_nat_eq_self)
    have pos: "0 < (of_nat ?n :: 64 word)" using u 4 by (simp add: word_less_nat_alt)
    have ins: "str_insert ?n '','' (ds @ rest) = Inr (?d @ ('','' @ ?r @ rest))"
      by (simp add: str_insert_def)
    have "comma_loop_u (of_nat (length ?d) - 3) (?d @ ('','' @ ?r @ rest)) =
        Some (if 3 dvd length ?d then Inr (grouped ?d @ ('','' @ ?r @ rest)) else Inl (Thrown ''out_of_range''))"
      using 4 step(2,3) by (intro step(1)) auto
    moreover have "length ?d = ?n" by simp
    moreover have "3 dvd length ds \<longleftrightarrow> 3 dvd ?n" using 4 by presburger
    moreover have "grouped ds = grouped ?d @ '','' @ ?r" using 4 by (subst grouped.simps) simp
    ultimately show ?thesis
      using pos ins u by (subst comma_loop_u.simps) (simp add: n)
  next
    case 1
    then show ?thesis using step(3) wrapped by (subst comma_loop_u.simps) (simp add: str_insert_def)
  next
    case 2
    then show ?thesis using step(3) wrapped by (subst comma_loop_u.simps) (simp add: str_insert_def)
  next
    case 3
    then show ?thesis by (subst comma_loop_u.simps) (simp add: grouped.simps [of ds])
  qed
qed

lemma length_nat_str: "0 < k \<Longrightarrow> n < 10 ^ k \<Longrightarrow> length (nat_str n) \<le> k"
proof (induction n arbitrary: k rule: nat_str.induct)
  case (1 n)
  show ?case
  proof (cases "n < 10")
    case True
    then show ?thesis using 1(2) by (subst nat_str.simps) simp
  next
    case False
    then obtain m where k: "k = Suc m" "0 < m" using 1(2,3) by (cases k; cases "k = 1") auto
    then have "n div 10 < 10 ^ m" using 1(3) by (simp add: less_mult_imp_div_less mult.commute)
    with 1(1) False k show ?thesis by (subst nat_str.simps) simp
  qed
qed

text \<open>
  The unsigned version works only when the number of digits is a multiple of three: otherwise
  the position wraps around below zero, and \<open>insert\<close> throws.
\<close>

theorem CommaLargeNumber_ull_grouped:
  "CommaLargeNumber_ull v =
     Some (if 3 dvd length (nat_str (unat v)) then Inr (grouped (nat_str (unat v)))
           else Inl (Thrown ''out_of_range''))"
proof -
  have "unat v < 10 ^ 20" using unsigned_less [of v, where ?'a = nat] by simp
  then have "length (nat_str (unat v)) \<le> 20" by (intro length_nat_str) simp_all
  then show ?thesis
    using comma_loop_u_grouped [of "nat_str (unat v)" "[]"] by (simp add: CommaLargeNumber_ull_def Let_def)
qed

section \<open>Padding\<close>

function PadString :: "string \<Rightarrow> char \<Rightarrow> nat \<Rightarrow> string" where
  "PadString result padChar desiredLength =
     (if length result < desiredLength then PadString (padChar # result) padChar desiredLength else result)"
  by pat_completeness auto

termination
  by (relation "measure (\<lambda>(s, _, n). n - length s)") auto

function PadStringRight :: "string \<Rightarrow> char \<Rightarrow> nat \<Rightarrow> string" where
  "PadStringRight result padChar desiredLength =
     (if length result < desiredLength then PadStringRight (result @ [padChar]) padChar desiredLength else result)"
  by pat_completeness auto

termination
  by (relation "measure (\<lambda>(s, _, n). n - length s)") auto

fun ExtractPaddedChars :: "string \<Rightarrow> char \<Rightarrow> string" where
  "ExtractPaddedChars [] padChar = []"
| "ExtractPaddedChars (c # s) padChar = (if c = padChar then c # ExtractPaddedChars s padChar else [])"

declare PadString.simps [simp del] PadStringRight.simps [simp del]

lemma PadString_replicate: "PadString s c n = replicate (n - length s) c @ s"
proof (induction s c n rule: PadString.induct)
  case (1 s c n)
  show ?case
  proof (cases "length s < n")
    case True
    then have "n - length s = Suc (n - Suc (length s))" by simp
    with True 1 show ?thesis by (subst PadString.simps) (simp add: replicate_app_Cons_same)
  next
    case False
    then show ?thesis by (subst PadString.simps) simp
  qed
qed

lemma PadStringRight_replicate: "PadStringRight s c n = s @ replicate (n - length s) c"
proof (induction s c n rule: PadStringRight.induct)
  case (1 s c n)
  show ?case
  proof (cases "length s < n")
    case True
    then have "n - length s = Suc (n - Suc (length s))" by simp
    with True 1 show ?thesis by (subst PadStringRight.simps) simp
  next
    case False
    then show ?thesis by (subst PadStringRight.simps) simp
  qed
qed

lemma ExtractPaddedChars_takeWhile: "ExtractPaddedChars s c = takeWhile (\<lambda>d. d = c) s"
  by (induction s) auto

text \<open>
  Padding on the left and reading the padding back are inverse: for a string that does not start
  with the padding character, \<open>ExtractPaddedChars\<close> after \<open>PadString\<close> returns the added characters, and
  what follows them is the string; a string that is long enough is not cut.
\<close>

theorem PadString_ExtractPaddedChars:
  assumes "s = [] \<or> hd s \<noteq> c"
  shows "ExtractPaddedChars (PadString s c n) c @ s = PadString s c n
    \<and> length (PadString s c n) = max n (length s)"
  using assms by (cases s) (auto simp: ExtractPaddedChars_takeWhile PadString_replicate takeWhile_append)

lemma PadString_ExtractPaddedChars_witness:
  "ExtractPaddedChars (PadString ''42'' CHR ''0'' 5) CHR ''0'' @ ''42'' = PadString ''42'' CHR ''0'' 5
    \<and> length (PadString ''42'' CHR ''0'' 5) = max 5 (length ''42'')"
  by (rule PadString_ExtractPaddedChars) simp

section \<open>Searching, trimming, case\<close>

text \<open>Both versions; the second looks for one character.\<close>

definition StringContains :: "string \<Rightarrow> string \<Rightarrow> bool" where
  "StringContains str check = (case str_find str check 0 of Some p \<Rightarrow> p < length str | None \<Rightarrow> False)"

definition StringContains_char :: "string \<Rightarrow> char \<Rightarrow> bool" where
  "StringContains_char str check = StringContains str [check]"

lemma StringContains_sublist: "check \<noteq> [] \<Longrightarrow> StringContains str check \<longleftrightarrow> sublist check str"
  using str_find_None [of 0 str check] str_find_Some [of str check 0]
  by (cases "str_find str check 0"; cases check) (auto simp: StringContains_def)

definition ltrim :: "string \<Rightarrow> string" where
  "ltrim s = dropWhile is_space s"

definition rtrim :: "string \<Rightarrow> string" where
  "rtrim s = rev (dropWhile is_space (rev s))"

definition TrimString :: "string \<Rightarrow> string" where
  "TrimString s = rtrim (ltrim s)"

definition ToUpper :: "string \<Rightarrow> string" where
  "ToUpper s = map char_upper s"

definition ToLower :: "string \<Rightarrow> string" where
  "ToLower s = map char_lower s"

lemma ToLower_ToUpper: "ToLower (ToUpper s) = ToLower s"
  by (simp add: ToLower_def ToUpper_def)

lemma dropWhile_head: "dropWhile P s = [] \<or> \<not> P (hd (dropWhile P s))"
  by (induction s) auto

lemma rtrim_split: "\<exists>b. s = rtrim s @ b \<and> list_all is_space b"
proof (intro exI conjI)
  show "s = rtrim s @ rev (takeWhile is_space (rev s))"
    unfolding rtrim_def rev_append [symmetric] by simp
  show "list_all is_space (rev (takeWhile is_space (rev s)))"
    by (simp add: list_all_iff) (meson set_takeWhileD)
qed

lemma ltrim_split: "\<exists>a. s = a @ ltrim s \<and> list_all is_space a"
proof (intro exI conjI)
  show "s = takeWhile is_space s @ ltrim s" by (simp add: ltrim_def)
  show "list_all is_space (takeWhile is_space s)"
    by (simp add: list_all_iff) (meson set_takeWhileD)
qed

text \<open>
  \<open>TrimString\<close> takes white space from both ends and nothing else: the rest is a contiguous part
  of the string that neither starts nor ends with white space.
\<close>

theorem TrimString_trims:
  "(\<exists>a b. s = a @ TrimString s @ b \<and> list_all is_space a \<and> list_all is_space b)
   \<and> (if TrimString s = [] then True else \<not> is_space (hd (TrimString s)) \<and> \<not> is_space (last (TrimString s)))"
proof -
  obtain a where a: "s = a @ ltrim s" "list_all is_space a" using ltrim_split by blast
  obtain b where b: "ltrim s = TrimString s @ b" "list_all is_space b"
    using rtrim_split [of "ltrim s"] by (auto simp: TrimString_def)
  have "\<not> is_space (last (TrimString s))" if "TrimString s \<noteq> []"
    using that dropWhile_head [of is_space "rev (ltrim s)"]
    by (simp add: TrimString_def rtrim_def last_rev del: dropWhile_eq_Nil_conv)
  moreover have "\<not> is_space (hd (TrimString s))" if "TrimString s \<noteq> []"
  proof -
    have "hd (ltrim s) = hd (TrimString s)" "ltrim s \<noteq> []" using that b(1) by auto
    then show ?thesis using dropWhile_head [of is_space s] by (simp add: ltrim_def del: dropWhile_eq_Nil_conv)
  qed
  moreover have "\<exists>a b. s = a @ TrimString s @ b \<and> list_all is_space a \<and> list_all is_space b"
    using a b by metis
  ultimately show ?thesis by simp
qed

text \<open>\<open>str[i]\<close> of a \<open>std::string\<close> is the zero byte at the end and undefined past it.\<close>

definition str_at :: "string \<Rightarrow> nat \<Rightarrow> char outcome" where
  "str_at s i = (if i < length s then Inr (s ! i) else if i = length s then Inr (char_of (0::nat))
     else Inl Undefined_Behaviour)"

function starts_loop :: "string \<Rightarrow> string \<Rightarrow> nat \<Rightarrow> bool outcome" where
  "starts_loop str sub i =
     (if i < length sub
      then rbind (str_at str i) (\<lambda>c. if c \<noteq> sub ! i then Inr False else starts_loop str sub (i + 1))
      else Inr True)"
  by pat_completeness auto

termination
  by (relation "measure (\<lambda>(str, sub, i). length sub - i)") auto

declare starts_loop.simps [simp del]

definition StringStartsWith :: "string \<Rightarrow> string \<Rightarrow> bool outcome" where
  "StringStartsWith str sub = starts_loop str sub 0"

lemma starts_loop_prefix:
  "char_of (0::nat) \<notin> set sub \<Longrightarrow> i \<le> length str \<Longrightarrow> i \<le> length sub \<Longrightarrow>
   starts_loop str sub i = Inr (prefix (drop i sub) (drop i str))"
proof (induction str sub i rule: starts_loop.induct)
  case (1 str sub i)
  show ?case
  proof (cases "i < length sub")
    case True
    have sub: "drop i sub = sub ! i # drop (Suc i) sub" using True by (rule drop_nth)
    show ?thesis
    proof (cases "i < length str")
      case in_str: True
      then have "drop i str = str ! i # drop (Suc i) str" by (rule drop_nth)
      moreover have "starts_loop str sub (Suc i) = Inr (prefix (drop (Suc i) sub) (drop (Suc i) str))"
        if "str ! i = sub ! i"
        using 1 True in_str that by (simp add: str_at_def)
      ultimately show ?thesis
        using True in_str sub by (subst starts_loop.simps) (simp add: str_at_def)
    next
      case False
      have "sub ! i \<noteq> char_of (0::nat)" using 1(2) True by (metis nth_mem)
      then show ?thesis
        using True False 1(3) sub by (subst starts_loop.simps) (auto simp: str_at_def)
    qed
  next
    case False
    then show ?thesis by (subst starts_loop.simps) simp
  qed
qed

text \<open>
  For a prefix without a zero byte, \<open>StringStartsWith\<close> never reads past the zero byte at the end
  of the string, shorter strings included, and decides the prefix relation.
\<close>

theorem StringStartsWith_prefix:
  assumes "char_of (0::nat) \<notin> set sub"
  shows "StringStartsWith str sub = Inr (prefix sub str)"
  using starts_loop_prefix [OF assms, of 0 str] by (simp add: StringStartsWith_def)

lemma StringStartsWith_prefix_witness: "StringStartsWith ''as'' ''asa'' = Inr False"
proof -
  have "char_of (0::nat) \<notin> set ''asa''" by code_simp
  from StringStartsWith_prefix [OF this] show ?thesis by simp
qed

lemma StringStartsWith_past_end: "StringStartsWith [] [char_of (0::nat), CHR ''a''] = Inl Undefined_Behaviour"
  by (simp add: StringStartsWith_def starts_loop.simps [of _ _ 0] starts_loop.simps [of _ _ "Suc 0"] str_at_def)

definition ReplaceEscapeSymbols :: "string \<Rightarrow> string" where
  "ReplaceEscapeSymbols s =
     foldl (\<lambda>out c. if c = CHR 0x0A then out @ [CHR 0x5C, CHR ''n''] else out @ [c]) [] s"

lemma ReplaceEscapeSymbols_no_newline: "CHR 0x0A \<notin> set (ReplaceEscapeSymbols s)"
proof -
  have "CHR 0x0A \<notin> set (foldl (\<lambda>out c. if c = CHR 0x0A then out @ [CHR 0x5C, CHR ''n''] else out @ [c]) acc s)"
    if "CHR 0x0A \<notin> set acc" for acc
    using that by (induction s arbitrary: acc) simp_all
  then show ?thesis by (simp add: ReplaceEscapeSymbols_def)
qed

section \<open>Versions\<close>

definition piece :: "string list \<Rightarrow> nat \<Rightarrow> string outcome" where
  "piece ps i = vec_at ps i"

definition split_at :: "string \<Rightarrow> string \<Rightarrow> nat \<Rightarrow> string outcome" where
  "split_at s delim i = (case SplitString s delim of None \<Rightarrow> Inl Out_Of_Fuel | Some ps \<Rightarrow> piece ps i)"

text \<open>The stage of the second version is read from the first, as in the code.\<close>

definition IsVersionGreaterOrEqual :: "string \<Rightarrow> string \<Rightarrow> bool outcome" where
  "IsVersionGreaterOrEqual a b =
     (if a = b then Inr True
      else rbind (split_at a ''v'' 1) (\<lambda>a. rbind (split_at b ''v'' 1) (\<lambda>b.
           rbind (split_at a ''-'' 1) (\<lambda>stageA. rbind (split_at a ''-'' 1) (\<lambda>stageB.
           if stageA = ''alpha'' \<and> stageB \<noteq> ''alpha'' then Inr False
           else if stageA = ''beta'' \<and> stageB \<noteq> ''alpha'' \<and> stageB \<noteq> ''beta'' then Inr False
           else rbind (rbind (split_at a ''.'' 0) stoi) (\<lambda>majorA. rbind (rbind (split_at b ''.'' 0) stoi) (\<lambda>majorB.
           if majorA < majorB then Inr False
           else rbind (rbind (split_at a ''.'' 1) stoi) (\<lambda>minorA. rbind (rbind (split_at b ''.'' 1) stoi) (\<lambda>minorB.
           if minorA < minorB then Inr False
           else rbind (rbind (split_at a ''.'' 2) stoi) (\<lambda>patchA. rbind (rbind (split_at b ''.'' 2) stoi) (\<lambda>patchB.
           if patchA < patchB then Inr False else Inr True)))))))))))"

section \<open>C strings\<close>

text \<open>\<open>clampf\<close> over the order \<open>lt\<close> of the floats. \<open>csubstr\<close> writes \<open>len\<close> characters and a zero byte to the output buffer; the result is what it
  writes and \<open>actualSize\<close>.\<close>

definition csubstr :: "string \<Rightarrow> int \<Rightarrow> int \<Rightarrow> int \<Rightarrow> (string \<times> int) outcome" where
  "csubstr arr begi len totalLen =
     (let len = (if begi + len \<ge> totalLen then totalLen - begi else len)
      in if len < 0 \<or> (0 < len \<and> (begi < 0 \<or> begi + len > int (length arr))) then Inl Undefined_Behaviour
         else Inr (take (nat len) (drop (nat begi) arr) @ [char_of (0::nat)], len))"

definition clampf :: "('f \<Rightarrow> 'f \<Rightarrow> bool) \<Rightarrow> 'f \<Rightarrow> 'f \<Rightarrow> 'f \<Rightarrow> 'f" where
  "clampf lt x lo hi = (if lt x lo then lo else if lt hi x then hi else x)"

text \<open>\<open>cConcatInt\<close> copies the text up to the zero byte of \<open>arr\<close> into the buffer, writes the digits over it from \<open>len - 1\<close> on,
  and a zero byte behind them. The buffer \<open>outArr\<close> is given with what it holds.\<close>

definition overwrite :: "nat \<Rightarrow> string \<Rightarrow> string \<Rightarrow> string" where
  "overwrite i xs buf = take i buf @ xs @ drop (i + length xs) buf"

definition cConcatInt :: "string \<Rightarrow> string \<Rightarrow> int \<Rightarrow> int \<Rightarrow> string outcome" where
  "cConcatInt arr outArr len x =
     (let sVal = to_string x; text = takeWhile (\<lambda>c. c \<noteq> char_of (0::nat)) arr; zero = [char_of (0::nat)]
      in if length outArr < length text + 1 \<or> len < 1 \<or> int (length outArr) < len + int (length sVal) then Inl Undefined_Behaviour
         else Inr (overwrite (nat (len - 1)) (sVal @ zero) (overwrite 0 (text @ zero) outArr)))"

text \<open>With the length of the array, its zero byte counted, the number stands behind the text.\<close>

lemma cConcatInt_text:
  assumes "char_of (0::nat) \<notin> set arr" and "length arr + length (to_string x) < length outArr"
  shows "\<exists>rest. cConcatInt (arr @ [char_of (0::nat)]) outArr (int (length arr) + 1) x = Inr (arr @ to_string x @ char_of (0::nat) # rest)"
proof -
  have "takeWhile (\<lambda>c. c \<noteq> char_of (0::nat)) (arr @ [char_of (0::nat)]) = arr" using assms(1) by (induction arr) auto
  then show ?thesis using assms(2) by (auto simp: cConcatInt_def overwrite_def Let_def)
qed

section \<open>Floating-point numbers as text\<close>

text \<open>The operations on floats are parameters: the conversion to an integer, which is undefined out of range, the text of
  \<open>std::to_string\<close>, and \<open>std::fixed\<close> with two digits after the division by 100.\<close>

definition CommaLargeNumberF :: "('f \<Rightarrow> int outcome) \<Rightarrow> ('f \<Rightarrow> string) \<Rightarrow> 'f \<Rightarrow> string outcome" where
  "CommaLargeNumberF truncated text num =
     rbind (truncated num) (\<lambda>v. let s = to_string v
       in rbind (comma_loop (if 0 \<le> v then 0 else 1) (int (length s) - 3) s) (\<lambda>s.
          rbind (split_at (text num) ''.'' 1) (\<lambda>fraction. Inr (s @ ''.'' @ fraction))))"

definition truncateMetricNum ::
  "(int \<Rightarrow> 'f \<Rightarrow> bool) \<Rightarrow> ('f \<Rightarrow> int outcome) \<Rightarrow> (int \<Rightarrow> string) \<Rightarrow> ('f \<Rightarrow> string) \<Rightarrow> 'f \<Rightarrow> string outcome" where
  "truncateMetricNum below truncated hundredths text x =
     (let scaled = (\<lambda>d unit. rbind (truncated x) (\<lambda>n. Inr (hundredths (cdiv n d) @ unit)))
      in if below 1000000000000 x then scaled 10000000000 '' T''
         else if below 1000000000 x then scaled 10000000 '' G''
         else if below 1000000 x then scaled 10000 '' M''
         else if below 1000 x then scaled 10 '' K''
         else Inr (text x))"

text \<open>A number between \<open>-1\<close> and \<open>0\<close> loses its sign: the sign is taken from the truncated number.\<close>

lemma comma_float_grouped:
  assumes "truncated num = Inr v" and "split_at (text num) ''.'' 1 = Inr fraction"
  shows "CommaLargeNumberF truncated text num =
    Inr ((if v < 0 then CHR ''-'' # grouped (nat_str (nat (- v))) else grouped (nat_str (nat v))) @ ''.'' @ fraction)"
  using CommaLargeNumber_long_grouped [of v] assms by (simp add: CommaLargeNumberF_def CommaLargeNumber_long_def Let_def)

lemma comma_float_loses_sign:
  "CommaLargeNumberF (\<lambda>s. Inr 0) id ''-0.500000'' = Inr ''0.500000''"
  by code_simp

end
