(* ===== verification/Strops_Numbers.thy ===== *)
theory Strops_Numbers
  imports Strops
begin

text \<open>
  Arithmetic on numbers kept as text (\<^verbatim>\<open>src/src/strops.cpp\<close>): multiplying and stepping hexadecimal
  strings, stepping base-36 strings, long division of decimal strings, and the comparison and prefix
  tests on byte arrays. \<open>int\<close> arithmetic that overflows is undefined behaviour, \<open>char\<close> arithmetic is
  reduced to a signed byte.
\<close>

section \<open>Hexadecimal strings\<close>

definition code_of :: "char \<Rightarrow> int" where
  "code_of c = int (of_char c)"

definition byte_char :: "int \<Rightarrow> char" where
  "byte_char i = char_of (nat (i mod 256))"

definition hex_digit :: "char \<Rightarrow> int option" where
  "hex_digit c =
     (if 48 \<le> code_of c \<and> code_of c \<le> 57 then Some (code_of c - 48)
      else if 65 \<le> code_of c \<and> code_of c \<le> 70 then Some (code_of c - 65 + 10)
      else if 97 \<le> code_of c \<and> code_of c \<le> 102 then Some (code_of c - 97 + 10)
      else None)"

definition hex_result :: "int \<Rightarrow> char" where
  "hex_result remainder = (if remainder < 10 then byte_char (48 + remainder) else byte_char (65 + remainder - 10))"

text \<open>The loop runs from the last digit to the first; the list is the digits still to do, reversed.\<close>

fun multiply_loop :: "int \<Rightarrow> string \<Rightarrow> int \<Rightarrow> string \<Rightarrow> (int \<times> string) option outcome" where
  "multiply_loop multiplier [] carry resultHex = Inr (Some (carry, resultHex))"
| "multiply_loop multiplier (c # cs) carry resultHex =
     (case hex_digit c of
        None \<Rightarrow> Inr None
      | Some digitValue \<Rightarrow>
          let product = digitValue * multiplier + carry
          in if \<not> is_int32 (digitValue * multiplier) \<or> \<not> is_int32 product then Inl Undefined_Behaviour
             else multiply_loop multiplier cs (cdiv product 16) (hex_result (cmod product 16) # resultHex))"

definition multiplyHexByInteger :: "string \<Rightarrow> int \<Rightarrow> string outcome" where
  "multiplyHexByInteger hexNumber multiplier =
     rbind (multiply_loop multiplier (rev hexNumber) 0 []) (\<lambda>r.
       case r of
         None \<Rightarrow> Inr []
       | Some (carry, resultHex) \<Rightarrow> Inr (if carry > 0 then byte_char (48 + carry) # resultHex else resultHex))"

definition is_hex :: "char \<Rightarrow> bool" where
  "is_hex c \<longleftrightarrow> hex_digit c \<noteq> None"

definition hex_val :: "char \<Rightarrow> int" where
  "hex_val c = (case hex_digit c of Some v \<Rightarrow> v | None \<Rightarrow> 0)"

definition hex_value :: "string \<Rightarrow> int" where
  "hex_value s = foldl (\<lambda>v c. 16 * v + hex_val c) 0 s"

text \<open>The value of a reversed digit list.\<close>

fun hex_rev :: "string \<Rightarrow> int" where
  "hex_rev [] = 0"
| "hex_rev (c # cs) = hex_val c + 16 * hex_rev cs"

lemma hex_value_snoc [simp]: "hex_value (s @ [c]) = 16 * hex_value s + hex_val c"
  by (simp add: hex_value_def)

lemma hex_value_rev: "hex_value (rev s) = hex_rev s"
  by (induction s) (simp_all add: hex_value_def)

lemma hex_value_eq: "hex_value s = hex_rev (rev s)"
  using hex_value_rev [of "rev s"] by simp

lemma hex_rev_append: "hex_rev (xs @ ys) = hex_rev xs + 16 ^ length xs * hex_rev ys"
  by (induction xs) (simp_all add: algebra_simps)

lemma hex_val_range: "0 \<le> hex_val c" "hex_val c \<le> 15"
  by (auto simp: hex_val_def hex_digit_def)

lemma byte_char_code [simp]: "0 \<le> i \<Longrightarrow> i < 256 \<Longrightarrow> code_of (byte_char i) = i"
  by (simp add: code_of_def byte_char_def)

lemma hex_result_val: "0 \<le> r \<Longrightarrow> r < 16 \<Longrightarrow> hex_digit (hex_result r) = Some r"
  by (auto simp: hex_digit_def hex_result_def)

lemma hex_val_result [simp]: "0 \<le> r \<Longrightarrow> r < 16 \<Longrightarrow> hex_val (hex_result r) = r" "0 \<le> r \<Longrightarrow> r < 16 \<Longrightarrow> is_hex (hex_result r)"
  by (simp_all add: hex_val_def is_hex_def hex_result_val)

lemma carry_bound: "0 \<le> d \<Longrightarrow> d \<le> 15 \<Longrightarrow> 0 \<le> c \<Longrightarrow> c < m \<Longrightarrow> (d * m + c) div 16 < m" for d c m :: int
proof -
  assume "0 \<le> d" "d \<le> 15" "0 \<le> c" "c < m"
  then have "d * m \<le> 15 * m" by (intro mult_right_mono) auto
  with \<open>c < m\<close> have "d * m + c < 16 * m" by simp
  then show ?thesis by simp
qed

lemma digit_step: "k + 16 * q = d * m + c \<Longrightarrow> w * k + 16 * w * (h * m + q) = w * ((d + 16 * h) * m + c)"
  for k q d m c w h :: int
proof -
  assume k: "k + 16 * q = d * m + c"
  have "w * k + 16 * w * (h * m + q) = w * ((k + 16 * q) + 16 * h * m)" by (simp add: algebra_simps)
  also have "\<dots> = w * ((d + 16 * h) * m + c)" unfolding k by (simp add: algebra_simps)
  finally show ?thesis .
qed

lemma multiply_loop_value:
  "list_all is_hex cs \<Longrightarrow> 0 < m \<Longrightarrow> m < 2 ^ 27 \<Longrightarrow> 0 \<le> carry \<Longrightarrow> carry < m \<Longrightarrow> list_all is_hex res \<Longrightarrow>
   \<exists>carry' res'. multiply_loop m cs carry res = Inr (Some (carry', res')) \<and> 0 \<le> carry' \<and> carry' < m
     \<and> list_all is_hex res' \<and> length res' = length cs + length res
     \<and> hex_rev (rev res') + 16 ^ length res' * carry'
        = hex_rev (rev res) + 16 ^ length res * (hex_rev cs * m + carry)"
proof (induction cs arbitrary: carry res)
  case Nil
  then show ?case by simp
next
  case (Cons c cs)
  obtain d where d: "hex_digit c = Some d" using Cons.prems(1) by (auto simp: is_hex_def)
  then have hv: "hex_val c = d" by (simp add: hex_val_def)
  then have dr: "0 \<le> d" "d \<le> 15" using hex_val_range [of c] by auto
  let ?p = "d * m + carry"
  have "d * m \<le> 15 * m" using dr Cons.prems(2) by (intro mult_right_mono) auto
  then have "d * m \<le> 15 * 2 ^ 27" using Cons.prems(3) by linarith
  moreover have dm: "0 \<le> d * m" using dr Cons.prems(2) by simp
  ultimately have p: "0 \<le> ?p" "d * m < 2 ^ 31" "?p < 2 ^ 31" "- (2 ^ 31) \<le> d * m" "- (2 ^ 31) \<le> ?p"
    using Cons.prems(2-5) by simp_all
  then have p: "0 \<le> ?p" "is_int32 (d * m)" "is_int32 ?p"
    by (simp_all only: is_int32_def simp_thms)
  have q: "?p div 16 < m" using carry_bound [of d carry m] dr Cons.prems by simp
  have "\<exists>carry' res'. multiply_loop m cs (?p div 16) (hex_result (?p mod 16) # res) = Inr (Some (carry', res'))
     \<and> 0 \<le> carry' \<and> carry' < m \<and> list_all is_hex res' \<and> length res' = length cs + length (hex_result (?p mod 16) # res)
     \<and> hex_rev (rev res') + 16 ^ length res' * carry'
        = hex_rev (rev (hex_result (?p mod 16) # res)) + 16 ^ length (hex_result (?p mod 16) # res) * (hex_rev cs * m + ?p div 16)"
    using Cons.prems p q by (intro Cons.IH) (auto simp: pos_imp_zdiv_nonneg_iff)
  moreover have "hex_rev (rev (hex_result (?p mod 16) # res)) + 16 ^ length (hex_result (?p mod 16) # res) * (hex_rev cs * m + ?p div 16)
      = hex_rev (rev res) + 16 ^ length res * (hex_rev (c # cs) * m + carry)"
    using digit_step [of "?p mod 16" "?p div 16" d m carry "16 ^ length res" "hex_rev cs"]
    by (simp add: hex_rev_append hv algebra_simps del: mod_mult_self1 mod_mult_self2)
  ultimately show ?case
    using d p by (simp add: Let_def)
qed

text \<open>
  C37. For a hexadecimal number in either case and a multiplier from 1 to 10, \<open>multiplyHexByInteger\<close>
  does not overflow and returns a hexadecimal number whose value is the product.
\<close>

theorem multiplyHexByInteger_value:
  assumes "list_all is_hex s" and "1 \<le> m" and "m \<le> 10"
  shows "\<exists>r. multiplyHexByInteger s m = Inr r \<and> list_all is_hex r \<and> hex_value r = hex_value s * m"
proof -
  have "list_all is_hex (rev s)" using assms(1) by simp
  from multiply_loop_value [OF this, of m 0 "[]"] assms obtain carry r where
    r: "multiply_loop m (rev s) 0 [] = Inr (Some (carry, r))" "0 \<le> carry" "carry < m" "list_all is_hex r"
       "hex_rev (rev r) + 16 ^ length r * carry = hex_rev (rev s) * m"
    by auto
  have c: "hex_digit (byte_char (48 + carry)) = Some carry" if "0 < carry"
    using that r(3) assms(3) by (simp add: hex_digit_def)
  have "hex_value (byte_char (48 + carry) # r) = hex_value r + 16 ^ length r * carry" if "0 < carry"
    using c [OF that] by (simp add: hex_value_eq hex_rev_append hex_val_def)
  then show ?thesis
    using r c by (auto simp: multiplyHexByInteger_def hex_value_eq is_hex_def)
qed

lemma multiplyHexByInteger_value_witness:
  "\<exists>r. multiplyHexByInteger ''fF'' 10 = Inr r \<and> list_all is_hex r \<and> hex_value r = hex_value ''fF'' * 10"
  by (rule multiplyHexByInteger_value) (simp_all add: is_hex_def hex_digit_def code_of_def)

text \<open>From 11 on the carry can be 10 or more, and the character written for it is not a digit.\<close>

lemma multiplyHexByInteger_carry: "multiplyHexByInteger ''F'' 16 = Inr ''?0''"
  by code_simp

section \<open>Stepping a number\<close>

text \<open>The loops run from an index down to 0: the list is this part of the string, reversed.\<close>

fun sub_one :: "string \<Rightarrow> string" where
  "sub_one [] = []"
| "sub_one (c # cs) =
     (if 48 < code_of c \<and> code_of c \<le> 57 then byte_char (code_of c - 1) # cs
      else if 65 < code_of c \<and> code_of c \<le> 70 then byte_char (code_of c - 1) # cs
      else if code_of c = 65 then CHR ''9'' # cs
      else if code_of c = 48 then CHR ''F'' # sub_one cs
      else c # cs)"

definition subOneFromHex :: "string \<Rightarrow> int \<Rightarrow> string outcome" where
  "subOneFromHex hexNumber index =
     (if index < 0 \<or> index = int (length hexNumber) then Inr hexNumber
      else if index > int (length hexNumber) then Inl Undefined_Behaviour
      else let n = nat index + 1
           in Inr (rev (sub_one (rev (take n hexNumber))) @ drop n hexNumber))"

definition upper_hex :: "char \<Rightarrow> bool" where
  "upper_hex c \<longleftrightarrow> (48 \<le> code_of c \<and> code_of c \<le> 57) \<or> (65 \<le> code_of c \<and> code_of c \<le> 70)"

lemma upper_hex_val: "upper_hex c \<Longrightarrow> hex_val c = (if code_of c \<le> 57 then code_of c - 48 else code_of c - 55)"
  by (auto simp: upper_hex_def hex_val_def hex_digit_def)

lemma code_of_range [simp]: "0 \<le> code_of c" "code_of c < 256"
proof -
  have "(of_char c :: nat) = of_char c mod 256" by simp
  also have "\<dots> < 256" by (rule mod_less_divisor) simp
  finally show "code_of c < 256" by (simp add: code_of_def)
qed (simp add: code_of_def)

lemma code_of_chars [simp]: "code_of (CHR ''9'') = 57" "code_of (CHR ''F'') = 70" "code_of (CHR ''0'') = 48"
  "code_of (CHR ''a'') = 97"
  by (simp_all add: code_of_def)

lemma sub_one_digits: "list_all upper_hex cs \<Longrightarrow> list_all upper_hex (sub_one cs) \<and> length (sub_one cs) = length cs"
  by (induction cs) (auto simp: upper_hex_def)

lemma hex_rev_range: "0 \<le> hex_rev cs" "hex_rev cs < 16 ^ length cs"
proof (induction cs)
  case (Cons c cs)
  {
    case 1
    then show ?case using Cons hex_val_range [of c] by simp
  next
    case 2
    then show ?case using Cons hex_val_range [of c] by simp
  }
qed simp_all

lemma sub_one_value:
  "list_all upper_hex cs \<Longrightarrow>
   hex_rev (sub_one cs) = (if hex_rev cs = 0 then 16 ^ length cs - 1 else hex_rev cs - 1)"
proof (induction cs)
  case (Cons c cs)
  have "hex_val c = 0 \<longleftrightarrow> code_of c = 48" using Cons.prems upper_hex_val [of c] by (auto simp: upper_hex_def)
  moreover have "0 \<le> hex_rev cs" by (rule hex_rev_range)
  ultimately show ?case
    using Cons upper_hex_val [of c] upper_hex_val [of "CHR ''9''"] upper_hex_val [of "CHR ''F''"]
      upper_hex_val [of "byte_char (code_of c - 1)"] hex_val_range [of c]
    by (auto simp: upper_hex_def)
qed simp

text \<open>
  On the digits up to an index, \<open>subOneFromHex\<close> subtracts one, and from zero it goes to all
  \<open>F\<close>; the other digits stay.
\<close>

theorem subOneFromHex_value:
  assumes "list_all upper_hex (take (Suc i) s)" and "i < length s"
  shows "\<exists>r. subOneFromHex s (int i) = Inr r \<and> length r = length s \<and> drop (Suc i) r = drop (Suc i) s
    \<and> hex_value (take (Suc i) r) = (hex_value (take (Suc i) s) - 1) mod 16 ^ Suc i"
proof -
  let ?p = "rev (take (Suc i) s)"
  have up: "list_all upper_hex ?p" and len: "length ?p = Suc i" using assms by simp_all
  have "hex_rev (sub_one ?p) = (hex_rev ?p - 1) mod 16 ^ Suc i"
  proof (cases "hex_rev ?p = 0")
    case True
    then show ?thesis using sub_one_value [OF up] len by (simp add: zmod_minus1)
  next
    case False
    then show ?thesis
      using sub_one_value [OF up] hex_rev_range [of ?p] len by simp
  qed
  then show ?thesis
    using assms(2) sub_one_digits [OF up] len
    by (simp add: subOneFromHex_def Let_def hex_value_eq min_def)
qed

lemma subOneFromHex_value_witness:
  "\<exists>r. subOneFromHex ''1A0B'' 2 = Inr r \<and> length r = length ''1A0B'' \<and> drop 3 r = ''B''
    \<and> hex_value (take 3 r) = (hex_value ''1A0'' - 1) mod 16 ^ 3"
  using subOneFromHex_value [of 2 "''1A0B''"] by (simp add: upper_hex_def code_of_def)

text \<open>Base 36 with the digits \<open>0-9a-z\<close>; \<open>char\<close> is signed.\<close>

definition signed_byte :: "int \<Rightarrow> int" where
  "signed_byte i = (if i mod 256 < 128 then i mod 256 else i mod 256 - 256)"

fun add_one :: "string \<Rightarrow> string" where
  "add_one [] = []"
| "add_one (c # cs) =
     (let v = signed_byte (code_of c + 1)
      in if (48 \<le> v \<and> v \<le> 57) \<or> (97 \<le> v \<and> v \<le> 122) then byte_char v # cs
         else if 57 < v \<and> v < 97 then CHR ''a'' # cs
         else if v < 48 then CHR ''0'' # cs
         else CHR ''0'' # add_one cs)"

definition addOneToHexStrInRange :: "string \<Rightarrow> nat \<Rightarrow> nat \<Rightarrow> string outcome" where
  "addOneToHexStrInRange num start len =
     (if start + len \<le> length num
      then Inr (take start num @ rev (add_one (rev (take len (drop start num)))) @ drop (start + len) num)
      else Inl Undefined_Behaviour)"

definition addOneToHexStr :: "string \<Rightarrow> nat \<Rightarrow> string outcome" where
  "addOneToHexStr num len = addOneToHexStrInRange num 0 len"

definition base36 :: "char \<Rightarrow> bool" where
  "base36 c \<longleftrightarrow> (48 \<le> code_of c \<and> code_of c \<le> 57) \<or> (97 \<le> code_of c \<and> code_of c \<le> 122)"

definition val36 :: "char \<Rightarrow> int" where
  "val36 c = (if code_of c \<le> 57 then code_of c - 48 else code_of c - 87)"

fun value36 :: "string \<Rightarrow> int" where
  "value36 [] = 0"
| "value36 (c # cs) = val36 c + 36 * value36 cs"

lemma value36_range: "list_all base36 cs \<Longrightarrow> 0 \<le> value36 cs \<and> value36 cs < 36 ^ length cs"
  by (induction cs) (auto simp: base36_def val36_def)

lemma add_one_digits: "list_all base36 cs \<Longrightarrow> list_all base36 (add_one cs) \<and> length (add_one cs) = length cs"
  by (induction cs) (auto simp: base36_def signed_byte_def Let_def)

lemma add_one_value:
  "list_all base36 cs \<Longrightarrow>
   value36 (add_one cs) = (if value36 cs = 36 ^ length cs - 1 then 0 else value36 cs + 1)"
proof (induction cs)
  case (Cons c cs)
  have r: "value36 cs < 36 ^ length cs" using Cons.prems value36_range [of cs] by simp
  from Cons.prems consider "code_of c = 122" | "code_of c = 57" | "48 \<le> code_of c \<and> code_of c < 57"
    | "97 \<le> code_of c \<and> code_of c < 122" by (cases "code_of c = 57"; cases "code_of c = 122") (auto simp: base36_def le_less)
  then show ?case
    by cases (use Cons r in \<open>auto simp: val36_def signed_byte_def Let_def\<close>)
qed simp

text \<open>
  C38. \<open>addOneToHexStrInRange\<close> adds one to the base-36 number in the range, modulo its length, and
  changes nothing else. The most significant digit is at the start of the range.
\<close>

theorem addOneToHexStrInRange_value:
  assumes "start + len \<le> length num" and "list_all base36 (take len (drop start num))"
  shows "\<exists>r. addOneToHexStrInRange num start len = Inr r \<and> length r = length num
    \<and> take start r = take start num \<and> drop (start + len) r = drop (start + len) num
    \<and> value36 (rev (take len (drop start r))) = (value36 (rev (take len (drop start num))) + 1) mod 36 ^ len"
proof -
  let ?p = "rev (take len (drop start num))"
  have p: "list_all base36 ?p" and len: "length ?p = len" using assms by simp_all
  have "value36 (add_one ?p) = (value36 ?p + 1) mod 36 ^ len"
    using add_one_value [OF p] value36_range [OF p] len by auto
  then show ?thesis
    using assms(1) add_one_digits [OF p] len by (auto simp: addOneToHexStrInRange_def min_def)
qed

lemma addOneToHexStrInRange_value_witness:
  "\<exists>r. addOneToHexStrInRange ''x19zy'' 1 3 = Inr r \<and> length r = length ''x19zy'' \<and> take 1 r = ''x'' \<and> drop (1 + 3) r = ''y''
    \<and> value36 (rev (take 3 (drop 1 r))) = (value36 (rev ''19z'') + 1) mod 36 ^ 3"
  using addOneToHexStrInRange_value [of 1 3 "''x19zy''"] by (simp add: base36_def code_of_def)

section \<open>Long division\<close>

text \<open>\<open>temp\<close> is an \<open>int\<close>; where it meets the \<open>uint32_t\<close> divisor it is converted to unsigned, and the
  result goes back to \<open>int\<close>.\<close>

definition u32 :: "int \<Rightarrow> int" where
  "u32 i = i mod 2 ^ 32"

definition s32 :: "int \<Rightarrow> int" where
  "s32 i = (if i mod 2 ^ 32 < 2 ^ 31 then i mod 2 ^ 32 else i mod 2 ^ 32 - 2 ^ 32)"

function first_digits :: "string \<Rightarrow> int \<Rightarrow> nat \<Rightarrow> int \<Rightarrow> (nat \<times> int) outcome" where
  "first_digits number divisor idx temp =
     (if idx < length number - 1 \<and> u32 temp < divisor
      then let t = temp * 10; t' = t + (code_of (number ! (idx + 1)) - 48)
           in if \<not> is_int32 t \<or> \<not> is_int32 t' then Inl Undefined_Behaviour
              else first_digits number divisor (idx + 1) t'
      else Inr (idx, temp))"
  by pat_completeness auto

termination
  by (relation "measure (\<lambda>(number, divisor, idx, temp). length number - idx)") auto

function divide_digits :: "string \<Rightarrow> int \<Rightarrow> nat \<Rightarrow> int \<Rightarrow> string \<Rightarrow> string outcome" where
  "divide_digits number divisor idx temp ans =
     (if idx \<le> length number - 1
      then rbind (str_at number (idx + 1)) (\<lambda>c.
             if divisor = 0 then Inl Undefined_Behaviour
             else divide_digits number divisor (idx + 1)
                    (s32 ((u32 temp mod divisor) * 10 + code_of c - 48))
                    (ans @ [byte_char (u32 temp div divisor + 48)]))
      else Inr ans)"
  by pat_completeness auto

termination
  by (relation "measure (\<lambda>(number, divisor, idx, temp, ans). length number - idx)")
    (auto simp: str_at_def split: if_splits)

declare first_digits.simps [simp del] divide_digits.simps [simp del]

definition longDivision :: "string \<Rightarrow> 32 word \<Rightarrow> string outcome" where
  "longDivision number divisor =
     (if number = [] then Inl Undefined_Behaviour
      else rbind (first_digits number (uint divisor) 0 (code_of (number ! 0) - 48)) (\<lambda>(idx, temp).
           rbind (divide_digits number (uint divisor) idx temp []) (\<lambda>ans.
           Inr (if ans = [] then ''0'' else ans))))"

lemma digit_code: "is_digit c \<Longrightarrow> 0 \<le> code_of c - 48 \<and> code_of c - 48 < 10 \<and> int (digit_val c) = code_of c - 48"
  by (auto simp: is_digit_def digit_val_def code_of_def)

lemma u32_id: "0 \<le> t \<Longrightarrow> t < 2 ^ 31 \<Longrightarrow> u32 t = t" "0 \<le> t \<Longrightarrow> t < 2 ^ 31 \<Longrightarrow> s32 t = t"
  by (simp_all add: u32_def s32_def)

lemma dec_value_take_Suc:
  "i < length s \<Longrightarrow> dec_value (take (Suc i) s) = 10 * dec_value (take i s) + digit_val (s ! i)"
  by (simp add: take_Suc_nth)

lemma first_digits_value:
  "list_all is_digit s \<Longrightarrow> 0 < d \<Longrightarrow> 10 * d \<le> 2 ^ 31 \<Longrightarrow> idx < length s \<Longrightarrow>
   temp = int (dec_value (take (Suc idx) s)) \<Longrightarrow> temp < 10 * d \<Longrightarrow>
   \<exists>idx' temp'. first_digits s d idx temp = Inr (idx', temp') \<and> idx' < length s
     \<and> temp' = int (dec_value (take (Suc idx') s)) \<and> temp' < 10 * d"
proof (induction s d idx temp rule: first_digits.induct)
  case (1 s d idx temp)
  have t: "0 \<le> temp" "temp < 2 ^ 31" using 1(4,6,7) by simp_all
  show ?case
  proof (cases "idx < length s - 1 \<and> u32 temp < d")
    case True
    let ?c = "s ! (idx + 1)"
    let ?t = "temp * 10 + (code_of ?c - 48)"
    have "is_digit ?c" using 1(2) True by (auto simp: list_all_length)
    note dc = digit_code [OF this]
    have lt: "temp < d" using True t by (simp add: u32_id)
    have v: "?t = int (dec_value (take (Suc (idx + 1)) s))"
      using True dc 1(6) dec_value_take_Suc [of "idx + 1" s] by (auto simp: less_diff_conv)
    have b: "?t < 10 * d" "temp * 10 < 10 * d" "0 \<le> ?t" using lt dc t by linarith+
    then have "is_int32 (temp * 10)" "is_int32 ?t" using 1(4) t unfolding is_int32_def by auto
    moreover have "\<exists>idx' temp'. first_digits s d (idx + 1) ?t = Inr (idx', temp') \<and> idx' < length s
        \<and> temp' = int (dec_value (take (Suc idx') s)) \<and> temp' < 10 * d"
      using calculation True 1(2-4) v b(1) by (intro 1(1) [OF True refl refl]) auto
    ultimately show ?thesis
      using True by (subst first_digits.simps) (simp add: Let_def)
  next
    case False
    with 1 show ?thesis by (subst first_digits.simps) auto
  qed
qed

lemma quotient_digit:
  fixes t d :: int
  assumes "0 \<le> t" and "t < 10 * d" and "0 < d"
  shows "0 \<le> t div d \<and> t div d < 10"
proof -
  have "t div d \<le> (10 * d - 1) div d" using assms by (intro zdiv_mono1) auto
  also have "(10 * d - 1) div d = 9"
    using assms(3) by (intro int_div_pos_eq [of _ _ _ "d - 1"]) auto
  finally show ?thesis using assms by (simp add: pos_imp_zdiv_nonneg_iff)
qed

lemma quotient_step: "t = d * q + k \<Longrightarrow> 10 * (a * (10 * d) + t) + (c - e) = (10 * a + q) * (10 * d) + (k * 10 + c - e)"
  for t d q k a c e :: int
  by (simp add: algebra_simps)

lemma digit_of_quotient:
  "0 \<le> q \<Longrightarrow> q < 10 \<Longrightarrow> is_digit (byte_char (q + 48)) \<and> int (digit_val (byte_char (q + 48))) = q"
  using byte_char_code [of "q + 48"] by (auto simp: is_digit_def digit_val_def code_of_def)

lemma divide_digits_value:
  "list_all is_digit s \<Longrightarrow> 0 < d \<Longrightarrow> 10 * d \<le> 2 ^ 31 \<Longrightarrow> idx < length s \<Longrightarrow> 0 \<le> temp \<Longrightarrow> temp < 10 * d \<Longrightarrow>
   int (dec_value (take (Suc idx) s)) = int (dec_value ans) * (10 * d) + temp \<Longrightarrow> list_all is_digit ans \<Longrightarrow>
   \<exists>r. divide_digits s d idx temp ans = Inr r \<and> r \<noteq> [] \<and> list_all is_digit r
     \<and> int (dec_value r) = int (dec_value s) div d"
proof (induction s d idx temp ans rule: divide_digits.induct)
  case (1 s d idx temp ans)
  let ?q = "temp div d"
  let ?ans = "ans @ [byte_char (?q + 48)]"
  have u: "u32 temp = temp" using 1(4,6,7) by (intro u32_id) auto
  have q: "0 \<le> ?q" "?q < 10" using quotient_digit 1(3,6,7) by auto
  note dq = digit_of_quotient [OF q]
  have ans: "list_all is_digit ?ans" "int (dec_value ?ans) = 10 * int (dec_value ans) + ?q"
    using dq 1(9) by simp_all
  have m: "0 \<le> temp mod d" "temp mod d < d" "temp = d * ?q + temp mod d" using 1(3) by simp_all
  have d: "d \<noteq> 0" using 1(3) by simp
  show ?case
  proof (cases "Suc idx < length s")
    case True
    let ?c = "s ! Suc idx"
    let ?t = "(temp mod d) * 10 + code_of ?c - 48"
    have at: "str_at s (idx + 1) = Inr ?c" using True by (simp add: str_at_def)
    have "is_digit ?c" using 1(2) True by (simp add: list_all_length)
    note dc = digit_code [OF this]
    have t: "0 \<le> ?t" "?t < 10 * d" using dc m by linarith+
    have st: "s32 ?t = ?t" using t 1(4) by (intro u32_id) auto
    have "int (dec_value (take (Suc (Suc idx)) s)) = 10 * (int (dec_value ans) * (10 * d) + temp) + (code_of ?c - 48)"
      using True dc 1(8) dec_value_take_Suc [of "Suc idx" s] by simp
    also have "\<dots> = int (dec_value ?ans) * (10 * d) + ?t"
      unfolding ans(2) by (rule quotient_step [OF m(3)])
    finally have inv: "int (dec_value (take (Suc (Suc idx)) s)) = int (dec_value ?ans) * (10 * d) + ?t" .
    have "\<exists>r. divide_digits s d (idx + 1) (s32 ((u32 temp mod d) * 10 + code_of ?c - 48))
        (ans @ [byte_char (u32 temp div d + 48)]) = Inr r \<and> r \<noteq> [] \<and> list_all is_digit r
        \<and> int (dec_value r) = int (dec_value s) div d"
      using 1(2-4) True t inv ans(1) st u d
      by (intro 1(1) [OF _ at]) (auto simp: u)
    then show ?thesis
      using 1(5) at d by (subst divide_digits.simps) simp
  next
    case False
    then have last: "idx = length s - 1" "Suc idx = length s" using 1(5) by auto
    have "int (dec_value s) div d = (int (dec_value ans) * 10 * d + temp) div d"
      using 1(8) last by (simp add: mult.assoc)
    also have "\<dots> = int (dec_value ans) * 10 + ?q" using d by simp
    finally have "int (dec_value ?ans) = int (dec_value s) div d" using ans(2) by simp
    then show ?thesis
      using last d u ans(1) by (subst divide_digits.simps, subst divide_digits.simps) (simp add: str_at_def)
  qed
qed

text \<open>
  C39. For a decimal number of any length and a divisor from 1 to 214748364, \<open>longDivision\<close> reads only
  inside the string, does not overflow, and returns the digits of the quotient.
\<close>

theorem longDivision_value:
  assumes "list_all is_digit s" and "s \<noteq> []" and "0 < divisor" and "divisor \<le> 214748364"
  shows "\<exists>r. longDivision s divisor = Inr r \<and> list_all is_digit r \<and> r \<noteq> []
    \<and> int (dec_value r) = int (dec_value s) div uint divisor"
proof -
  have d: "0 < uint divisor" "10 * uint divisor \<le> 2 ^ 31"
    using assms(3,4) by (simp_all add: word_less_def word_le_def)
  have "is_digit (s ! 0)" using assms(1,2) by (simp add: list_all_length)
  note dc = digit_code [OF this]
  have "int (dec_value (take (Suc 0) s)) = code_of (s ! 0) - 48"
    using dc assms(2) dec_value_take_Suc [of 0 s] by (simp add: dec_value_def)
  then obtain idx temp where f: "first_digits s (uint divisor) 0 (code_of (s ! 0) - 48) = Inr (idx, temp)"
      "idx < length s" "temp = int (dec_value (take (Suc idx) s))" "temp < 10 * uint divisor"
    using first_digits_value [OF assms(1) d, of 0 "code_of (s ! 0) - 48"] assms(2) dc d(1) by force
  have "\<exists>r. divide_digits s (uint divisor) idx temp [] = Inr r \<and> r \<noteq> [] \<and> list_all is_digit r
     \<and> int (dec_value r) = int (dec_value s) div uint divisor"
    using divide_digits_value [OF assms(1) d f(2), of temp "[]"] f(3,4) by (simp add: dec_value_def)
  then show ?thesis
    using assms(2) f(1) by (auto simp: longDivision_def)
qed

lemma longDivision_value_witness:
  "\<exists>r. longDivision ''1000'' 7 = Inr r \<and> list_all is_digit r \<and> r \<noteq> []
    \<and> int (dec_value r) = int (dec_value ''1000'') div uint (7 :: 32 word)"
  by (rule longDivision_value) (simp_all add: is_digit_def)

section \<open>Byte arrays\<close>

text \<open>Bytes are characters; \<open>stringToHex\<close> returns what it writes, the zero byte at the end included.\<close>

definition toHexChar :: "int \<Rightarrow> char" where
  "toHexChar value = (if value < 10 then byte_char (48 + value) else byte_char (97 + value - 10))"

fun hex_bytes :: "string \<Rightarrow> string" where
  "hex_bytes [] = []"
| "hex_bytes (c # cs) = toHexChar (code_of c div 16) # toHexChar (code_of c mod 16) # hex_bytes cs"

definition stringToHex :: "string \<Rightarrow> nat \<Rightarrow> string outcome" where
  "stringToHex input len =
     (if len \<le> length input then Inr (hex_bytes (take len input) @ [char_of (0::nat)]) else Inl Undefined_Behaviour)"

text \<open>The buffer \<open>d\<close> has 30 bytes.\<close>

definition CharStrStartsWith :: "string \<Rightarrow> string \<Rightarrow> nat \<Rightarrow> bool outcome" where
  "CharStrStartsWith str sub len =
     (if 2 * len + 1 > 30 then Inl Undefined_Behaviour
      else rbind (stringToHex str len) (\<lambda>c.
        if len \<le> length sub then Inr (take len c = take len sub)
        else if take (length sub) c = sub then Inl Undefined_Behaviour else Inr False))"

function compare_bytes :: "string \<Rightarrow> string \<Rightarrow> nat \<Rightarrow> bool outcome" where
  "compare_bytes number1 number2 it =
     (if it < 60
      then rbind (vec_at number1 it) (\<lambda>a. rbind (vec_at number2 it) (\<lambda>b.
             if code_of a < code_of b then Inr False
             else if code_of a > code_of b then Inr True
             else compare_bytes number1 number2 (it + 1)))
      else Inr True)"
  by pat_completeness auto

termination
  by (relation "measure (\<lambda>(_, _, it). 60 - it)") auto

definition CompareCharNumbers :: "string \<Rightarrow> string \<Rightarrow> bool outcome" where
  "CompareCharNumbers number1 number2 = compare_bytes number1 number2 0"

fun unhex :: "string \<Rightarrow> string" where
  "unhex (a # b # cs) = byte_char (16 * hex_val a + hex_val b) # unhex cs"
| "unhex _ = []"

lemma hex_val_toHexChar: "0 \<le> v \<Longrightarrow> v < 16 \<Longrightarrow> hex_val (toHexChar v) = v"
  by (auto simp: hex_val_def hex_digit_def toHexChar_def)

lemma byte_char_code_of [simp]: "byte_char (code_of c) = c"
  by (simp add: byte_char_def code_of_def nat_mod_distrib)

lemma unhex_hex_bytes: "unhex (hex_bytes s @ [c]) = s"
proof (induction s)
  case (Cons a s)
  have "code_of a div 16 \<le> 255 div 16" using code_of_range(2) [of a] by (intro zdiv_mono1) linarith+
  then show ?case
    using Cons by (simp add: hex_val_toHexChar pos_imp_zdiv_nonneg_iff)
qed simp

text \<open>C40. \<open>stringToHex\<close> loses nothing: reading the pairs of digits back gives the bytes.\<close>

theorem stringToHex_roundtrip:
  assumes "len \<le> length s"
  shows "\<exists>r. stringToHex s len = Inr r \<and> length r = 2 * len + 1 \<and> unhex r = take len s"
proof -
  have "length (hex_bytes t) = 2 * length t" for t by (induction t) simp_all
  then show ?thesis using assms by (simp add: stringToHex_def unhex_hex_bytes)
qed

lemma stringToHex_roundtrip_witness:
  "\<exists>r. stringToHex ''asa'' 2 = Inr r \<and> length r = 2 * 2 + 1 \<and> unhex r = take 2 ''asa''"
  by (rule stringToHex_roundtrip) simp

end
