(* ===== verification/Imports.thy ===== *)
theory Imports
  imports Well_Formed Std_String
begin

text \<open>
  \<open>#file\<close> and \<open>#import\<close> (\<^verbatim>\<open>src/src/parser.cpp\<close>: \<open>addFileIncludes\<close>, \<open>loadModule\<close>, \<open>addModuleImports\<close>;
  \<^verbatim>\<open>src/src/filemanager.cpp\<close>: \<open>loadFile\<close>, the saving of files, \<open>directoryExists\<close>; the import loop of
  \<^verbatim>\<open>src/src/main.cpp\<close>). The file system is the parameter \<open>file_system\<close>; what the routines keep
  between calls (the lexer's globals, \<open>importedNodes\<close>, the two name sets) is the record \<open>loader\<close>.
  The results: no directive is left when the loop ends, every module is loaded once, the loop ends
  when finitely many modules exist, and \<open>#file\<close> never loads anything.
\<close>

section \<open>The file system\<close>

record file_system =
  readFile :: "string \<Rightarrow> string option"
  isDirectory :: "string \<Rightarrow> bool"
  entries :: "string \<Rightarrow> string list"
  weakly_canonical :: "string \<Rightarrow> string"
  projectDirectory :: string
  executableDirectory :: string

text \<open>The loop over \<open>std::getline\<close>: every line is given a newline, the last one too.\<close>

fun read_lines :: "string \<Rightarrow> string \<Rightarrow> string" where
  "read_lines str [] = (if str = [] then [] else str @ [newline_char])"
| "read_lines str (c # cs) =
     (if c = newline_char then str @ [newline_char] @ read_lines [] cs else read_lines (str @ [c]) cs)"

definition loadFile :: "file_system \<Rightarrow> string \<Rightarrow> nat \<times> string" where
  "loadFile fs fileName = (case readFile fs fileName of None \<Rightarrow> (1, []) | Some s \<Rightarrow> (0, read_lines [] s))"

definition directoryExists :: "file_system \<Rightarrow> string \<Rightarrow> bool" where
  "directoryExists fs path = isDirectory fs path"

text \<open>Saving, when the file can be opened: the file has the new contents afterwards.\<close>

definition saveStringToFile :: "(string \<Rightarrow> bool) \<Rightarrow> string \<Rightarrow> string \<Rightarrow> file_system \<Rightarrow> nat \<times> file_system" where
  "saveStringToFile can_open fileName s fs =
     (if can_open fileName then (0, fs\<lparr>readFile := (readFile fs)(fileName \<mapsto> s)\<rparr>) else (1, fs))"

definition saveVectorToFile :: "(string \<Rightarrow> bool) \<Rightarrow> string \<Rightarrow> string list \<Rightarrow> file_system \<Rightarrow> nat \<times> file_system" where
  "saveVectorToFile can_open fileName v fs =
     (if can_open fileName then (0, fs\<lparr>readFile := (readFile fs)(fileName \<mapsto> concat (map (\<lambda>s. s @ [newline_char]) v))\<rparr>) else (1, fs))"

lemma read_lines_text:
  "read_lines str s = (if str @ s = [] then [] else if s \<noteq> [] \<and> last s = newline_char then str @ s
     else str @ s @ [newline_char])"
  by (induction str s rule: read_lines.induct) auto

text \<open>What was saved line by line is loaded as it is, and a string with a newline at its end.\<close>

lemma saved_lines_loaded:
  "saveVectorToFile can_open fileName v fs = (0, fs') \<Longrightarrow> loadFile fs' fileName = (0, concat (map (\<lambda>s. s @ [newline_char]) v))"
  by (cases v rule: rev_cases) (auto simp: saveVectorToFile_def loadFile_def read_lines_text split: if_splits)

lemma saved_string_loaded:
  "saveStringToFile can_open fileName s fs = (0, fs') \<Longrightarrow>
   loadFile fs' fileName = (0, if s = [] \<or> last s = newline_char then s else s @ [newline_char])"
  by (auto simp: saveStringToFile_def loadFile_def read_lines_text split: if_splits)

section \<open>State and traversal\<close>

record loader =
  lex :: lexer
  importedNodes :: "ast list"
  importedModuleNames :: "string list"
  importedFileNames :: "string list"

text \<open>Tokenize, label, join and remove comments, parse.\<close>

definition load_source :: "string \<Rightarrow> string \<Rightarrow> loader \<Rightarrow> (ast \<times> loader) outcome" where
  "load_source fileString fileName st =
     (let lx = tokenize fileString [] fileName (lex st)
      in rbind (prepare_tokens (tokens lx)) (\<lambda>localTokens.
         rbind (parse_program localTokens) (\<lambda>localRoot. Inr (localRoot, st\<lparr>lex := lx\<rparr>))))"

fun visit_list :: "('a \<Rightarrow> 's \<Rightarrow> ('b \<times> 's) outcome) \<Rightarrow> 'a list \<Rightarrow> 's \<Rightarrow> ('b list \<times> 's) outcome" where
  "visit_list f [] s = Inr ([], s)"
| "visit_list f (c # cs) s =
     rbind (f c s) (\<lambda>(c', s'). rbind (visit_list f cs s') (\<lambda>(cs', s''). Inr (c' # cs', s'')))"

lemma visit_list_cong [fundef_cong]:
  "cs = cs' \<Longrightarrow> s = s' \<Longrightarrow> (\<And>c s. c \<in> set cs' \<Longrightarrow> f c s = g c s) \<Longrightarrow> visit_list f cs s = visit_list g cs' s'"
proof -
  assume "cs = cs'" "s = s'" and fg: "\<And>c s. c \<in> set cs' \<Longrightarrow> f c s = g c s"
  moreover have "visit_list f cs' s' = visit_list g cs' s'"
    using fg by (induction cs' arbitrary: s') (auto intro!: rbind_cong)
  ultimately show ?thesis by simp
qed

text \<open>Children first, then the node: the shape of all passes over the tree.\<close>

fun walk_tree :: "(ast \<Rightarrow> 's \<Rightarrow> (ast \<times> 's) outcome) \<Rightarrow> ast \<Rightarrow> 's \<Rightarrow> (ast \<times> 's) outcome" where
  "walk_tree visit (Node a cs ls) s =
     rbind (visit_list (walk_tree visit) cs s) (\<lambda>(cs', s'). visit (Node a cs' ls) s')"

declare walk_tree.simps [simp del]

lemma walk_tree_unfold:
  "walk_tree visit n s =
     rbind (visit_list (walk_tree visit) (childNodes n) s) (\<lambda>(cs', s'). visit (Node (info n) cs' (leafNodes n)) s')"
  by (cases n) (simp add: walk_tree.simps)

lemma visit_list_Inr:
  assumes "visit_list f cs s = Inr (cs', s')" and "Inv s"
    and "\<And>c s c' s'. c \<in> set cs \<Longrightarrow> f c s = Inr (c', s') \<Longrightarrow> Inv s \<Longrightarrow> Inv s' \<and> R c c'"
  shows "Inv s' \<and> list_all2 R cs cs'"
  using assms
proof (induction cs arbitrary: s cs')
  case (Cons c cs)
  then obtain c' s1 cs1 where c: "f c s = Inr (c', s1)" "visit_list f cs s1 = Inr (cs1, s')" "cs' = c' # cs1"
    by (auto split: prod.splits)
  with Cons.prems have "Inv s1 \<and> R c c'" by auto
  moreover have "Inv s' \<and> list_all2 R cs cs1"
    using c calculation Cons.prems(3) by (intro Cons.IH) auto
  ultimately show ?case using c by simp
qed simp

text \<open>What a visit establishes between a node and its image, given it for the children, holds for the
  whole tree.\<close>

lemma walk_tree_rule:
  assumes "walk_tree visit n s = Inr (n', s')" and "Inv s"
    and step: "\<And>m cs s m' s'. list_all2 R (childNodes m) cs \<Longrightarrow> visit (Node (info m) cs (leafNodes m)) s = Inr (m', s') \<Longrightarrow>
      Inv s \<Longrightarrow> Inv s' \<and> R m m'"
  shows "Inv s' \<and> R n n'"
  using assms(1,2)
proof (induction n arbitrary: s n' s' rule: ast_child_induct)
  case (Node n)
  from Node.prems(1) obtain cs s1 where
    cs: "visit_list (walk_tree visit) (childNodes n) s = Inr (cs, s1)" and
    v: "visit (Node (info n) cs (leafNodes n)) s1 = Inr (n', s')"
    by (subst (asm) walk_tree_unfold) (auto split: prod.splits)
  have "Inv s1 \<and> list_all2 R (childNodes n) cs"
    using cs Node.prems(2) by (rule visit_list_Inr) (use Node.IH in blast)
  then show ?case using v step by blast
qed

section \<open>addFileIncludes\<close>

definition directive :: "string \<Rightarrow> ast \<Rightarrow> bool" where
  "directive name n \<longleftrightarrow> childNodes n \<noteq> [] \<and> ntype n = Compile_Time_Directive
     \<and> tk_first (ntoken (hd (childNodes n))) = name"

definition include_file :: "file_system \<Rightarrow> ast \<Rightarrow> loader \<Rightarrow> (ast \<times> loader) outcome" where
  "include_file fs n st =
     (if directive ''file'' n
      then if length (childNodes n) > 1
        then rbind (vec_at (childNodes (childNodes n ! 1)) 0) (\<lambda>strChild.
          if ntype strChild = String_Node
          then let str = tk_first (ntoken strChild)
            in rbind (substr str 1 (if 2 \<le> length str then length str - 2 else length str)) (\<lambda>name.
              let fileName = weakly_canonical fs (projectDirectory fs @ name)
              in if fileName \<in> set (importedFileNames st) then Inr (set_type Nothing_Node n, st)
                 else (case loadFile fs fileName of (e, fileString) \<Rightarrow>
                   if e \<noteq> 0 then token_error (ntoken strChild) ''Failed to include file from given path''
                   else rbind (load_source fileString fileName
                          (st\<lparr>importedFileNames := fileName # importedFileNames st\<rparr>)) (\<lambda>(localRoot, st).
                        Inr (set_type Nothing_Node n,
                             st\<lparr>importedNodes := importedNodes st @ childNodes localRoot\<rparr>))))
          else token_error (ntoken strChild) ''Expected string literal'')
        else token_error (ntoken (hd (childNodes n))) ''Expected string literal''
      else Inr (n, st))"

definition addFileIncludes :: "file_system \<Rightarrow> ast \<Rightarrow> loader \<Rightarrow> (ast \<times> loader) outcome" where
  "addFileIncludes fs = walk_tree (include_file fs)"

section \<open>loadModule and addModuleImports\<close>

fun find_module :: "string \<Rightarrow> ast list \<Rightarrow> ast list option outcome" where
  "find_module moduleName [] = Inr None"
| "find_module moduleName (d # ds) =
     (case (ntype d = Compiler_Define, childNodes d) of
        (True, b # _) \<Rightarrow>
          (case childNodes b of
             moduleNode # _ \<Rightarrow>
               if ntype moduleNode = Module_Define_Node \<and> tk_first (ntoken d) = moduleName
               then rbind (vec_at (childNodes moduleNode) 0) (\<lambda>body. Inr (Some (childNodes body)))
               else find_module moduleName ds
           | [] \<Rightarrow> find_module moduleName ds)
      | _ \<Rightarrow> find_module moduleName ds)"

fun load_module :: "file_system \<Rightarrow> string list \<Rightarrow> string \<Rightarrow> loader \<Rightarrow> (bool \<times> loader) outcome" where
  "load_module fs [] moduleName st = Inr (False, st)"
| "load_module fs (pathStr # ps) moduleName st =
     rbind (load_source (snd (loadFile fs pathStr)) pathStr st) (\<lambda>(localRoot, st).
     rbind (find_module moduleName (childNodes localRoot)) (\<lambda>found.
       case found of
         Some ms \<Rightarrow> Inr (True, st\<lparr>importedNodes := importedNodes st @ ms\<rparr>)
       | None \<Rightarrow> load_module fs ps moduleName st))"

definition loadModule :: "file_system \<Rightarrow> string \<Rightarrow> string \<Rightarrow> loader \<Rightarrow> (bool \<times> loader) outcome" where
  "loadModule fs modulePath = load_module fs (entries fs modulePath)"

text \<open>The two search paths: the second is tried when the first did not have the module.\<close>

definition search_module :: "file_system \<Rightarrow> string \<Rightarrow> string \<Rightarrow> string \<Rightarrow> loader \<Rightarrow> (bool \<times> loader) outcome" where
  "search_module fs path1 path2 moduleName st =
     rbind (if directoryExists fs path1 then loadModule fs path1 moduleName st else Inr (False, st)) (\<lambda>(moduleFound, st).
       if \<not> moduleFound \<and> directoryExists fs path2 then loadModule fs path2 moduleName st
       else Inr (moduleFound, st))"

function module_tail :: "string \<Rightarrow> ast \<Rightarrow> (string \<times> string) outcome" where
  "module_tail modulePath e =
     (if ntype e = Member_Access
      then if length (childNodes e) < 2 then Inl Undefined_Behaviour
           else module_tail (modulePath @ ''/'' @ tk_first (ntoken (childNodes e ! 0))) (childNodes e ! 1)
      else Inr (modulePath, tk_first (ntoken e)))"
  by pat_completeness auto

termination
  by (relation "measure (\<lambda>(_, e). size e)") (auto intro!: child_size)

definition import_named ::
  "file_system \<Rightarrow> string \<Rightarrow> string \<Rightarrow> string \<Rightarrow> ast \<Rightarrow> ast \<Rightarrow> loader \<Rightarrow> (ast \<times> loader) outcome" where
  "import_named fs path1 path2 moduleName moduleNameNode n st =
     rbind (search_module fs path1 path2 moduleName st) (\<lambda>(moduleFound, st).
       let st = st\<lparr>importedModuleNames := moduleName # importedModuleNames st\<rparr>
       in if \<not> moduleFound then token_error (ntoken moduleNameNode) ''Failed to import module, not found''
          else Inr (set_type Nothing_Node n, st))"

definition hide_output :: "ast \<Rightarrow> ast" where
  "hide_output = map_info (showInASTOutput_update (\<lambda>_. False))"

definition import_module :: "file_system \<Rightarrow> ast \<Rightarrow> loader \<Rightarrow> (ast \<times> loader) outcome" where
  "import_module fs n st =
     (if directive ''import'' n
      then if length (childNodes n) > 1
        then rbind (vec_at (childNodes (childNodes n ! 1)) 0) (\<lambda>moduleNameNode.
          if ntype moduleNameNode = Member_Access
          then rbind (vec_at (childNodes moduleNameNode) 0) (\<lambda>first.
               rbind (vec_at (childNodes moduleNameNode) 1) (\<lambda>secondExpression.
               rbind (module_tail (tk_first (ntoken first)) secondExpression) (\<lambda>(modulePath, moduleName).
                 if moduleName \<in> set (importedModuleNames st)
                 then Inr (hide_output (set_type Nothing_Node n), st)
                 else import_named fs (projectDirectory fs @ modulePath)
                        (executableDirectory fs @ ''modules/'' @ modulePath) moduleName moduleNameNode n st)))
          else if ntype moduleNameNode = Identifier_Node
          then let moduleName = tk_first (ntoken moduleNameNode)
            in if moduleName \<in> set (importedModuleNames st) then Inr (set_type Nothing_Node n, st)
               else import_named fs (projectDirectory fs) (executableDirectory fs @ ''modules/'') moduleName
                      moduleNameNode n st
          else token_error (ntoken moduleNameNode) ''Expected module name'')
        else token_error (ntoken (hd (childNodes n))) ''Expected module name''
      else Inr (n, st))"

definition addModuleImports :: "file_system \<Rightarrow> ast \<Rightarrow> loader \<Rightarrow> (ast \<times> loader) outcome" where
  "addModuleImports fs = walk_tree (import_module fs)"

section \<open>The import loop\<close>

text \<open>Each imported node is put at the front of the root's children in turn, which reverses them.\<close>

definition insert_imported :: "ast \<Rightarrow> loader \<Rightarrow> ast \<times> loader \<times> bool" where
  "insert_imported root st =
     (set_children (foldl (\<lambda>cs n. n # cs) (childNodes root) (importedNodes st)) root,
      st\<lparr>importedNodes := []\<rparr>, importedNodes st \<noteq> [])"

definition import_round :: "file_system \<Rightarrow> ast \<Rightarrow> loader \<Rightarrow> (ast \<times> loader \<times> bool) outcome" where
  "import_round fs root st =
     rbind (addFileIncludes fs root st) (\<lambda>(root, st).
       case insert_imported root st of (root, st, files) \<Rightarrow>
     rbind (addModuleImports fs root st) (\<lambda>(root, st).
       case insert_imported root st of (root, st, modules) \<Rightarrow> Inr (root, st, files \<or> modules)))"

partial_function (option) import_loop :: "file_system \<Rightarrow> ast \<Rightarrow> loader \<Rightarrow> (ast \<times> loader) outcome option" where
  [code]: "import_loop fs root st =
     (case import_round fs root st of
        Inl e \<Rightarrow> Some (Inl e)
      | Inr (root, st, again) \<Rightarrow> if again then import_loop fs root st else Some (Inr (root, st)))"

section \<open>What a pass leaves\<close>

text \<open>The node that a visit returns: as it was, or with another type, and with the same children.\<close>

lemma include_file_cases:
  assumes "include_file fs n st = Inr (n', st')"
  obtains "n' = n" "st' = st" "\<not> directive ''file'' n"
  | "n' = set_type Nothing_Node n" "1 < length (childNodes n)" "0 < length (childNodes (childNodes n ! 1))"
      "ntype (childNodes (childNodes n ! 1) ! 0) = String_Node" "importedModuleNames st' = importedModuleNames st"
  using assms
  by (auto simp: include_file_def load_source_def Let_def split: if_splits prod.splits)

lemma load_module_names:
  "load_module fs ps moduleName st = Inr (b, st') \<Longrightarrow> importedModuleNames st' = importedModuleNames st
     \<and> importedFileNames st' = importedFileNames st \<and> (b \<or> importedNodes st' = importedNodes st)"
proof (induction fs ps moduleName st rule: load_module.induct)
  case (2 fs p ps moduleName st)
  obtain root st1 found where r: "load_source (snd (loadFile fs p)) p st = Inr (root, st1)"
      "find_module moduleName (childNodes root) = Inr found"
    using 2(2) by (auto split: prod.splits)
  have "importedModuleNames st1 = importedModuleNames st" "importedFileNames st1 = importedFileNames st"
      "importedNodes st1 = importedNodes st"
    using r(1) by (auto simp: load_source_def Let_def)
  then show ?case
    using 2 r by (cases found) auto
qed simp

lemma search_module_names:
  "search_module fs p1 p2 moduleName st = Inr (b, st') \<Longrightarrow> importedModuleNames st' = importedModuleNames st
     \<and> (b \<or> importedNodes st' = importedNodes st)"
  by (auto simp: search_module_def loadModule_def split: if_splits prod.splits
      dest!: load_module_names)

lemma import_named_Inr:
  assumes "import_named fs p1 p2 name mn n st = Inr (n', st')"
  shows "\<exists>st1. n' = set_type Nothing_Node n \<and> search_module fs p1 p2 name st = Inr (True, st1)
    \<and> st' = st1\<lparr>importedModuleNames := name # importedModuleNames st1\<rparr>"
  using assms by (auto simp: import_named_def Let_def split: if_splits prod.splits)

lemma import_module_Inr:
  assumes "import_module fs n st = Inr (n', st')" and "directive ''import'' n"
  shows "(n' = set_type Nothing_Node n \<or> n' = hide_output (set_type Nothing_Node n)) \<and> st' = st
    \<or> (\<exists>p1 p2 name mn. name \<notin> set (importedModuleNames st) \<and> import_named fs p1 p2 name mn n st = Inr (n', st'))"
proof -
  obtain mn where mn: "(if ntype mn = Member_Access
        then rbind (vec_at (childNodes mn) 0) (\<lambda>first.
             rbind (vec_at (childNodes mn) 1) (\<lambda>secondExpression.
             rbind (module_tail (tk_first (ntoken first)) secondExpression) (\<lambda>(modulePath, moduleName).
               if moduleName \<in> set (importedModuleNames st)
               then Inr (hide_output (set_type Nothing_Node n), st)
               else import_named fs (projectDirectory fs @ modulePath)
                      (executableDirectory fs @ ''modules/'' @ modulePath) moduleName mn n st)))
        else if ntype mn = Identifier_Node
        then let moduleName = tk_first (ntoken mn)
          in if moduleName \<in> set (importedModuleNames st) then Inr (set_type Nothing_Node n, st)
             else import_named fs (projectDirectory fs) (executableDirectory fs @ ''modules/'') moduleName mn n st
        else token_error (ntoken mn) ''Expected module name'') = Inr (n', st')"
    using assms unfolding import_module_def by (simp split: if_splits) (elim rbind_InrE, blast)
  show ?thesis
  proof (cases "ntype mn = Member_Access")
    case True
    with mn [unfolded if_P [OF True] case_prod_beta] obtain mp name where "(if name \<in> set (importedModuleNames st)
        then Inr (hide_output (set_type Nothing_Node n), st)
        else import_named fs (projectDirectory fs @ mp) (executableDirectory fs @ ''modules/'' @ mp) name mn n st)
        = Inr (n', st')"
      by (elim rbind_InrE) blast
    then show ?thesis by (cases "name \<in> set (importedModuleNames st)") auto
  next
    case False
    with mn show ?thesis
      by (cases "tk_first (ntoken mn) \<in> set (importedModuleNames st)") (auto simp: Let_def split: if_splits)
  qed
qed

lemma import_module_cases:
  assumes "import_module fs n st = Inr (n', st')"
  obtains "n' = n" "st' = st" "\<not> directive ''import'' n"
  | "n' = set_type Nothing_Node n \<or> n' = hide_output (set_type Nothing_Node n)" "st' = st"
  | p1 p2 name st1 where "n' = set_type Nothing_Node n" "name \<notin> set (importedModuleNames st)"
      "search_module fs p1 p2 name st = Inr (True, st1)"
      "st' = st1\<lparr>importedModuleNames := name # importedModuleNames st1\<rparr>"
proof (cases "directive ''import'' n")
  case True
  from import_module_Inr [OF assms True] import_named_Inr [of fs _ _ _ _ n st n' st'] that(2,3)
  show ?thesis by blast
next
  case False
  with assms that(1) show ?thesis by (simp add: import_module_def)
qed

lemma hide_output_sel [simp]:
  "childNodes (hide_output n) = childNodes n" "ntype (hide_output n) = ntype n" "ntoken (hide_output n) = ntoken n"
  by (simp_all add: hide_output_def)

lemma list_all2_right: "list_all2 P xs ys \<Longrightarrow> y \<in> set ys \<Longrightarrow> \<exists>x \<in> set xs. P x y"
  by (induction rule: list_all2_induct) auto

text \<open>Between a node and its image: same children up to this relation, same token, and the type is
  kept or \<open>Nothing_Node\<close>.\<close>

inductive retyped :: "ast \<Rightarrow> ast \<Rightarrow> bool" where
  "list_all2 retyped (childNodes m) (childNodes m') \<Longrightarrow> ntoken m' = ntoken m \<Longrightarrow>
   ntype m' = ntype m \<or> ntype m' = Nothing_Node \<Longrightarrow> retyped m m'"
monos list_all2_mono

inductive_cases retypedE: "retyped m m'"

definition no_directive :: "string \<Rightarrow> ast \<Rightarrow> bool" where
  "no_directive name n \<longleftrightarrow> list_all (\<lambda>m. \<not> directive name m) (nodes n)"

lemma no_directive_iff:
  "no_directive name n \<longleftrightarrow> \<not> directive name n \<and> (\<forall>c \<in> set (childNodes n). no_directive name c)"
  by (cases n) (auto simp: no_directive_def list_all_iff)

lemma directive_retyped: "retyped m m' \<Longrightarrow> directive name m' \<Longrightarrow> directive name m"
  by (cases "childNodes m"; cases "childNodes m'") (auto simp: directive_def elim!: retypedE)

lemma no_directive_retyped: "retyped m m' \<Longrightarrow> no_directive name m \<Longrightarrow> no_directive name m'"
proof (induction m arbitrary: m' rule: ast_child_induct)
  case (Node m)
  then have "list_all2 retyped (childNodes m) (childNodes m')" by (auto elim: retypedE)
  then have "no_directive name c'" if "c' \<in> set (childNodes m')" for c'
    using that Node no_directive_iff [of name m] list_all2_right by metis
  then show ?case
    using Node directive_retyped no_directive_iff by blast
qed

lemma directive_cong: "list_all2 retyped (childNodes m) cs \<Longrightarrow> directive name (Node (info m) cs ls) = directive name m"
  by (cases "childNodes m"; cases cs) (auto simp: directive_def elim!: retypedE)

lemma not_directive_Nothing [simp]: "ntype n = Nothing_Node \<Longrightarrow> \<not> directive name n"
  by (simp add: directive_def)

text \<open>The pass over a tree, for the visit of either directive.\<close>

lemma pass_clears:
  assumes "walk_tree visit n s = Inr (n', s')"
    and visit: "\<And>m s m' s'. visit m s = Inr (m', s') \<Longrightarrow> childNodes m' = childNodes m \<and> ntoken m' = ntoken m
      \<and> (m' = m \<and> \<not> directive name m \<or> ntype m' = Nothing_Node)"
  shows "retyped n n' \<and> no_directive name n'"
proof -
  have "True \<and> retyped n n' \<and> no_directive name n'"
  proof (rule walk_tree_rule [OF assms(1), of "\<lambda>_. True" "\<lambda>m m'. retyped m m' \<and> no_directive name m'"])
    fix m cs s m' s'
    assume cs: "list_all2 (\<lambda>m m'. retyped m m' \<and> no_directive name m') (childNodes m) cs"
      and v: "visit (Node (info m) cs (leafNodes m)) s = Inr (m', s')"
    have r: "list_all2 retyped (childNodes m) cs" using cs by (auto elim!: list_all2_mono)
    have nd: "no_directive name c" if "c \<in> set cs" for c
      using list_all2_right [OF cs that] by blast
    have "childNodes m' = cs" "ntoken m' = ntoken m" "ntype m' = ntype m \<or> ntype m' = Nothing_Node"
        using visit [OF v] by (metis ast.sel)+
    then have "retyped m m'" using r by (intro retyped.intros) simp_all
    moreover have "no_directive name m'" using visit [OF v] nd no_directive_iff [of name m'] by auto
    ultimately show "True \<and> retyped m m' \<and> no_directive name m'" by simp
  qed simp
  then show ?thesis by simp
qed

lemma addFileIncludes_clears: "addFileIncludes fs n st = Inr (n', st') \<Longrightarrow> retyped n n' \<and> no_directive ''file'' n'"
  unfolding addFileIncludes_def by (erule pass_clears) (auto elim!: include_file_cases)

lemma addModuleImports_clears: "addModuleImports fs n st = Inr (n', st') \<Longrightarrow> retyped n n' \<and> no_directive ''import'' n'"
  unfolding addModuleImports_def by (erule pass_clears) (auto elim!: import_module_cases)

section \<open>Trees without \<open>String_Node\<close>\<close>

definition no_string :: "ast \<Rightarrow> bool" where
  "no_string n \<longleftrightarrow> list_all (\<lambda>m. ntype m \<noteq> String_Node) (nodes n)"

lemma no_string_iff: "no_string n \<longleftrightarrow> ntype n \<noteq> String_Node \<and> (\<forall>c \<in> set (childNodes n). no_string c)"
  by (cases n) (auto simp: no_string_def list_all_iff)

lemma no_string_child: "no_string n \<Longrightarrow> i < length (childNodes n) \<Longrightarrow> no_string (childNodes n ! i)"
  by (simp add: no_string_iff [of n])

lemma parse_program_no_string: "parse_program ts = Inr root \<Longrightarrow> no_string root"
  using generateAST_types by (auto simp: no_string_def list_all_iff)

lemma no_string_retyped: "retyped m m' \<Longrightarrow> no_string m \<Longrightarrow> no_string m'"
proof (induction m arbitrary: m' rule: ast_child_induct)
  case (Node m)
  then have r: "list_all2 retyped (childNodes m) (childNodes m')" "ntype m' = ntype m \<or> ntype m' = Nothing_Node"
    by (auto elim: retypedE)
  then have "no_string c'" if "c' \<in> set (childNodes m')" for c'
    using that Node no_string_iff [of m] list_all2_right by metis
  then show ?case using r(2) Node.prems(2) no_string_iff [of m] no_string_iff [of m'] by auto
qed

lemma addFileIncludes_same:
  "no_string n \<Longrightarrow> addFileIncludes fs n st = Inr (n', st') \<Longrightarrow> n' = n \<and> st' = st \<and> no_directive ''file'' n"
proof (induction n arbitrary: st n' st' rule: ast_child_induct)
  case (Node n)
  from Node.prems(2) obtain cs s1 where
    cs: "visit_list (walk_tree (include_file fs)) (childNodes n) st = Inr (cs, s1)" and
    v: "include_file fs (Node (info n) cs (leafNodes n)) s1 = Inr (n', st')"
    unfolding addFileIncludes_def by (subst (asm) walk_tree_unfold) (auto split: prod.splits)
  have "s1 = st \<and> list_all2 (\<lambda>c c'. c' = c \<and> no_directive ''file'' c) (childNodes n) cs"
    using cs
  proof (rule visit_list_Inr)
    fix c s c' s'
    assume "c \<in> set (childNodes n)" "walk_tree (include_file fs) c s = Inr (c', s')" "s = st"
    then show "s' = st \<and> c' = c \<and> no_directive ''file'' c"
      using Node.IH [of c s c' s'] Node.prems(1) no_string_iff [of n] by (simp add: addFileIncludes_def)
  qed simp
  then have s1: "s1 = st" and same: "cs = childNodes n" and nd: "\<forall>c \<in> set (childNodes n). no_directive ''file'' c"
    by (auto simp: list_all2_conv_all_nth in_set_conv_nth intro: nth_equalityI)
  have "include_file fs n st = Inr (n', st')" using v s1 same by simp
  then show ?case
  proof (cases rule: include_file_cases)
    case 1
    then show ?thesis using nd no_directive_iff [of _ n] by simp
  next
    case 2
    have "no_string (childNodes n ! 1)" using no_string_child [OF Node.prems(1) 2(2)] .
    from no_string_child [OF this 2(3)] 2(4) no_string_iff [of "childNodes (childNodes n ! 1) ! 0"]
    show ?thesis by blast
  qed
qed


definition no_files :: file_system where
  "no_files = \<lparr>readFile = (\<lambda>_. None), isDirectory = (\<lambda>_. False), entries = (\<lambda>_. []), weakly_canonical = id,
     projectDirectory = ''project/'', executableDirectory = ''asa/''\<rparr>"

definition loader_start :: loader where
  "loader_start = \<lparr>lex = lexer_start, importedNodes = [], importedModuleNames = [], importedFileNames = []\<rparr>"

text \<open>A pass whose visit changes nothing.\<close>

lemma walk_tree_same:
  "(\<And>m. m \<in> set (nodes n) \<Longrightarrow> visit m st = Inr (m, st)) \<Longrightarrow> walk_tree visit n st = Inr (n, st)"
proof (induction n rule: ast_child_induct)
  case (Node n)
  have "visit_list (walk_tree visit) cs st = Inr (cs, st)" if "set cs \<subseteq> set (childNodes n)" for cs
    using that
  proof (induction cs)
    case (Cons c cs)
    then have "walk_tree visit c st = Inr (c, st)" using Node nodes_child by (metis list.set_intros(1) subsetD)
    with Cons show ?case by simp
  qed simp
  then show ?case
    using Node.prems [OF node_in_nodes] by (subst walk_tree_unfold) simp
qed

lemma passes_plain:
  assumes "list_all (\<lambda>m. ntype m \<noteq> Compile_Time_Directive) (nodes n)"
  shows "addFileIncludes fs n st = Inr (n, st)" and "addModuleImports fs n st = Inr (n, st)"
  using assms unfolding addFileIncludes_def addModuleImports_def
  by (auto intro!: walk_tree_same simp: include_file_def import_module_def directive_def list_all_iff)


section \<open>The loop\<close>

lemma insert_imported_sel:
  "insert_imported root st = (root', st', again) \<Longrightarrow> importedNodes st' = [] \<and> importedModuleNames st' = importedModuleNames st
     \<and> (again \<longleftrightarrow> importedNodes st \<noteq> []) \<and> (\<not> again \<longrightarrow> root' = root)
     \<and> ntype root' = ntype root \<and> set (childNodes root') = set (importedNodes st) \<union> set (childNodes root)"
proof -
  have "foldl (\<lambda>cs n. n # cs) xs ys = rev ys @ xs" for xs ys :: "ast list"
    by (induction ys arbitrary: xs) simp_all
  moreover assume "insert_imported root st = (root', st', again)"
  ultimately show ?thesis by (auto simp: insert_imported_def set_children_def)
qed

lemma import_round_clears:
  assumes "import_round fs root st = Inr (root', st', again)"
  shows "importedNodes st' = [] \<and> (again \<or> no_directive ''file'' root' \<and> no_directive ''import'' root')"
proof -
  obtain r1 s1 r2 s2 f r3 s3 m where
    r: "addFileIncludes fs root st = Inr (r1, s1)" "insert_imported r1 s1 = (r2, s2, f)"
      "addModuleImports fs r2 s2 = Inr (r3, s3)" "insert_imported r3 s3 = (root', st', m)" "again = (f \<or> m)"
    using assms unfolding import_round_def by (auto split: prod.splits)
  show ?thesis
    using addFileIncludes_clears [OF r(1)] addModuleImports_clears [OF r(3)] insert_imported_sel [OF r(2)]
      insert_imported_sel [OF r(4)] r(5) no_directive_retyped by auto
qed

text \<open>
  C23. When the import loop ends, the tree has no \<open>#file\<close> and no \<open>#import\<close> directive left, the imported
  modules' own directives included, and no imported node is waiting.
\<close>

theorem import_loop_clears:
  assumes "import_loop fs root st = Some (Inr (root', st'))"
  shows "no_directive ''file'' root' \<and> no_directive ''import'' root' \<and> importedNodes st' = []"
proof -
  have "case y of Inl _ \<Rightarrow> True | Inr (root', st') \<Rightarrow>
      no_directive ''file'' root' \<and> no_directive ''import'' root' \<and> importedNodes st' = []"
    if "import_loop fs root st = Some y" for y
  proof (rule import_loop.raw_induct [OF _ that, where P = "\<lambda>fs root st y. case y of Inl _ \<Rightarrow> True
      | Inr (root', st') \<Rightarrow> no_directive ''file'' root' \<and> no_directive ''import'' root' \<and> importedNodes st' = []"])
    fix loop :: "file_system \<Rightarrow> ast \<Rightarrow> loader \<Rightarrow> (ast \<times> loader) outcome option" and fs root st y
    assume IH: "\<And>fs root st y. loop fs root st = Some y \<Longrightarrow> case y of Inl _ \<Rightarrow> True
        | Inr (root', st') \<Rightarrow> no_directive ''file'' root' \<and> no_directive ''import'' root' \<and> importedNodes st' = []"
      and body: "(case import_round fs root st of Inl e \<Rightarrow> Some (Inl e)
        | Inr (root, st, again) \<Rightarrow> if again then loop fs root st else Some (Inr (root, st))) = Some y"
    show "case y of Inl _ \<Rightarrow> True
        | Inr (root', st') \<Rightarrow> no_directive ''file'' root' \<and> no_directive ''import'' root' \<and> importedNodes st' = []"
    proof (cases "import_round fs root st")
      case (Inl e)
      then show ?thesis using body by auto
    next
      case (Inr a)
      then obtain r s again where a: "import_round fs root st = Inr (r, s, again)" by (cases a) auto
      then show ?thesis using body IH import_round_clears [OF a] by (cases again) auto
    qed
  qed
  from this [OF assms] show ?thesis by simp
qed

text \<open>
  What the imports keep: a module is loaded at most once, new nodes come with a new module name, and
  the new names are in \<open>M\<close>, where \<open>M\<close> holds the names that a search can find.
\<close>

definition modules_in :: "file_system \<Rightarrow> string set \<Rightarrow> bool" where
  "modules_in fs M \<longleftrightarrow>
     (\<forall>p1 p2 name st st'. search_module fs p1 p2 name st = Inr (True, st') \<longrightarrow> name \<in> M)"

definition loaded_from :: "string set \<Rightarrow> string list \<Rightarrow> loader \<Rightarrow> bool" where
  "loaded_from M names st \<longleftrightarrow> list_all no_string (importedNodes st)
     \<and> set names \<subseteq> set (importedModuleNames st) \<and> set (importedModuleNames st) \<subseteq> set names \<union> M
     \<and> (distinct names \<longrightarrow> distinct (importedModuleNames st))
     \<and> (importedNodes st = [] \<or> set (importedModuleNames st) \<noteq> set names)"

lemma no_string_head: "no_string n \<Longrightarrow> childNodes n = c # cs \<Longrightarrow> no_string c"
  using no_string_iff [of n] by simp

lemma find_module_nodes:
  "find_module moduleName ds = Inr (Some ms) \<Longrightarrow> list_all no_string ds \<Longrightarrow> list_all no_string ms"
proof (induction moduleName ds rule: find_module.induct)
  case step: (2 moduleName d ds)
  have d: "no_string d" using step.prems by simp
  consider b bs m rest where "childNodes d = b # bs" "childNodes b = m # rest"
      "rbind (vec_at (childNodes m) 0) (\<lambda>body. Inr (Some (childNodes body))) = (Inr (Some ms) :: ast list option outcome)"
    | "list_all no_string ms"
    using step by (auto split: bool.splits list.splits if_splits)
  then show ?case
  proof cases
    case 1
    then obtain c where c: "childNodes m \<noteq> []" "c = childNodes m ! 0" "ms = childNodes c" by auto
    have "no_string m" using no_string_head no_string_head [OF d] 1(1,2) by blast
    then have "no_string c" using c no_string_child [of m 0] by simp
    then show ?thesis using c(3) no_string_iff [of c] by (simp add: list_all_iff)
  qed simp
qed simp

lemma load_module_nodes:
  "load_module fs ps moduleName st = Inr (b, st') \<Longrightarrow> list_all no_string (importedNodes st) \<Longrightarrow>
   list_all no_string (importedNodes st')"
proof (induction fs ps moduleName st rule: load_module.induct)
  case (2 fs p ps moduleName st)
  obtain root st1 found where r: "load_source (snd (loadFile fs p)) p st = Inr (root, st1)"
      "find_module moduleName (childNodes root) = Inr found"
    using 2(2) by (auto split: prod.splits)
  have st1: "importedNodes st1 = importedNodes st" and root: "no_string root"
    using r(1) parse_program_no_string by (auto simp: load_source_def Let_def)
  have "list_all no_string (childNodes root)" using root no_string_iff [of root] by (simp add: list_all_iff)
  then show ?case
    using 2 r st1 find_module_nodes [of moduleName "childNodes root"] by (cases found) auto
qed simp

lemma search_module_nodes:
  "search_module fs p1 p2 moduleName st = Inr (b, st') \<Longrightarrow> list_all no_string (importedNodes st) \<Longrightarrow>
   list_all no_string (importedNodes st')"
  by (auto simp: search_module_def loadModule_def split: if_splits prod.splits) (blast dest: load_module_nodes)+

lemma import_module_loaded:
  assumes "import_module fs n st = Inr (n', st')" and "loaded_from M names st" and "modules_in fs M"
  shows "loaded_from M names st'"
  using assms(1)
proof (cases rule: import_module_cases)
  case (3 p1 p2 name st1)
  have "name \<in> M" using 3(3) assms(3) unfolding modules_in_def by blast
  then show ?thesis
    using 3(2,4) assms(2) search_module_names [OF 3(3)] search_module_nodes [OF 3(3)]
    by (auto simp: loaded_from_def)
qed (use assms(2) in simp_all)

lemma addModuleImports_loaded:
  assumes "addModuleImports fs n st = Inr (n', st')" and "loaded_from M names st" and "modules_in fs M"
  shows "loaded_from M names st'"
  using walk_tree_rule [OF assms(1) [unfolded addModuleImports_def], of "loaded_from M names" "\<lambda>_ _. True"]
    assms(2,3) import_module_loaded by blast

lemma loaded_start: "importedNodes st = [] \<Longrightarrow> loaded_from M (importedModuleNames st) st"
  by (simp add: loaded_from_def)

lemma import_round_loaded:
  assumes "import_round fs root st = Inr (root', st', again)" and "no_string root" and "importedNodes st = []"
    and "modules_in fs M"
  shows "no_string root' \<and> importedNodes st' = [] \<and> (distinct (importedModuleNames st) \<longrightarrow> distinct (importedModuleNames st'))
    \<and> set (importedModuleNames st) \<subseteq> set (importedModuleNames st')
    \<and> set (importedModuleNames st') \<subseteq> set (importedModuleNames st) \<union> M
    \<and> (\<not> again \<or> set (importedModuleNames st') \<noteq> set (importedModuleNames st))"
proof -
  obtain r1 s1 r2 s2 f r3 s3 m where
    r: "addFileIncludes fs root st = Inr (r1, s1)" "insert_imported r1 s1 = (r2, s2, f)"
      "addModuleImports fs r2 s2 = Inr (r3, s3)" "insert_imported r3 s3 = (root', st', m)" "again = (f \<or> m)"
    using assms(1) unfolding import_round_def by (auto split: prod.splits)
  have one: "r1 = root" "s1 = st" using addFileIncludes_same [OF assms(2) r(1)] by simp_all
  note i2 = insert_imported_sel [OF r(2)] and i4 = insert_imported_sel [OF r(4)]
  have two: "r2 = root" "importedNodes s2 = []" "importedModuleNames s2 = importedModuleNames st" "\<not> f"
    using i2 one assms(3) by auto
  have three: "loaded_from M (importedModuleNames st) s3"
    using addModuleImports_loaded [OF r(3) _ assms(4)] loaded_start two(2,3) by metis
  have "no_string r3" using no_string_retyped addModuleImports_clears [OF r(3)] assms(2) two(1) by blast
  then have "no_string root'"
    using i4 three no_string_iff [of r3] no_string_iff [of root'] by (auto simp: loaded_from_def list_all_iff)
  then show ?thesis
    using i4 three r(5) two(4) by (auto simp: loaded_from_def)
qed

lemma import_loop_step:
  "import_loop fs root st = (case import_round fs root st of Inl e \<Rightarrow> Some (Inl e)
     | Inr (root, st, again) \<Rightarrow> if again then import_loop fs root st else Some (Inr (root, st)))"
  by (rule import_loop.simps)

lemma import_loop_returns:
  assumes "finite M" and "modules_in fs M"
  shows "no_string root \<Longrightarrow> importedNodes st = [] \<Longrightarrow> distinct (importedModuleNames st) \<Longrightarrow>
    \<exists>r. import_loop fs root st = Some r \<and> (case r of Inl _ \<Rightarrow> True | Inr (_, st') \<Rightarrow> distinct (importedModuleNames st'))"
proof (induction "card (M - set (importedModuleNames st))" arbitrary: root st rule: less_induct)
  case less
  show ?case
  proof (cases "import_round fs root st")
    case (Inl e)
    then show ?thesis by (subst import_loop_step) simp
  next
    case (Inr a)
    then obtain r s again where a: "import_round fs root st = Inr (r, s, again)" by (cases a) auto
    note l = import_round_loaded [OF a less.prems(1,2) assms(2)]
    show ?thesis
    proof (cases again)
      case True
      then have "M - set (importedModuleNames s) \<subset> M - set (importedModuleNames st)" using l by auto
      then have "card (M - set (importedModuleNames s)) < card (M - set (importedModuleNames st))"
        using assms(1) by (intro psubset_card_mono) auto
      then have "\<exists>r'. import_loop fs r s = Some r' \<and> (case r' of Inl _ \<Rightarrow> True | Inr (_, st') \<Rightarrow> distinct (importedModuleNames st'))"
        using l less by blast
      then show ?thesis using a True by (subst import_loop_step) simp
    next
      case False
      then show ?thesis using a l less.prems(3) by (subst import_loop_step) simp
    qed
  qed
qed



lemma import_loop_clears_witness:
  "import_loop no_files (program_root return_program) loader_start = Some (Inr (program_root return_program, loader_start))
   \<and> no_directive ''file'' (program_root return_program) \<and> no_directive ''import'' (program_root return_program)"
proof -
  let ?r = "program_root return_program"
  have plain: "list_all (\<lambda>m. ntype m \<noteq> Compile_Time_Directive) (nodes ?r)" by code_simp
  have "import_round no_files ?r loader_start = Inr (?r, loader_start, False)"
    by (simp add: import_round_def passes_plain [OF plain]
        insert_imported_def loader_start_def set_children_def)
  then have run: "import_loop no_files ?r loader_start = Some (Inr (?r, loader_start))"
    by (subst import_loop_step) simp
  from import_loop_clears [OF run] run show ?thesis by simp
qed

end
