(* ===== verification/Unify.thy ===== *)
theory Unify
  imports Ast
begin

text \<open>
  \<open>unifyNodes\<close> (\<^verbatim>\<open>src/src/parser.cpp\<close>) works on pointers: it is given a reference to the slot that holds
  a node, follows \<open>parentNode\<close>, and writes to a slot of the grandparent that is the very slot the
  caller's own reference names. The model is a store of nodes with parent and child addresses; the
  result is that on a tree the routine replaces every chain of only children of one type by its last
  node, except for the chain that starts at the root.
\<close>

section \<open>The store\<close>

record cell =
  cinfo :: ninfo
  cleaves :: "ast list"
  ckids :: "nat list"
  cparent :: "nat option"

type_synonym heap = "nat \<Rightarrow> cell"

abbreviation ctype :: "heap \<Rightarrow> nat \<Rightarrow> ASTNodeType" where
  "ctype h n \<equiv> nodeType (cinfo (h n))"

text \<open>\<open>ASTNode*&\<close>: the variable that holds the root, or an element of a child vector.\<close>

datatype slot = Root_Slot nat | Kid_Slot nat nat

fun deref :: "heap \<Rightarrow> slot \<Rightarrow> nat" where
  "deref h (Root_Slot r) = r"
| "deref h (Kid_Slot q j) = ckids (h q) ! j"

section \<open>unifyNodes\<close>

definition lift_node :: "heap \<Rightarrow> nat \<Rightarrow> heap" where
  "lift_node h n =
     (case cparent (h n) of
        None \<Rightarrow> h
      | Some oldP \<Rightarrow>
          if length (ckids (h oldP)) = 1 \<and> ctype h n = ctype h oldP
          then let p = cparent (h oldP); h = h(n := (h n)\<lparr>cparent := p\<rparr>)
               in (case p of
                     None \<Rightarrow> h
                   | Some q \<Rightarrow> h(q := (h q)\<lparr>ckids := map (\<lambda>m. if m = oldP then n else m) (ckids (h q))\<rparr>))
          else h)"

text \<open>The node is read through the slot again in every round of the loop. The first argument bounds
  the depth of calls and rounds.\<close>

fun unifyNodes :: "nat \<Rightarrow> heap \<Rightarrow> slot \<Rightarrow> heap option"
  and unify_loop :: "nat \<Rightarrow> heap \<Rightarrow> slot \<Rightarrow> nat \<Rightarrow> heap option" where
  "unifyNodes 0 h s = None"
| "unifyNodes (Suc k) h s = unify_loop k (lift_node h (deref h s)) s 0"
| "unify_loop 0 h s i = None"
| "unify_loop (Suc k) h s i =
     (if i < length (ckids (h (deref h s)))
      then (case unifyNodes k h (Kid_Slot (deref h s) i) of
              None \<Rightarrow> None
            | Some h' \<Rightarrow> unify_loop k h' s (i + 1))
      else Some h)"

lemma unify_Suc:
  "(unifyNodes k h s = Some h' \<longrightarrow> unifyNodes (Suc k) h s = Some h')
   \<and> (unify_loop k h s i = Some h'' \<longrightarrow> unify_loop (Suc k) h s i = Some h'')"
proof (induction k arbitrary: h s i h' h'')
  case (Suc k)
  have "unify_loop (Suc (Suc k)) h s i = Some h''" if l: "unify_loop (Suc k) h s i = Some h''"
  proof (cases "i < length (ckids (h (deref h s)))")
    case True
    then obtain h1 where "unifyNodes k h (Kid_Slot (deref h s) i) = Some h1" "unify_loop k h1 s (i + 1) = Some h''"
      using l by (auto split: option.splits)
    then have "unifyNodes (Suc k) h (Kid_Slot (deref h s) i) = Some h1" "unify_loop (Suc k) h1 s (i + 1) = Some h''"
      using Suc by blast+
    with True show ?thesis by (simp only: unify_loop.simps(2) [of "Suc k"] if_True option.case)
  next
    case False
    with l show ?thesis by simp
  qed
  moreover have "unifyNodes (Suc (Suc k)) h s = Some h'" if "unifyNodes (Suc k) h s = Some h'"
    using that Suc by (simp only: unifyNodes.simps(2))
  ultimately show ?case by blast
qed simp

lemma unify_mono:
  "unifyNodes k h s = Some h' \<Longrightarrow> k \<le> k' \<Longrightarrow> unifyNodes k' h s = Some h'"
  "unify_loop k h s i = Some h' \<Longrightarrow> k \<le> k' \<Longrightarrow> unify_loop k' h s i = Some h'"
  by (induction k' rule: nat_induct; use unify_Suc in \<open>metis le_Suc_eq le_0_eq\<close>)+

definition runs :: "heap \<Rightarrow> slot \<Rightarrow> heap \<Rightarrow> bool" where
  "runs h s h' \<longleftrightarrow> (\<exists>k. unifyNodes k h s = Some h')"

definition loops :: "heap \<Rightarrow> slot \<Rightarrow> nat \<Rightarrow> heap \<Rightarrow> bool" where
  "loops h s i h' \<longleftrightarrow> (\<exists>k. unify_loop k h s i = Some h')"

lemma runsI:
  assumes "loops (lift_node h (deref h s)) s 0 h'"
  shows "runs h s h'"
proof -
  obtain k where "unify_loop k (lift_node h (deref h s)) s 0 = Some h'" using assms by (auto simp: loops_def)
  then have "unifyNodes (Suc k) h s = Some h'" by simp
  then show ?thesis unfolding runs_def ..
qed

lemma loops_end: "length (ckids (h (deref h s))) \<le> i \<Longrightarrow> loops h s i h"
  unfolding loops_def by (rule exI [of _ 1]) simp

lemma loops_step:
  assumes "i < length (ckids (h (deref h s)))" and "runs h (Kid_Slot (deref h s) i) g" and "loops g s (i + 1) h'"
  shows "loops h s i h'"
proof -
  obtain k1 k2 where k: "unifyNodes k1 h (Kid_Slot (deref h s) i) = Some g" "unify_loop k2 g s (i + 1) = Some h'"
    using assms(2,3) by (auto simp: runs_def loops_def)
  have "unify_loop (Suc (max k1 k2)) h s i = Some h'"
    using assms(1) unify_mono(1) [OF k(1), of "max k1 k2"] unify_mono(2) [OF k(2), of "max k1 k2"] by simp
  then show ?thesis unfolding loops_def ..
qed

section \<open>Trees in the store\<close>

text \<open>The address holds the tree, with parent pointers, and the set is the addresses of its nodes.\<close>

inductive rep :: "heap \<Rightarrow> nat option \<Rightarrow> nat \<Rightarrow> ast \<Rightarrow> nat set \<Rightarrow> bool"
  and reps :: "heap \<Rightarrow> nat \<Rightarrow> nat list \<Rightarrow> ast list \<Rightarrow> nat set \<Rightarrow> bool" where
  rep_Node: "reps h n (ckids (h n)) cs F \<Longrightarrow> n \<notin> F \<Longrightarrow> cparent (h n) = p \<Longrightarrow> cinfo (h n) = a \<Longrightarrow>
     cleaves (h n) = ls \<Longrightarrow> rep h p n (Node a cs ls) (insert n F)"
| reps_Nil: "reps h n [] [] {}"
| reps_Cons: "rep h (Some n) m t F \<Longrightarrow> reps h n ms ts G \<Longrightarrow> F \<inter> G = {} \<Longrightarrow> reps h n (m # ms) (t # ts) (F \<union> G)"

inductive_cases repE: "rep h p n (Node a cs ls) F"
inductive_cases reps_NilE: "reps h n ms [] F"
inductive_cases reps_ConsE: "reps h n ms (t # ts) F"

lemma rep_frame:
  "rep h p n t F \<Longrightarrow> (\<forall>x \<in> F. h' x = h x) \<Longrightarrow> rep h' p n t F"
  "reps h n ms ts F \<Longrightarrow> (\<forall>x \<in> F. h' x = h x) \<Longrightarrow> reps h' n ms ts F"
proof (induction rule: rep_reps.inducts)
  case (rep_Node h n cs F p a ls)
  have "reps h' n (ckids (h' n)) cs F" using rep_Node by simp
  then show ?case using rep_Node by (intro rep_reps.rep_Node) auto
qed (auto intro: rep_reps.intros)

lemma rep_in: "rep h p n t F \<Longrightarrow> n \<in> F"
  by (cases rule: rep.cases) auto

lemma rep_sel: "rep h p n t F \<Longrightarrow> cinfo (h n) = info t \<and> cparent (h n) = p"
  by (cases rule: rep.cases) auto

lemma reps_Nil_iff [simp]: "reps h n ms [] F \<longleftrightarrow> ms = [] \<and> F = {}"
  by (auto elim: reps_NilE intro: reps_Nil)

lemma reps_Cons_iff:
  "reps h n ms (t # ts) F \<longleftrightarrow> (\<exists>m ms' F1 G. ms = m # ms' \<and> F = F1 \<union> G \<and> rep h (Some n) m t F1
     \<and> reps h n ms' ts G \<and> F1 \<inter> G = {})"
  by (auto elim!: reps_ConsE intro!: reps_Cons)

lemma reps_length: "reps h n ms ts F \<Longrightarrow> length ms = length ts"
  by (induction ts arbitrary: ms F) (auto simp: reps_Cons_iff)

lemma reps_subset: "reps h n ms ts F \<Longrightarrow> set ms \<subseteq> F"
proof (induction ts arbitrary: ms F)
  case (Cons t ts)
  then obtain m ms' F1 G where c: "ms = m # ms'" "F = F1 \<union> G" "rep h (Some n) m t F1" "reps h n ms' ts G"
    by (auto simp: reps_Cons_iff)
  show ?case using c(1,2) rep_in [OF c(3)] Cons.IH [OF c(4)] by auto
qed simp

lemma reps_distinct: "reps h n ms ts F \<Longrightarrow> distinct ms"
proof (induction ts arbitrary: ms F)
  case (Cons t ts)
  then obtain m ms' F1 G where c: "ms = m # ms'" "rep h (Some n) m t F1" "reps h n ms' ts G" "F1 \<inter> G = {}"
    by (auto simp: reps_Cons_iff)
  show ?case using c(1,4) rep_in [OF c(2)] reps_subset [OF c(3)] Cons.IH [OF c(3)] by auto
qed simp

lemma reps_nth:
  "reps h n ms ts F \<Longrightarrow> i < length ts \<Longrightarrow> \<exists>G. rep h (Some n) (ms ! i) (ts ! i) G \<and> G \<subseteq> F"
proof (induction ts arbitrary: ms F i)
  case (Cons t ts)
  then obtain m ms' F1 G where c: "ms = m # ms'" "F = F1 \<union> G" "rep h (Some n) m t F1" "reps h n ms' ts G"
    by (auto simp: reps_Cons_iff)
  show ?case
  proof (cases i)
    case 0
    then show ?thesis using c by auto
  next
    case (Suc j)
    then obtain G' where "rep h (Some n) (ms' ! j) (ts ! j) G'" "G' \<subseteq> G"
      using Cons.IH [OF c(4)] Cons.prems(2) by auto
    then show ?thesis using c(1,2) Suc by auto
  qed
qed simp

section \<open>What the routine computes\<close>

text \<open>The end of the chain of only children of one type.\<close>

fun bottom :: "ast \<Rightarrow> ast" where
  "bottom (Node a [c] ls) = (if ntype c = nodeType a then bottom c else Node a [c] ls)"
| "bottom (Node a cs ls) = Node a cs ls"

lemma bottom_size: "size (bottom t) \<le> size t"
  by (induction t rule: bottom.induct) auto

function collapse :: "ast \<Rightarrow> ast" where
  "collapse t = Node (info (bottom t)) (map collapse (childNodes (bottom t))) (leafNodes (bottom t))"
  by pat_completeness auto

termination
proof (relation "measure size", goal_cases)
  case (2 t c)
  then show ?case using child_size [of c "bottom t"] bottom_size [of t] by simp
qed simp

declare collapse.simps [simp del]

text \<open>At the root, a chain keeps its nodes.\<close>

fun collapse_root :: "ast \<Rightarrow> ast" where
  "collapse_root (Node a [c] ls) = (if ntype c = nodeType a then Node a [collapse_root c] ls else Node a [collapse c] ls)"
| "collapse_root (Node a cs ls) = Node a (map collapse cs) ls"

definition single_chain :: "ast \<Rightarrow> bool" where
  "single_chain t \<longleftrightarrow> (\<exists>c. childNodes t = [c] \<and> ntype c = ntype t)"

lemma bottom_chain: "bottom t = (if single_chain t then bottom (hd (childNodes t)) else t)"
  by (cases t rule: bottom.cases) (auto simp: single_chain_def)

lemma collapse_chain: "single_chain t \<Longrightarrow> collapse t = collapse (hd (childNodes t))"
  by (simp add: collapse.simps [of t] collapse.simps [of "hd (childNodes t)"] bottom_chain [of t])

lemma collapse_node: "\<not> single_chain t \<Longrightarrow> collapse t = Node (info t) (map collapse (childNodes t)) (leafNodes t)"
  by (simp add: collapse.simps [of t] bottom_chain [of t])

lemma bottom_type: "ntype (bottom t) = ntype t"
  by (induction t rule: bottom.induct) auto

lemma collapse_type [simp]: "ntype (collapse t) = ntype t"
  by (simp add: collapse.simps [of t] bottom_type)

lemma bottom_done: "\<not> single_chain (bottom t)"
  by (induction t rule: bottom.induct) (auto simp: single_chain_def)

text \<open>A tree without chains stays as it is.\<close>

definition chain_free :: "ast \<Rightarrow> bool" where
  "chain_free t \<longleftrightarrow> list_all (\<lambda>m. \<not> single_chain m) (nodes t)"

lemma chain_free_iff: "chain_free t \<longleftrightarrow> \<not> single_chain t \<and> (\<forall>c \<in> set (childNodes t). chain_free c)"
  by (cases t) (auto simp: chain_free_def list_all_iff)

lemma collapse_chain_free: "chain_free (collapse t)"
proof (induction t rule: collapse.induct)
  case (1 t)
  have "single_chain (collapse t) \<longleftrightarrow> single_chain (bottom t)"
    by (cases "childNodes (bottom t)"; cases "tl (childNodes (bottom t))")
      (auto simp: single_chain_def collapse.simps [of t])
  then have "\<not> single_chain (collapse t)" using bottom_done by simp
  moreover have "\<forall>c \<in> set (childNodes (collapse t)). chain_free c"
    using 1 by (auto simp: collapse.simps [of t])
  ultimately show ?case using chain_free_iff by blast
qed

section \<open>The routine on a tree\<close>

lemma lift_none:
  "cparent (h n) = Some q \<Longrightarrow> \<not> (length (ckids (h q)) = 1 \<and> ctype h n = ctype h q) \<Longrightarrow> lift_node h n = h"
  by (auto simp: lift_node_def)

lemma kids_done:
  "rep h p n t F \<Longrightarrow> chain_free t \<Longrightarrow> deref h s = n \<Longrightarrow> loops h s i h"
proof (induction t arbitrary: p n F s i rule: ast_child_induct)
  case (Node t)
  obtain F0 where kids: "reps h n (ckids (h n)) (childNodes t) F0" and a: "cinfo (h n) = info t"
    using Node.prems(1) by (cases rule: rep.cases) auto
  note len = reps_length [OF kids]
  show ?case
  proof (induction "length (ckids (h n)) - i" arbitrary: i)
    case 0
    then show ?case using Node.prems(3) by (intro loops_end) simp
  next
    case (Suc d)
    then have i: "i < length (ckids (h n))" by simp
    let ?m = "ckids (h n) ! i" and ?c = "childNodes t ! i"
    obtain G where m: "rep h (Some n) ?m ?c G" using reps_nth [OF kids, of i] i len by auto
    have "\<not> (length (ckids (h n)) = 1 \<and> ctype h ?m = ctype h n)"
    proof
      assume one: "length (ckids (h n)) = 1 \<and> ctype h ?m = ctype h n"
      then have "childNodes t = [?c]" using len i by (cases "childNodes t") auto
      then have "single_chain t" using one rep_sel [OF m] a by (auto simp: single_chain_def)
      then show False using Node.prems(2) chain_free_iff by blast
    qed
    then have "lift_node h ?m = h" using lift_none [of h ?m n] rep_sel [OF m] by simp
    moreover have "chain_free ?c" using Node.prems(2) chain_free_iff [of t] i len by simp
    ultimately have "runs h (Kid_Slot n i) h"
      using Node.IH [OF _ m, of "Kid_Slot n i" 0] i len by (intro runsI) simp
    moreover have "loops h s (i + 1) h" using Suc by simp
    ultimately show ?case
      using i Node.prems(3) loops_step [of i h s h h] by simp
  qed
qed

text \<open>
  The loop over the children of a node that hangs at position \<open>i\<close> below \<open>p\<close>. The slot is that
  position, or, after the node was lifted, the old one in a node outside, which still names it.
\<close>

definition slot_for :: "heap \<Rightarrow> nat \<Rightarrow> nat \<Rightarrow> nat \<Rightarrow> nat set \<Rightarrow> slot \<Rightarrow> bool" where
  "slot_for h p i n F s \<longleftrightarrow> s = Kid_Slot p i \<or> (\<exists>q. s = Kid_Slot q 0 \<and> q \<notin> insert p F \<and> ckids (h q) = [n])"

definition hangs :: "heap \<Rightarrow> nat \<Rightarrow> nat \<Rightarrow> nat \<Rightarrow> ast \<Rightarrow> nat set \<Rightarrow> bool" where
  "hangs h p i n t F \<longleftrightarrow> rep h (Some p) n t F \<and> p \<notin> F \<and> i < length (ckids (h p)) \<and> ckids (h p) ! i = n
     \<and> distinct (ckids (h p)) \<and> set (ckids (h p)) \<inter> F = {n}"

definition collapsed_at :: "heap \<Rightarrow> nat \<Rightarrow> nat \<Rightarrow> ast \<Rightarrow> nat set \<Rightarrow> heap \<Rightarrow> bool" where
  "collapsed_at h p i t F h' \<longleftrightarrow>
     (\<exists>n' F'. F' \<subseteq> F \<and> rep h' (Some p) n' (collapse t) F' \<and> h' p = (h p)\<lparr>ckids := (ckids (h p))[i := n']\<rparr>)
     \<and> (\<forall>x. x \<notin> insert p F \<longrightarrow> h' x = h x)"

definition unified :: "ast \<Rightarrow> bool" where
  "unified t \<longleftrightarrow> (\<forall>h p i n F s. hangs h p i n t F \<longrightarrow> slot_for h p i n F s \<longrightarrow>
     (\<exists>h'. loops h s 0 h' \<and> collapsed_at h p i t F h'))"

lemma unifiedD:
  "unified t \<Longrightarrow> hangs h p i n t F \<Longrightarrow> slot_for h p i n F s \<Longrightarrow> \<exists>h'. loops h s 0 h' \<and> collapsed_at h p i t F h'"
  unfolding unified_def by blast

lemma slot_for_kid: "slot_for h p i n F (Kid_Slot p i)"
  by (simp add: slot_for_def)

lemma process_kids:
  "(\<And>t. t \<in> set ts \<Longrightarrow> unified t) \<Longrightarrow> ckids (h n) = ms1 @ ms2 \<Longrightarrow> reps h n ms2 ts G \<Longrightarrow> n \<notin> G \<Longrightarrow>
   distinct ms1 \<Longrightarrow> set ms1 \<inter> G = {} \<Longrightarrow>
   (\<And>t. t \<in> set ts \<Longrightarrow> \<not> (length (ckids (h n)) = 1 \<and> ntype t = ctype h n)) \<Longrightarrow>
   (\<And>h'. (\<forall>x. x \<notin> insert n G \<longrightarrow> h' x = h x) \<Longrightarrow> deref h' s = n) \<Longrightarrow>
   \<exists>h' ms' G'. loops h s (length ms1) h' \<and> h' n = (h n)\<lparr>ckids := ms1 @ ms'\<rparr>
     \<and> reps h' n ms' (map collapse ts) G' \<and> G' \<subseteq> G \<and> (\<forall>x. x \<notin> insert n G \<longrightarrow> h' x = h x)"
proof (induction ts arbitrary: h ms1 ms2 G)
  case Nil
  then have "deref h s = n" "ckids (h n) = ms1" by simp_all
  then have "loops h s (length ms1) h" by (intro loops_end) simp
  then show ?case using Nil by (intro exI [of _ h] exI [of _ "[]"] exI [of _ "{}"]) auto
next
  case (Cons t ts)
  obtain m ms3 F1 G2 where c: "ms2 = m # ms3" "G = F1 \<union> G2" "rep h (Some n) m t F1" "reps h n ms3 ts G2" "F1 \<inter> G2 = {}"
    using Cons.prems(3) by (auto simp: reps_Cons_iff)
  have s: "deref h s = n" using Cons.prems(8) by simp
  have mF: "m \<in> F1" using rep_in [OF c(3)] .
  have ms3: "set ms3 \<subseteq> G2" "distinct ms3" using reps_subset [OF c(4)] reps_distinct [OF c(4)] .
  let ?i = "length ms1"
  have hang: "hangs h n ?i m t F1"
    using c mF ms3 Cons.prems(2,4-6) by (auto simp: hangs_def)
  have "cparent (h m) = Some n" "ctype h m = ntype t" using rep_sel [OF c(3)] by simp_all
  then have lift: "lift_node h (deref h (Kid_Slot n ?i)) = h"
    using lift_none [of h m n] Cons.prems(2,7) c(1) by simp
  obtain h1 where h1: "loops h (Kid_Slot n ?i) 0 h1" "collapsed_at h n ?i t F1 h1"
    using unifiedD [OF Cons.prems(1) hang slot_for_kid] by auto
  then have run: "runs h (Kid_Slot n ?i) h1" using lift by (intro runsI) simp
  obtain m' F1' where m': "F1' \<subseteq> F1" "rep h1 (Some n) m' (collapse t) F1'"
      "h1 n = (h n)\<lparr>ckids := ms1 @ m' # ms3\<rparr>" and out: "\<forall>x. x \<notin> insert n F1 \<longrightarrow> h1 x = h x"
    using h1(2) c(1) Cons.prems(2) by (auto simp: collapsed_at_def)
  have G2: "n \<notin> G2" "n \<notin> F1" "F1 \<subseteq> G" "G2 \<subseteq> G" using Cons.prems(4) c(2) by auto
  have "\<exists>h' ms' G'. loops h1 s (length (ms1 @ [m'])) h' \<and> h' n = (h1 n)\<lparr>ckids := (ms1 @ [m']) @ ms'\<rparr>
     \<and> reps h' n ms' (map collapse ts) G' \<and> G' \<subseteq> G2 \<and> (\<forall>x. x \<notin> insert n G2 \<longrightarrow> h' x = h1 x)"
  proof (rule Cons.IH)
    show "reps h1 n ms3 ts G2" using c(4) out c(5) G2 by (intro rep_frame(2) [OF c(4)]) auto
    show "distinct (ms1 @ [m'])" "set (ms1 @ [m']) \<inter> G2 = {}"
      using Cons.prems(5,6) m'(1) rep_in [OF m'(2)] c(2,5) by auto
    show "\<not> (length (ckids (h1 n)) = 1 \<and> ntype u = ctype h1 n)" if "u \<in> set ts" for u
      using Cons.prems(7) [of u] that Cons.prems(2) m'(3) c(1) by simp
    show "deref h' s = n" if "\<forall>x. x \<notin> insert n G2 \<longrightarrow> h' x = h1 x" for h'
      using that out c(2) by (intro Cons.prems(8)) auto
  qed (use Cons.prems(1) m'(3) G2 in auto)
  then obtain h' ms' G' where h': "loops h1 s (length (ms1 @ [m'])) h'" "h' n = (h1 n)\<lparr>ckids := (ms1 @ [m']) @ ms'\<rparr>"
      "reps h' n ms' (map collapse ts) G'" "G' \<subseteq> G2" "\<forall>x. x \<notin> insert n G2 \<longrightarrow> h' x = h1 x" by blast
  have "rep h' (Some n) m' (collapse t) F1'"
  proof (rule rep_frame(1) [OF m'(2)], rule ballI)
    fix x
    assume "x \<in> F1'"
    then have "x \<notin> insert n G2" using m'(1) c(5) G2(2) by blast
    then show "h' x = h1 x" using h'(5) by blast
  qed
  then have "reps h' n (m' # ms') (map collapse (t # ts)) (F1' \<union> G')"
    using h'(3,4) m'(1) c(5) by (simp only: list.map) (rule reps_Cons, auto)
  moreover have "loops h s ?i h'"
    using s run h'(1) Cons.prems(2) c(1) loops_step [of ?i h s h1 h'] by simp
  moreover have "\<forall>x. x \<notin> insert n G \<longrightarrow> h' x = h x" using h'(5) out c(2) by auto
  moreover have "F1' \<union> G' \<subseteq> G" using m'(1) h'(4) c(2) by auto
  ultimately show ?case using h'(2) m'(3) by (intro exI [of _ h'] exI [of _ "m' # ms'"] exI [of _ "F1' \<union> G'"]) auto
qed

lemma replace_distinct:
  "distinct xs \<Longrightarrow> i < length xs \<Longrightarrow> map (\<lambda>m. if m = xs ! i then y else m) xs = xs[i := y]"
  by (rule nth_equalityI) (auto simp: nth_list_update nth_eq_iff_index_eq)

lemma rep_reparent:
  assumes "rep h q m t F" and "h' m = (h m)\<lparr>cparent := p\<rparr>" and "\<forall>x \<in> F - {m}. h' x = h x"
  shows "rep h' p m t F"
  using assms(1)
proof (cases rule: rep.cases)
  case (rep_Node cs F0 a ls)
  have "reps h' m (ckids (h' m)) cs F0"
    using rep_frame(2) [OF rep_Node(3), of h'] rep_Node(2,4) assms(2,3) by auto
  then show ?thesis using rep_Node assms(2) by (auto intro: rep_reps.rep_Node)
qed

lemma unified_chain:
  assumes "single_chain t" and "unified (hd (childNodes t))"
  shows "unified t"
  unfolding unified_def
proof (intro allI impI)
  fix h p i n F s
  assume hang: "hangs h p i n t F" and slot: "slot_for h p i n F s"
  obtain c where c: "childNodes t = [c]" "ntype c = ntype t" using assms(1) by (auto simp: single_chain_def)
  have H: "rep h (Some p) n t F" "p \<notin> F" "i < length (ckids (h p))" "ckids (h p) ! i = n"
      "distinct (ckids (h p))" "set (ckids (h p)) \<inter> F = {n}"
    using hang by (simp_all add: hangs_def)
  obtain m F0 where m: "ckids (h n) = [m]" "rep h (Some n) m c F0" "F = insert n F0" "n \<notin> F0"
      "cparent (h n) = Some p" "cinfo (h n) = info t"
    using H(1) c(1) by (cases rule: rep.cases) (auto simp: reps_Cons_iff)
  have mF: "m \<in> F0" "m \<noteq> n" "m \<noteq> p" "n \<noteq> p" using rep_in [OF m(2)] m(3,4) H(2) by auto
  have s: "deref h s = n" using slot H(4) by (auto simp: slot_for_def)
  define h1 where "h1 = h(m := (h m)\<lparr>cparent := Some p\<rparr>, p := (h p)\<lparr>ckids := (ckids (h p))[i := m]\<rparr>)"
  have "lift_node h m = h1"
    using m rep_sel [OF m(2)] c(2) mF replace_distinct [OF H(5,3), of m] H(4)
    by (simp add: lift_node_def h1_def Let_def)
  have h1: "h1 m = (h m)\<lparr>cparent := Some p\<rparr>" "h1 p = (h p)\<lparr>ckids := (ckids (h p))[i := m]\<rparr>"
      "\<forall>x. x \<noteq> m \<longrightarrow> x \<noteq> p \<longrightarrow> h1 x = h x"
    using mF by (simp_all add: h1_def)
  have p0: "p \<notin> F0" using H(2) m(3) by simp
  have "rep h1 (Some p) m c F0"
  proof (rule rep_reparent [OF m(2)])
    show "h1 m = (h m)\<lparr>cparent := Some p\<rparr>" by (rule h1(1))
    show "\<forall>x \<in> F0 - {m}. h1 x = h x" using h1(3) p0 by auto
  qed
  moreover have "m \<notin> set (ckids (h p))" using H(6) m(3) mF by auto
  moreover have "set ((ckids (h p))[i := m]) \<inter> F0 = {m}"
  proof -
    have "x = m" if "x \<in> set ((ckids (h p))[i := m])" "x \<in> F0" for x
    proof (rule ccontr)
      assume "x \<noteq> m"
      then have "x \<in> set (ckids (h p))" using that(1) set_update_subset_insert by fastforce
      then have "x = n" using H(6) that(2) m(3) by blast
      then show False using that(2) m(4) by simp
    qed
    then show ?thesis using mF(1) set_update_memI [OF H(3)] by blast
  qed
  ultimately have hang1: "hangs h1 p i m c F0"
    using H(3,5) h1(2) p0 by (simp add: hangs_def distinct_list_update)
  have "slot_for h1 p i m F0 (Kid_Slot n 0)"
    using m(1,4) mF h1(3) by (auto simp: slot_for_def)
  from unifiedD [OF assms(2) [unfolded c(1) list.sel] hang1 this] obtain h' where
    l1: "loops h1 (Kid_Slot n 0) 0 h'" and c1: "collapsed_at h1 p i c F0 h'" by blast
  have "lift_node h (deref h (Kid_Slot n 0)) = h1" using \<open>lift_node h m = h1\<close> m(1) by simp
  then have run: "runs h (Kid_Slot n 0) h'" using l1 by (intro runsI) simp
  obtain n' F' where n': "F' \<subseteq> F0" "rep h' (Some p) n' (collapse c) F'"
      "h' p = (h p)\<lparr>ckids := (ckids (h p))[i := n']\<rparr>" and out: "\<forall>x. x \<notin> insert p F0 \<longrightarrow> h' x = h1 x"
    using c1 h1(2) by (auto simp: collapsed_at_def)
  have out': "\<forall>x. x \<notin> insert p F \<longrightarrow> h' x = h x" using out h1(3) m(3) mF by auto
  have "loops h' s 1 h'"
    using slot unfolding slot_for_def
  proof (elim disjE exE conjE)
    assume "s = Kid_Slot p i"
    then have "deref h' s = n'" using n'(3) H(3) by simp
    then show ?thesis by (rule kids_done [OF n'(2) collapse_chain_free])
  next
    fix q
    assume q: "s = Kid_Slot q 0" "q \<notin> insert p F" "ckids (h q) = [n]"
    then have "deref h' s = n" using out' by simp
    moreover have "h' n = h n" using out h1(3) m(4) mF by auto
    ultimately show ?thesis using m(1) by (intro loops_end) simp
  qed
  then have "loops h s 0 h'" using s m(1) run loops_step [of 0 h s h' h'] by simp
  moreover have "collapsed_at h p i t F h'"
    using n' out' m(3) collapse_chain [OF assms(1)] c(1) by (auto simp: collapsed_at_def)
  ultimately show "\<exists>h'. loops h s 0 h' \<and> collapsed_at h p i t F h'" by blast
qed

lemma kids_not_single:
  assumes "\<not> single_chain t" and "length ks = length (childNodes t)" and "u \<in> set (childNodes t)"
  shows "\<not> (length ks = 1 \<and> ntype u = ntype t)"
  using assms by (cases "childNodes t") (auto simp: single_chain_def)

lemma unified_node:
  assumes "\<not> single_chain t" and "\<And>c. c \<in> set (childNodes t) \<Longrightarrow> unified c"
  shows "unified t"
  unfolding unified_def
proof (intro allI impI)
  fix h p i n F s
  assume hang: "hangs h p i n t F" and slot: "slot_for h p i n F s"
  have H: "rep h (Some p) n t F" "p \<notin> F" "i < length (ckids (h p))" "ckids (h p) ! i = n"
    using hang by (simp_all add: hangs_def)
  obtain F0 where m: "reps h n (ckids (h n)) (childNodes t) F0" "F = insert n F0" "n \<notin> F0"
      "cparent (h n) = Some p" "cinfo (h n) = info t" "cleaves (h n) = leafNodes t"
    using H(1) by (cases rule: rep.cases) auto
  have "\<exists>h' ms' G'. loops h s (length ([] :: nat list)) h' \<and> h' n = (h n)\<lparr>ckids := [] @ ms'\<rparr>
     \<and> reps h' n ms' (map collapse (childNodes t)) G' \<and> G' \<subseteq> F0 \<and> (\<forall>x. x \<notin> insert n F0 \<longrightarrow> h' x = h x)"
  proof (rule process_kids [OF assms(2) _ m(1)])
    show "\<not> (length (ckids (h n)) = 1 \<and> ntype u = ctype h n)" if "u \<in> set (childNodes t)" for u
      using kids_not_single [OF assms(1) reps_length [OF m(1)] that] m(5) by simp
    show "deref h' s = n" if "\<forall>x. x \<notin> insert n F0 \<longrightarrow> h' x = h x" for h'
      using that slot H(2,4) m(2) by (auto simp: slot_for_def)
  qed (use m(3) in simp_all)
  then obtain h' ms' G' where h': "loops h s 0 h'" "h' n = (h n)\<lparr>ckids := ms'\<rparr>"
      "reps h' n ms' (map collapse (childNodes t)) G'" "G' \<subseteq> F0" "\<forall>x. x \<notin> insert n F0 \<longrightarrow> h' x = h x"
    by auto
  have "rep h' (Some p) n (collapse t) (insert n G')"
    unfolding collapse_node [OF assms(1)]
    using h' m by (intro rep_Node) auto
  moreover have "h' p = (h p)\<lparr>ckids := (ckids (h p))[i := n]\<rparr>"
    using h'(5) H(2,4) m(2) by auto
  ultimately have "collapsed_at h p i t F h'"
    using h'(4,5) m(2) unfolding collapsed_at_def by blast
  then show "\<exists>h'. loops h s 0 h' \<and> collapsed_at h p i t F h'" using h'(1) by blast
qed

lemma unified_all: "unified t"
proof (induction t rule: ast_child_induct)
  case (Node t)
  then show ?case
    using unified_chain [of t] unified_node [of t] by (cases "single_chain t") (auto simp: single_chain_def)
qed

section \<open>The root\<close>

text \<open>The tree read through the child vectors only.\<close>

inductive shape :: "heap \<Rightarrow> nat \<Rightarrow> ast \<Rightarrow> bool" where
  "list_all2 (shape h) (ckids (h n)) cs \<Longrightarrow> cinfo (h n) = a \<Longrightarrow> cleaves (h n) = ls \<Longrightarrow> shape h n (Node a cs ls)"
monos list_all2_mono

lemma rep_shape:
  "rep h p n t F \<Longrightarrow> shape h n t"
  "reps h n ms ts F \<Longrightarrow> list_all2 (shape h) ms ts"
  by (induction rule: rep_reps.inducts) (auto intro: shape.intros)

lemma collapse_root_node: "\<not> single_chain t \<Longrightarrow> collapse_root t = Node (info t) (map collapse (childNodes t)) (leafNodes t)"
  by (cases t rule: collapse_root.cases) (auto simp: single_chain_def)

lemma collapse_root_chain:
  "single_chain t \<Longrightarrow> collapse_root t = Node (info t) [collapse_root (hd (childNodes t))] (leafNodes t)"
  by (cases t rule: collapse_root.cases) (auto simp: single_chain_def)

text \<open>A node without a parent: the slot is the root variable or one that keeps naming the node.\<close>

lemma unify_root:
  "rep h None n t F \<Longrightarrow> (s = Root_Slot n \<or> (\<exists>q. s = Kid_Slot q 0 \<and> q \<notin> F \<and> ckids (h q) = [n])) \<Longrightarrow>
   \<exists>h'. loops h s 0 h' \<and> shape h' n (collapse_root t) \<and> (\<forall>x. x \<notin> F \<longrightarrow> h' x = h x)"
proof (induction t arbitrary: h n F s rule: ast_child_induct)
  case (Node t)
  obtain F0 where m: "reps h n (ckids (h n)) (childNodes t) F0" "F = insert n F0" "n \<notin> F0"
      "cparent (h n) = None" "cinfo (h n) = info t" "cleaves (h n) = leafNodes t"
    using Node.prems(1) by (cases rule: rep.cases) auto
  have stable: "deref h' s = n" if "\<forall>x. x \<notin> F \<longrightarrow> h' x = h x" for h'
    using that Node.prems(2) by auto
  show ?case
  proof (cases "single_chain t")
    case True
    then obtain c where c: "childNodes t = [c]" "ntype c = ntype t" by (auto simp: single_chain_def)
    obtain k where k: "ckids (h n) = [k]" "rep h (Some n) k c F0" using m(1) c(1) by (auto simp: reps_Cons_iff)
    have kF: "k \<in> F0" "k \<noteq> n" using rep_in [OF k(2)] m(3) by auto
    define h1 where "h1 = h(k := (h k)\<lparr>cparent := None\<rparr>)"
    have lift: "lift_node h k = h1"
      using k m(4,5) rep_sel [OF k(2)] c(2) by (simp add: lift_node_def h1_def)
    have rp: "rep h1 None k c F0"
    proof (rule rep_reparent [OF k(2)])
      show "h1 k = (h k)\<lparr>cparent := None\<rparr>" by (simp add: h1_def)
      show "\<forall>x \<in> F0 - {k}. h1 x = h x" by (simp add: h1_def)
    qed
    have st: "Kid_Slot n 0 = Root_Slot k \<or> (\<exists>q. Kid_Slot n 0 = Kid_Slot q 0 \<and> q \<notin> F0 \<and> ckids (h1 q) = [k])"
      using m(3) k(1) kF by (simp add: h1_def)
    have cin: "c \<in> set (childNodes t)" using c(1) by simp
    from Node.IH [OF cin rp st] obtain h' where h': "loops h1 (Kid_Slot n 0) 0 h'" "shape h' k (collapse_root c)"
        "\<forall>x. x \<notin> F0 \<longrightarrow> h' x = h1 x"
      by blast
    have out: "\<forall>x. x \<notin> F0 \<longrightarrow> h' x = h x" using h'(3) kF by (auto simp: h1_def)
    have n: "h' n = h n" using out m(3) by simp
    have "runs h (Kid_Slot n 0) h'" using h'(1) lift k(1) by (intro runsI) simp
    moreover have "deref h' s = n" using stable out m(2) by simp
    then have "loops h' s 1 h'" using n k(1) by (intro loops_end) simp
    ultimately have "loops h s 0 h'"
      using stable [of h] k(1) loops_step [of 0 h s h' h'] by simp
    moreover have "shape h' n (collapse_root t)"
      unfolding collapse_root_chain [OF True] c(1) list.sel
      using h'(2) n k(1) m(5,6) by (intro shape.intros) auto
    ultimately show ?thesis using out m(2) by auto
  next
    case False
    have "\<exists>h' ms' G'. loops h s (length ([] :: nat list)) h' \<and> h' n = (h n)\<lparr>ckids := [] @ ms'\<rparr>
       \<and> reps h' n ms' (map collapse (childNodes t)) G' \<and> G' \<subseteq> F0 \<and> (\<forall>x. x \<notin> insert n F0 \<longrightarrow> h' x = h x)"
    proof (rule process_kids [OF unified_all _ m(1)])
      show "\<not> (length (ckids (h n)) = 1 \<and> ntype u = ctype h n)" if "u \<in> set (childNodes t)" for u
        using kids_not_single [OF False reps_length [OF m(1)] that] m(5) by simp
      show "deref h' s = n" if "\<forall>x. x \<notin> insert n F0 \<longrightarrow> h' x = h x" for h'
        using stable that m(2) by simp
    qed (use m(3) in simp_all)
    then obtain h' ms' G' where h': "loops h s 0 h'" "h' n = (h n)\<lparr>ckids := ms'\<rparr>"
        "reps h' n ms' (map collapse (childNodes t)) G'" "\<forall>x. x \<notin> insert n F0 \<longrightarrow> h' x = h x"
      by auto
    have "shape h' n (collapse_root t)"
      unfolding collapse_root_node [OF False]
      using rep_shape(2) [OF h'(3)] h'(2) m(5,6) by (intro shape.intros) auto
    then show ?thesis using h'(1,4) m(2) by auto
  qed
qed

lemma unify_returns:
  assumes "rep h None r t F"
  shows "\<exists>k h'. unifyNodes k h (Root_Slot r) = Some h' \<and> shape h' r (collapse_root t)"
proof -
  have "lift_node h r = h" using rep_sel [OF assms] by (simp add: lift_node_def)
  moreover obtain h' where "loops h (Root_Slot r) 0 h'" "shape h' r (collapse_root t)"
    using unify_root [OF assms, of "Root_Slot r"] by blast
  ultimately have "runs h (Root_Slot r) h'" by (intro runsI) simp
  then show ?thesis using \<open>shape h' r (collapse_root t)\<close> by (auto simp: runs_def)
qed

text \<open>
  C8. On a tree in the store, \<open>unifyNodes\<close> returns, and the tree read from the root afterwards is the
  one where every chain of only children of one type is replaced by its last node, except that the
  nodes of the chain starting at the root stay.
\<close>

theorem unifyNodes_collapses:
  assumes "rep h None r t F"
  shows "\<exists>k h'. unifyNodes k h (Root_Slot r) = Some h' \<and> shape h' r (collapse_root t)"
  using unify_returns [OF assms] .

text \<open>Three nodes: a definition with a body that holds only a body.\<close>

definition nested_heap :: heap where
  "nested_heap n =
     (if n = 0 then \<lparr>cinfo = info0\<lparr>nodeType := Compiler_Define\<rparr>, cleaves = [], ckids = [1], cparent = None\<rparr>
      else if n = 1 then \<lparr>cinfo = info0\<lparr>nodeType := Scope_Body\<rparr>, cleaves = [], ckids = [2], cparent = Some 0\<rparr>
      else \<lparr>cinfo = info0\<lparr>nodeType := Scope_Body\<rparr>, cleaves = [], ckids = [], cparent = Some 1\<rparr>)"

lemma unifyNodes_collapses_witness:
  "\<exists>k h'. unifyNodes k nested_heap (Root_Slot 0) = Some h'
     \<and> shape h' 0 (Node (info0\<lparr>nodeType := Compiler_Define\<rparr>) [Node (info0\<lparr>nodeType := Scope_Body\<rparr>) [] []] [])"
proof -
  let ?b = "Node (info0\<lparr>nodeType := Scope_Body\<rparr>) [] []"
  have b: "rep nested_heap (Some 1) 2 ?b {2}"
    using rep_Node [of nested_heap 2 "[]" "{}"] by (simp add: nested_heap_def)
  have "reps nested_heap 1 [2] [?b] ({2} \<union> {})" by (rule reps_Cons [OF b reps_Nil]) simp
  then have "rep nested_heap (Some 0) 1 (Node (info0\<lparr>nodeType := Scope_Body\<rparr>) [?b] []) {1, 2}"
    using rep_Node [of nested_heap 1 "[?b]" "{2}"] by (simp add: nested_heap_def)
  from reps_Cons [OF this reps_Nil]
  have "reps nested_heap 0 [1] [Node (info0\<lparr>nodeType := Scope_Body\<rparr>) [?b] []] {1, 2}" by simp
  then have "rep nested_heap None 0 (Node (info0\<lparr>nodeType := Compiler_Define\<rparr>) [Node (info0\<lparr>nodeType := Scope_Body\<rparr>) [?b] []] []) {0, 1, 2}"
    using rep_Node [of nested_heap 0 "[Node (info0\<lparr>nodeType := Scope_Body\<rparr>) [?b] []]" "{1, 2}"] by (simp add: nested_heap_def)
  from unifyNodes_collapses [OF this] show ?thesis by (simp add: collapse.simps)
qed

end
