(* ===== verification/Optimize.thy ===== *)
theory Optimize
  imports Precedence Std_String
begin

text \<open>
  Constant folding (\<^verbatim>\<open>src/src/parser.cpp\<close>: \<open>optimizeASTNode\<close>, \<open>literals\<close>), which \<open>main\<close> has switched off.
  Integers are \<open>int\<close> values whose overflow is undefined; \<open>double\<close> arithmetic and its conversions from
  and to text are the parameter \<open>float_ops\<close>. The pass computes the value of every expression over
  integer literals, and what it does to comparisons and to Boolean operands is recorded as well.
\<close>

section \<open>Literals\<close>

record 'f float_ops =
  stod :: "string \<Rightarrow> 'f outcome"
  float_of_int :: "int \<Rightarrow> 'f"
  float_times :: "'f \<Rightarrow> 'f \<Rightarrow> 'f"
  float_divide :: "'f \<Rightarrow> 'f \<Rightarrow> 'f"
  float_plus :: "'f \<Rightarrow> 'f \<Rightarrow> 'f"
  float_minus :: "'f \<Rightarrow> 'f \<Rightarrow> 'f"
  float_to_string :: "'f \<Rightarrow> string"

definition literals :: "ASTNodeType list" where
  "literals = [Integer_Node, Float_Node, Boolean_Node, String_Node]"

datatype 'f literal = Bool_Lit bool | Int_Lit int | Float_Lit 'f

text \<open>A string is in \<open>literals\<close>, but both switches clear the flag again.\<close>

definition literal_value :: "'f float_ops \<Rightarrow> ast \<Rightarrow> 'f literal option outcome" where
  "literal_value F n =
     (if ntype n = Boolean_Node then Inr (Some (Bool_Lit (tk_first (ntoken n) = ''true'')))
      else if ntype n = Integer_Node then rbind (stoi (tk_first (ntoken n))) (\<lambda>i. Inr (Some (Int_Lit i)))
      else if ntype n = Float_Node then rbind (stod F (tk_first (ntoken n))) (\<lambda>f. Inr (Some (Float_Lit f)))
      else Inr None)"

section \<open>Folding\<close>

definition int_result :: "ASTNodeType \<Rightarrow> int \<Rightarrow> int \<Rightarrow> int outcome" where
  "int_result ty x y =
     (if ty = Expression_Divide \<and> y = 0 then Inl Undefined_Behaviour
      else let z = (if ty = Expression_Times then x * y
                    else if ty = Expression_Divide then cdiv x y
                    else if ty = Expression_Plus then x + y
                    else if ty = Expression_Minus then x - y
                    else 0)
           in if is_int32 z then Inr z else Inl Undefined_Behaviour)"

definition float_result :: "'f float_ops \<Rightarrow> ASTNodeType \<Rightarrow> 'f \<Rightarrow> 'f \<Rightarrow> 'f" where
  "float_result F ty x y =
     (if ty = Expression_Times then float_times F x y
      else if ty = Expression_Divide then float_divide F x y
      else if ty = Expression_Plus then float_plus F x y
      else if ty = Expression_Minus then float_minus F x y
      else float_of_int F 0)"

fun as_int :: "'f literal \<Rightarrow> int" where
  "as_int (Bool_Lit b) = (if b then 1 else 0)"
| "as_int (Int_Lit i) = i"
| "as_int (Float_Lit f) = 0"

fun as_float :: "'f float_ops \<Rightarrow> 'f literal \<Rightarrow> 'f" where
  "as_float F (Float_Lit f) = f"
| "as_float F l = float_of_int F (as_int l)"

fun is_float :: "'f literal \<Rightarrow> bool" where
  "is_float (Float_Lit f) = True"
| "is_float l = False"

fun is_bool :: "'f literal \<Rightarrow> bool" where
  "is_bool (Bool_Lit b) = True"
| "is_bool l = False"

text \<open>The type and the text of the result: the wider of the two types; two Booleans leave \<open>outString\<close> empty.\<close>

definition fold_literals ::
  "'f float_ops \<Rightarrow> ASTNodeType \<Rightarrow> 'f literal \<Rightarrow> 'f literal \<Rightarrow> (ASTNodeType \<times> string) outcome" where
  "fold_literals F ty x y =
     (if is_float x \<or> is_float y
      then Inr (Float_Node, float_to_string F (float_result F ty (as_float F x) (as_float F y)))
      else if is_bool x \<and> is_bool y then Inr (Boolean_Node, [])
      else rbind (int_result ty (as_int x) (as_int y)) (\<lambda>z. Inr (Integer_Node, to_string z)))"

definition literal_token :: "ASTNodeType \<Rightarrow> string \<Rightarrow> token \<Rightarrow> token" where
  "literal_token ty outString t =
     t\<lparr>tk_first := outString, tk_second := (if ty = Float_Node then Float else Integer)\<rparr>"

text \<open>One node, its children done. The method pointer \<open>codegen\<close> is left as it was.\<close>

definition fold_node :: "'f float_ops \<Rightarrow> ast \<Rightarrow> ast outcome" where
  "fold_node F n =
     (if 2 \<le> length (childNodes n)
      then if in_table (ntype n)
           then rbind (literal_value F (childNodes n ! 0)) (\<lambda>x.
                rbind (literal_value F (childNodes n ! 1)) (\<lambda>y.
                  case (x, y) of
                    (Some x, Some y) \<Rightarrow>
                      rbind (fold_literals F (ntype n) x y) (\<lambda>(ty, outString).
                        Inr (set_children [] (map_info (\<lambda>a. a\<lparr>nodeType := ty,
                               node_token := literal_token ty outString (node_token a)\<rparr>) n)))
                  | _ \<Rightarrow> Inr n))
           else Inr n
      else if ntype n = Expression_Paren_Term
      then (case childNodes n of
              [c] \<Rightarrow> if ntype c \<in> set literals then Inr c else Inr n
            | _ \<Rightarrow> Inr n)
      else Inr n)"

fun optimizeASTNode :: "'f float_ops \<Rightarrow> ast \<Rightarrow> ast outcome" where
  "optimizeASTNode F (Node a cs ls) =
     rbind (rmap (optimizeASTNode F) cs) (\<lambda>cs'. fold_node F (Node a cs' ls))"

section \<open>Integer expressions\<close>

datatype arith = Times | Divide | Add | Subtract

datatype iexp = Num int | Calc arith iexp iexp | Group iexp

fun op_type :: "arith \<Rightarrow> ASTNodeType" where
  "op_type Times = Expression_Times"
| "op_type Divide = Expression_Divide"
| "op_type Add = Expression_Plus"
| "op_type Subtract = Expression_Minus"

fun apply_op :: "arith \<Rightarrow> int \<Rightarrow> int \<Rightarrow> int" where
  "apply_op Times x y = x * y"
| "apply_op Divide x y = cdiv x y"
| "apply_op Add x y = x + y"
| "apply_op Subtract x y = x - y"

definition checked :: "int \<Rightarrow> int option" where
  "checked z = (if is_int32 z then Some z else None)"

text \<open>The value of an expression in 32-bit arithmetic, none on overflow and on division by zero.\<close>

fun ival :: "iexp \<Rightarrow> int option" where
  "ival (Num i) = Some i"
| "ival (Group e) = ival e"
| "ival (Calc f a b) =
     (case (ival a, ival b) of
        (Some x, Some y) \<Rightarrow> if f = Divide \<and> y = 0 then None else checked (apply_op f x y)
      | _ \<Rightarrow> None)"

text \<open>A tree that stands for an expression, whatever its other members are.\<close>

fun reads :: "ast \<Rightarrow> iexp \<Rightarrow> bool" where
  "reads n (Num i) \<longleftrightarrow> ntype n = Integer_Node \<and> childNodes n = [] \<and> stoi (tk_first (ntoken n)) = Inr i"
| "reads n (Group e) \<longleftrightarrow> ntype n = Expression_Paren_Term \<and> (\<exists>c. childNodes n = [c] \<and> reads c e)"
| "reads n (Calc f a b) \<longleftrightarrow> ntype n = op_type f \<and> (\<exists>l r. childNodes n = [l, r] \<and> reads l a \<and> reads r b)"

lemma optimize_unfold:
  "optimizeASTNode F n = rbind (rmap (optimizeASTNode F) (childNodes n)) (\<lambda>cs. fold_node F (set_children cs n))"
  by (cases n) (simp add: set_children_def)

lemma op_type_table [simp]: "in_table (op_type f)"
  by (cases f) (simp_all add: in_table_def operatorPrecedence_def)

lemma int_result_op:
  "int_result (op_type f) x y =
     (case (if f = Divide \<and> y = 0 then None else checked (apply_op f x y)) of
        None \<Rightarrow> Inl Undefined_Behaviour | Some z \<Rightarrow> Inr z)"
  by (cases f) (simp_all add: int_result_def checked_def)

lemma literal_value_num: "reads n (Num i) \<Longrightarrow> literal_value F n = Inr (Some (Int_Lit i))"
  by (simp add: literal_value_def)

lemma fold_node_calc:
  assumes "reads l (Num x)" and "reads r (Num y)" and "ntype n = op_type f" and "childNodes n = [l, r]"
  shows "fold_node F n =
    (case (if f = Divide \<and> y = 0 then None else checked (apply_op f x y)) of
       None \<Rightarrow> Inl Undefined_Behaviour
     | Some z \<Rightarrow> Inr (set_children [] (map_info (\<lambda>a. a\<lparr>nodeType := Integer_Node,
         node_token := literal_token Integer_Node (to_string z) (node_token a)\<rparr>) n)))"
  using assms literal_value_num [OF assms(1), of F] literal_value_num [OF assms(2), of F]
  by (auto simp: fold_node_def fold_literals_def int_result_op split: option.splits)

lemma fold_node_leaf: "childNodes n = [] \<Longrightarrow> fold_node F n = Inr n"
  by (simp add: fold_node_def)

lemma fold_node_group: "ntype n = Expression_Paren_Term \<Longrightarrow> childNodes n = [c] \<Longrightarrow> reads c (Num i) \<Longrightarrow> fold_node F n = Inr c"
  by (simp add: fold_node_def literals_def)

text \<open>
  C12. Constant folding computes: on a tree of an integer expression it returns a literal that reads as
  the value of the expression, and it runs into undefined behaviour exactly when the expression
  overflows or divides by zero.
\<close>

theorem optimizeASTNode_value:
  assumes "reads n e"
  shows "case ival e of
      Some v \<Rightarrow> \<exists>m. optimizeASTNode F n = Inr m \<and> reads m (Num v)
    | None \<Rightarrow> optimizeASTNode F n = Inl Undefined_Behaviour"
  using assms
proof (induction e arbitrary: n)
  case (Num i)
  then show ?case by (simp add: optimize_unfold fold_node_leaf set_children_def)
next
  case (Group e)
  then obtain c where c: "ntype n = Expression_Paren_Term" "childNodes n = [c]" "reads c e" by auto
  show ?case
    using Group.IH [OF c(3)] c
    by (auto simp: optimize_unfold [of F n] fold_node_group split: option.splits)
next
  case (Calc f a b)
  then obtain l r where c: "ntype n = op_type f" "childNodes n = [l, r]" "reads l a" "reads r b" by auto
  show ?case
  proof (cases "ival a")
    case None
    then show ?thesis using Calc.IH(1) [OF c(3)] c by (simp add: optimize_unfold [of F n])
  next
    case x: (Some x)
    then obtain l' where l: "optimizeASTNode F l = Inr l'" "reads l' (Num x)"
      using Calc.IH(1) [OF c(3)] by auto
    show ?thesis
    proof (cases "ival b")
      case None
      then show ?thesis using Calc.IH(2) [OF c(4)] c x l by (simp add: optimize_unfold [of F n])
    next
      case y: (Some y)
      then obtain r' where r: "optimizeASTNode F r = Inr r'" "reads r' (Num y)"
        using Calc.IH(2) [OF c(4)] by auto
      have "stoi (to_string z) = Inr z" if "checked z' = Some z" for z z'
        using that by (auto simp: checked_def intro: stoi_to_string split: if_splits)
      then show ?thesis
        using x y c l r fold_node_calc [OF l(2) r(2), of "set_children [l', r'] n" f F]
        by (auto simp: optimize_unfold [of F n] literal_token_def split: option.splits)
    qed
  qed
qed

text \<open>\<open>(2 + 3) * 4\<close> and \<open>7 / 0\<close>, with no \<open>double\<close> in sight.\<close>

definition no_floats :: "unit float_ops" where
  "no_floats = \<lparr>stod = (\<lambda>_. Inl (Thrown ''invalid_argument'')), float_of_int = (\<lambda>_. ()), float_times = (\<lambda>_ _. ()),
     float_divide = (\<lambda>_ _. ()), float_plus = (\<lambda>_ _. ()), float_minus = (\<lambda>_ _. ()), float_to_string = (\<lambda>_. [])\<rparr>"

definition num_node :: "int \<Rightarrow> ast" where
  "num_node i = Node (info0\<lparr>nodeType := Integer_Node, node_token := tokenDataType2 (to_string i) Integer\<rparr>) [] []"

definition op_node :: "ASTNodeType \<Rightarrow> ast list \<Rightarrow> ast" where
  "op_node ty cs = Node (info0\<lparr>nodeType := ty\<rparr>) cs []"

lemma reads_num_node: "is_int32 i \<Longrightarrow> reads (num_node i) (Num i)"
  by (simp add: num_node_def tokenDataType2_def tokenDataType0_def stoi_to_string)

lemma optimizeASTNode_value_witness:
  "(\<exists>m. optimizeASTNode no_floats (op_node Expression_Times
        [op_node Expression_Paren_Term [op_node Expression_Plus [num_node 2, num_node 3]], num_node 4]) = Inr m
      \<and> reads m (Num 20))
   \<and> optimizeASTNode no_floats (op_node Expression_Divide [num_node 7, num_node 0]) = Inl Undefined_Behaviour"
proof
  let ?e = "Calc Times (Group (Calc Add (Num 2) (Num 3))) (Num 4)"
  have "reads (op_node Expression_Times
        [op_node Expression_Paren_Term [op_node Expression_Plus [num_node 2, num_node 3]], num_node 4]) ?e"
    by (simp add: op_node_def reads_num_node [simplified] is_int32_def del: One_nat_def)
  moreover have "ival ?e = Some 20" by (simp add: checked_def is_int32_def)
  ultimately show "\<exists>m. optimizeASTNode no_floats (op_node Expression_Times
        [op_node Expression_Paren_Term [op_node Expression_Plus [num_node 2, num_node 3]], num_node 4]) = Inr m
      \<and> reads m (Num 20)"
    using optimizeASTNode_value by fastforce
  have "reads (op_node Expression_Divide [num_node 7, num_node 0]) (Calc Divide (Num 7) (Num 0))"
    by (simp add: op_node_def reads_num_node [simplified] is_int32_def)
  from optimizeASTNode_value [OF this]
  show "optimizeASTNode no_floats (op_node Expression_Divide [num_node 7, num_node 0]) = Inl Undefined_Behaviour"
    by simp
qed

text \<open>A comparison of integer literals becomes the integer 0, and two Booleans become a literal without text.\<close>

lemma to_string_zero: "to_string 0 = ''0''"
  by code_simp

lemma comparison_folds_to_zero:
  "in_table ty \<Longrightarrow> ty \<notin> {Expression_Times, Expression_Divide, Expression_Plus, Expression_Minus} \<Longrightarrow>
   is_int32 x \<Longrightarrow> is_int32 y \<Longrightarrow> fold_literals F ty (Int_Lit x) (Int_Lit y) = Inr (Integer_Node, ''0'')"
  by (simp add: fold_literals_def int_result_def is_int32_def to_string_zero)

lemma booleans_fold_to_nothing: "fold_literals F ty (Bool_Lit x) (Bool_Lit y) = Inr (Boolean_Node, [])"
  by (simp add: fold_literals_def)

end
