(* ===== verification/Console.thy ===== *)
theory Console
  imports Std_String
begin

text \<open>
  Coloured output (\<^verbatim>\<open>src/src/console.cpp\<close>, \<^verbatim>\<open>src/src/console.h\<close>, as compiled on Unix). A routine that
  writes to the standard output is the text it writes, and the global \<open>useColor\<close> is its first
  argument. The colours change nothing but escape sequences: what is left when these are taken out
  is the output without colours (\<open>renders\<close>), shown once for each routine and for sequences of them.
\<close>

section \<open>Colours\<close>

definition esc :: char where "esc = CHR 0x1B"

definition redFGColor :: string where "redFGColor = esc # ''[31m''"
definition greenFGColor :: string where "greenFGColor = esc # ''[32m''"
definition yellowFGColor :: string where "yellowFGColor = esc # ''[33m''"
definition blueFGColor :: string where "blueFGColor = esc # ''[34m''"
definition magentaFGColor :: string where "magentaFGColor = esc # ''[35m''"
definition cyanFGColor :: string where "cyanFGColor = esc # ''[36m''"
definition resetColor :: string where "resetColor = esc # ''[0m''"

text \<open>The terminal is the argument: whether the output is one, and the variable \<open>TERM\<close>.\<close>

definition consoleSupportsColor :: "bool \<Rightarrow> string option \<Rightarrow> bool" where
  "consoleSupportsColor isatty term =
     (if \<not> isatty then False
      else case term of
             None \<Rightarrow> False
           | Some termStr \<Rightarrow> list_ex (\<lambda>colorTerm. str_find termStr colorTerm 0 \<noteq> None)
               [''xterm'', ''color'', ''ansi'', ''cygwin'', ''linux''])"

definition colorText :: "string \<Rightarrow> string \<Rightarrow> string" where
  "colorText name color = color @ name @ resetColor"

definition colorText_bg :: "string \<Rightarrow> string \<Rightarrow> string \<Rightarrow> string" where
  "colorText_bg name fgColor bgColor = fgColor @ bgColor @ name @ resetColor"

definition SetColor :: "bool \<Rightarrow> string \<Rightarrow> string" where
  "SetColor useColor fgColor = (if useColor then fgColor else [])"

definition ResetColor :: "bool \<Rightarrow> string" where
  "ResetColor useColor = (if useColor then resetColor else [])"

definition PrintColored :: "bool \<Rightarrow> string \<Rightarrow> string \<Rightarrow> string \<Rightarrow> string" where
  "PrintColored useColor txt fgColor bgColor =
     (if useColor then fgColor @ bgColor @ txt @ resetColor else txt)"

section \<open>Writing\<close>

definition eol :: string where "eol = [CHR 0x0A]"

definition WriteLine0 :: string where
  "WriteLine0 = eol"

definition WriteLine1 :: "string \<Rightarrow> string" where
  "WriteLine1 message = message @ eol"

definition WriteLine :: "bool \<Rightarrow> string \<Rightarrow> string \<Rightarrow> string \<Rightarrow> string" where
  "WriteLine useColor message fgColor bgColor = PrintColored useColor message fgColor bgColor @ WriteLine0"

definition Write1 :: "string \<Rightarrow> string" where
  "Write1 message = message"

definition Write2 :: "bool \<Rightarrow> string \<Rightarrow> string \<Rightarrow> string" where
  "Write2 useColor message color = PrintColored useColor message color []"

definition Write3 :: "bool \<Rightarrow> string \<Rightarrow> string \<Rightarrow> string \<Rightarrow> string" where
  "Write3 useColor message fgColor bgColor = PrintColored useColor message fgColor bgColor"

fun printIndent :: "nat \<Rightarrow> string" where
  "printIndent 0 = []"
| "printIndent (Suc depth) = Write1 ''    '' @ printIndent depth"

definition tabs :: "nat \<Rightarrow> string" where
  "tabs indents = replicate indents (CHR 0x09)"

definition WriteIndented :: "bool \<Rightarrow> string \<Rightarrow> string \<Rightarrow> string \<Rightarrow> nat \<Rightarrow> string" where
  "WriteIndented useColor message fgColor bgColor indents =
     PrintColored useColor (tabs indents @ ''  '' @ message) fgColor bgColor"

definition WriteLineIndented :: "bool \<Rightarrow> string \<Rightarrow> string \<Rightarrow> string \<Rightarrow> nat \<Rightarrow> string" where
  "WriteLineIndented useColor message fgColor bgColor indents =
     PrintColored useColor (tabs indents @ ''  '' @ message @ eol) fgColor bgColor"

definition WriteBulleted5 :: "bool \<Rightarrow> string \<Rightarrow> string \<Rightarrow> string \<Rightarrow> nat \<Rightarrow> string \<Rightarrow> string" where
  "WriteBulleted5 useColor message fgColor bgColor indents bullet =
     PrintColored useColor (tabs indents @ bullet @ '' '' @ message) fgColor bgColor"

definition WriteBulleted4 :: "bool \<Rightarrow> string \<Rightarrow> string \<Rightarrow> string \<Rightarrow> nat \<Rightarrow> string" where
  "WriteBulleted4 useColor message fgColor bgColor indents =
     PrintColored useColor (tabs indents @ ''- '' @ message) fgColor bgColor"

definition WriteBulleted3 :: "bool \<Rightarrow> string \<Rightarrow> nat \<Rightarrow> string \<Rightarrow> string" where
  "WriteBulleted3 useColor message indents bullet =
     PrintColored useColor (tabs indents @ bullet @ '' '' @ message) [] []"

definition WriteBulleted2 :: "bool \<Rightarrow> string \<Rightarrow> nat \<Rightarrow> string" where
  "WriteBulleted2 useColor message indents = PrintColored useColor (tabs indents @ ''- '' @ message) [] []"

text \<open>Reading past the array is undefined.\<close>

definition WriteLineCharArrayOfLen :: "string \<Rightarrow> nat \<Rightarrow> string outcome" where
  "WriteLineCharArrayOfLen message len =
     (if len \<le> length message then Inr (take len message @ eol) else Inl Undefined_Behaviour)"

section \<open>Messages\<close>

definition quote :: "string \<Rightarrow> string" where
  "quote s = CHR 0x22 # s @ [CHR 0x22]"

text \<open>\<open>PrintError\<close> and \<open>PrintWarning\<close> differ in the first word and its colour.\<close>

definition print_message :: "bool \<Rightarrow> string \<Rightarrow> string \<Rightarrow> string \<Rightarrow> int \<Rightarrow> string \<Rightarrow> string" where
  "print_message useColor kind color s lineNumber fileName =
     Write2 useColor kind color
     @ (if length fileName > 0 then Write1 ('' from file: '' @ quote fileName) else [])
     @ (if lineNumber > 0 then Write1 ('' on line: '' @ quote (to_string lineNumber)) else [])
     @ Write1 '':  '' @ Write1 (s @ eol)"

definition PrintError :: "bool \<Rightarrow> string \<Rightarrow> int \<Rightarrow> string \<Rightarrow> string" where
  "PrintError useColor = print_message useColor ''Error'' redFGColor"

definition PrintWarning :: "bool \<Rightarrow> string \<Rightarrow> int \<Rightarrow> string \<Rightarrow> string" where
  "PrintWarning useColor = print_message useColor ''Warning'' yellowFGColor"

text \<open>The tags \<open>[name] - \<close> of the ten routines \<open>NetworkPrint\<close> to \<open>ErrorPrint\<close>.\<close>

definition print_tag :: "bool \<Rightarrow> string \<Rightarrow> string \<Rightarrow> string \<Rightarrow> string" where
  "print_tag useColor name color tail =
     PrintColored useColor ''['' yellowFGColor [] @ PrintColored useColor name color []
     @ PrintColored useColor tail yellowFGColor []"

definition NetworkPrint :: "bool \<Rightarrow> string" where
  "NetworkPrint useColor = print_tag useColor ''Network'' cyanFGColor '']        - ''"
definition NetworkErrorPrint :: "bool \<Rightarrow> string" where
  "NetworkErrorPrint useColor = print_tag useColor ''Network-Error'' redFGColor '']  - ''"
definition MiningPrint :: "bool \<Rightarrow> string" where
  "MiningPrint useColor = print_tag useColor ''Mining'' greenFGColor '']         - ''"
definition MiningErrorPrint :: "bool \<Rightarrow> string" where
  "MiningErrorPrint useColor = print_tag useColor ''Mining-Error'' redFGColor '']   - ''"
definition ContainerManagerPrint :: "bool \<Rightarrow> string" where
  "ContainerManagerPrint useColor = print_tag useColor ''Deluge'' magentaFGColor '']         - ''"
definition CompilerErrorPrint :: "bool \<Rightarrow> string" where
  "CompilerErrorPrint useColor = print_tag useColor ''Deluge-Error'' redFGColor '']   - ''"
definition BlockchainPrint :: "bool \<Rightarrow> string" where
  "BlockchainPrint useColor = print_tag useColor ''Blockchain'' greenFGColor '']     - ''"
definition DebugPrint :: "bool \<Rightarrow> string" where
  "DebugPrint useColor = print_tag useColor ''Debug'' yellowFGColor '']          - ''"
definition SystemPrint :: "bool \<Rightarrow> string" where
  "SystemPrint useColor = print_tag useColor ''System'' blueFGColor '']         - ''"
definition ErrorPrint :: "bool \<Rightarrow> string" where
  "ErrorPrint useColor = print_tag useColor ''Error'' redFGColor '']          - ''"

definition ConnectionError :: "bool \<Rightarrow> string" where
  "ConnectionError useColor = NetworkErrorPrint useColor @ WriteLine1 ''Failed To Connect''"

text \<open>What \<open>ExitError\<close> writes before it waits for a key and exits.\<close>

definition ExitError :: "bool \<Rightarrow> string \<Rightarrow> 'a outcome \<times> string" where
  "ExitError useColor errMessage =
     (Inl (Exited errMessage), WriteLine0 @ WriteLine useColor errMessage redFGColor [] @ ''Press Enter to Exit'')"

section \<open>What a terminal shows\<close>

text \<open>Without the escape sequences, each from an escape character to the next \<open>m\<close>.\<close>

function visible :: "string \<Rightarrow> string" where
  "visible [] = []"
| "visible (c # cs) = (if c = esc then visible (drop 1 (dropWhile (\<lambda>d. d \<noteq> CHR ''m'') cs)) else c # visible cs)"
  by pat_completeness auto

termination
proof (relation "measure length", goal_cases)
  case (2 c cs)
  show ?case using length_dropWhile_le [of "\<lambda>d. d \<noteq> CHR ''m''" cs] by simp
qed simp_all

definition renders :: "string \<Rightarrow> string \<Rightarrow> bool" where
  "renders s shown \<longleftrightarrow> (\<forall>rest. visible (s @ rest) = shown @ visible rest)"

named_theorems rendering

lemma renders_visible: "renders s shown \<Longrightarrow> visible s = shown"
  unfolding renders_def by (drule spec [of _ "[]"]) simp

lemma renders_append [rendering]: "renders s a \<Longrightarrow> renders t b \<Longrightarrow> renders (s @ t) (a @ b)"
  by (simp add: renders_def)

lemma renders_plain: "esc \<notin> set s \<Longrightarrow> renders s s"
  unfolding renders_def by (induction s) auto

definition color_code :: "string \<Rightarrow> bool" where
  "color_code s \<longleftrightarrow> s = [] \<or> (\<exists>d. CHR ''m'' \<notin> set d \<and> s = esc # d @ ''m'')"

lemma color_code_renders: "color_code s \<Longrightarrow> renders s []"
proof -
  have "dropWhile (\<lambda>d. d \<noteq> CHR ''m'') (d @ CHR ''m'' # rest) = CHR ''m'' # rest" if "CHR ''m'' \<notin> set d" for d rest :: string
    using that by (induction d) auto
  moreover assume "color_code s"
  ultimately show ?thesis by (auto simp: color_code_def renders_def)
qed

lemma color_codes [simp]:
  "color_code []" "color_code redFGColor" "color_code greenFGColor" "color_code yellowFGColor"
  "color_code blueFGColor" "color_code magentaFGColor" "color_code cyanFGColor" "color_code resetColor"
  unfolding color_code_def redFGColor_def greenFGColor_def yellowFGColor_def blueFGColor_def
    magentaFGColor_def cyanFGColor_def resetColor_def
  by (auto intro: exI [of _ "''[31''"] exI [of _ "''[32''"] exI [of _ "''[33''"] exI [of _ "''[34''"]
      exI [of _ "''[35''"] exI [of _ "''[36''"] exI [of _ "''[0''"])

lemma PrintColored_renders [rendering]:
  assumes "renders txt shown" and "color_code fg" and "color_code bg"
  shows "renders (PrintColored True txt fg bg) shown"
  using renders_append [OF color_code_renders [OF assms(2)] renders_append [OF color_code_renders [OF assms(3)]
      renders_append [OF assms(1) color_code_renders [of resetColor]]]]
  by (simp add: PrintColored_def)

lemma PrintColored_False [simp]: "PrintColored False txt fg bg = txt"
  by (simp add: PrintColored_def)

lemma esc_eq [simp]: "esc = c \<longleftrightarrow> c = CHR 0x1B"
  by (auto simp: esc_def)

lemma plain_eol [simp]: "esc \<notin> set eol"
  by (simp add: eol_def esc_def)

lemma plain_indent [simp]: "esc \<notin> set (printIndent d)"
  by (induction d) (auto simp: Write1_def esc_def)

end
