(* ===== verification/Reports.thy ===== *)
theory Reports
  imports Console Tokenizer Ast
begin

text \<open>
  What the compiler prints about tokens and trees (\<^verbatim>\<open>src/src/parser.cpp\<close>: \<open>printTokenError\<close>,
  \<open>printTokenWarning\<close>, \<open>printModuleLoaded\<close>, \<open>printAST\<close>), on the standard output. The pointers of a token
  are looked up in the lexer's store of strings. Shown here: a report at a token of the file puts its
  carets under the text of that token, and the tree is printed the same with and without colours.
\<close>

section \<open>Reports at a token\<close>

definition deref_string :: "string list \<Rightarrow> strptr \<Rightarrow> string outcome" where
  "deref_string strings p =
     (case p of Null \<Rightarrow> Inl Undefined_Behaviour | NullStr \<Rightarrow> Inr '''' | Str i \<Rightarrow> vec_at strings i)"

definition repeated :: "nat \<Rightarrow> string \<Rightarrow> string" where
  "repeated n s = concat (replicate n s)"

text \<open>The part common to errors and warnings, after the message itself.\<close>

definition show_token :: "bool \<Rightarrow> string list \<Rightarrow> token \<Rightarrow> string \<Rightarrow> string outcome" where
  "show_token useColor strings t mark =
     rbind (deref_string strings (tk_filePath t)) (\<lambda>filePath.
     rbind (deref_string strings (tk_lineValue t)) (\<lambda>line.
       let lineNumberStr = to_string (int (tk_lineNumber t));
           indent = repeated (length lineNumberStr + 4 + tk_indexInLine t - 1) (Write1 '' '')
       in Inr (Write2 useColor ''In: '' yellowFGColor
               @ WriteLine useColor filePath yellowFGColor []
               @ Write2 useColor (lineNumberStr @ '' |  '') yellowFGColor
               @ WriteLine1 line
               @ indent @ repeated (unat (tk_length t)) (Write2 useColor ''^'' mark) @ WriteLine0
               @ indent @ Write2 useColor ''here'' mark @ WriteLine1 eol)))"

text \<open>With \<open>compilerDebug\<close> set, \<open>throw\<close> without an exception ends the program.\<close>

definition printTokenError :: "bool \<Rightarrow> bool \<Rightarrow> string list \<Rightarrow> token \<Rightarrow> string \<Rightarrow> string outcome" where
  "printTokenError useColor compilerDebug strings t errorString =
     rbind (show_token useColor strings t redFGColor) (\<lambda>s.
       if compilerDebug then Inl (Thrown ''terminate'')
       else Inr (PrintError useColor errorString 0 [] @ s))"

definition printTokenWarning :: "bool \<Rightarrow> string list \<Rightarrow> token \<Rightarrow> string \<Rightarrow> string outcome" where
  "printTokenWarning useColor strings t errorString =
     rbind (show_token useColor strings t yellowFGColor) (\<lambda>s.
       Inr (PrintWarning useColor errorString 0 [] @ s))"

definition printModuleLoaded :: "nat \<Rightarrow> string \<Rightarrow> string \<Rightarrow> string" where
  "printModuleLoaded verbosity moduleName modulePath =
     ''Module '' @ quote moduleName @ '' imported''
     @ (if verbosity \<ge> 3 then '' from: '' @ modulePath else []) @ eol"

text \<open>A report fails to print exactly where \<open>token_error\<close> says so.\<close>

lemma token_error_prints:
  assumes "\<And>i. tk_filePath t = Str i \<or> tk_lineValue t = Str i \<Longrightarrow> i < length strings"
  shows "isr (printTokenError useColor False strings t msg) \<longleftrightarrow> (token_error t msg :: 'a outcome) \<noteq> Inl Undefined_Behaviour"
  using assms
  by (cases "tk_filePath t"; cases "tk_lineValue t")
    (simp_all add: printTokenError_def show_token_def deref_string_def token_error_def vec_at_def Let_def)

section \<open>The tree\<close>

fun printAST :: "bool \<Rightarrow> nat \<Rightarrow> nat \<Rightarrow> ast \<Rightarrow> string" where
  "printAST useColor verbosity depth (Node a cs ls) =
     printIndent depth
     @ Write2 useColor (tk_first (node_token a)) greenFGColor
     @ (if verbosity \<ge> 5 \<and> length (tk_first (node_token a)) > 0 then '':L'' @ to_string (int (node_line a)) else [])
     @ (if showInASTOutput a
        then Write1 '':('' @ Write2 useColor (ASTNodeTypeAsString (nodeType a)) yellowFGColor @ Write1 ''){''
             @ (if length cs > 0 \<or> length ls > 0 then eol else [])
             @ concat (map (printAST useColor verbosity (depth + 1)) cs)
             @ (if length ls > 0
                then printIndent (depth + 1) @ ''!unusedLeafNodes!:{'' @ eol
                     @ concat (map (printAST useColor verbosity (depth + 2)) ls)
                     @ printIndent (depth + 1) @ ''}'' @ eol
                else [])
             @ (if length cs > 0 \<or> length ls > 0 then printIndent depth else [])
             @ ''}'' @ eol
        else Write1 '':('' @ Write2 useColor (ASTNodeTypeAsString (nodeType a)) yellowFGColor @ Write1 '')''
             @ WriteLine1 ''{...}'')"

section \<open>Colours change nothing else\<close>

fun plain_ast :: "ast \<Rightarrow> bool" where
  "plain_ast (Node a cs ls) \<longleftrightarrow> esc \<notin> set (tk_first (node_token a)) \<and> list_all plain_ast cs \<and> list_all plain_ast ls"

lemma Write2_renders [rendering]:
  "renders txt shown \<Longrightarrow> color_code c \<Longrightarrow> renders (Write2 True txt c) (Write2 False shown c)"
  by (simp add: Write2_def PrintColored_renders)

lemma renders_if [rendering]: "renders s a \<Longrightarrow> renders t b \<Longrightarrow> renders (if c then s else t) (if c then a else b)"
  by simp

lemma Write2_False [simp]: "Write2 False txt c = txt"
  by (simp add: Write2_def)

lemma renders_concat:
  "(\<And>x. x \<in> set xs \<Longrightarrow> renders (f x) (g x)) \<Longrightarrow> renders (concat (map f xs)) (concat (map g xs))"
  by (induction xs) (auto intro: renders_append renders_plain)

lemma plain_numbers: "esc \<notin> set (to_string i)"
proof -
  have "esc \<notin> set (nat_str n)" for n
    using nat_str_digits [of n] by (auto simp: list_all_iff is_digit_def esc_def)
  then show ?thesis by (simp add: to_string_def esc_def)
qed

lemma plain_type_names: "esc \<notin> set (ASTNodeTypeAsString ty)"
  by (cases ty) (simp_all add: ASTNodeTypeAsString_def node_order ASTNodeTypeStrings_def esc_def)

lemma plain_texts [simp]:
  "esc \<notin> set (Write1 s) \<longleftrightarrow> esc \<notin> set s" "esc \<notin> set (WriteLine1 s) \<longleftrightarrow> esc \<notin> set s"
  by (auto simp: Write1_def WriteLine1_def)

lemma printAST_renders:
  "plain_ast n \<Longrightarrow> renders (printAST True v d n) (printAST False v d n)"
proof (induction n arbitrary: d)
  case (Node a cs ls)
  have cs: "renders (concat (map (printAST True v e) cs)) (concat (map (printAST False v e) cs))" for e
    using Node by (intro renders_concat) (auto simp: list_all_iff)
  have ls: "renders (concat (map (printAST True v e) ls)) (concat (map (printAST False v e) ls))" for e
    using Node by (intro renders_concat) (auto simp: list_all_iff)
  show ?case
    unfolding printAST.simps
    by (intro rendering cs ls color_codes; rule renders_plain)
      (use Node.prems in \<open>simp_all add: plain_numbers plain_type_names\<close>)
qed

lemma repeated_renders [rendering]: "renders s a \<Longrightarrow> renders (repeated n s) (repeated n a)"
  unfolding repeated_def by (induction n) (auto intro: renders_append renders_plain)

lemma PrintError_renders: "esc \<notin> set msg \<Longrightarrow> renders (PrintError True msg 0 []) (PrintError False msg 0 [])"
  unfolding PrintError_def print_message_def
  by (intro rendering color_codes; rule renders_plain) (simp_all add: quote_def plain_numbers)

lemma WriteLine_renders [rendering]:
  "renders txt shown \<Longrightarrow> color_code c \<Longrightarrow> renders (WriteLine True txt c []) (WriteLine False shown c [])"
  unfolding WriteLine_def WriteLine0_def
  by (intro renders_append) (simp_all add: PrintColored_renders renders_plain)

definition shown :: "string outcome \<Rightarrow> string outcome" where
  "shown r = (case r of Inl e \<Rightarrow> Inl e | Inr s \<Rightarrow> Inr (visible s))"

lemma deref_plain: "list_all (\<lambda>s. esc \<notin> set s) strings \<Longrightarrow> deref_string strings p = Inr s \<Longrightarrow> esc \<notin> set s"
  by (auto simp: deref_string_def list_all_length split: strptr.splits)

lemma show_token_shown:
  assumes "list_all (\<lambda>s. esc \<notin> set s) strings" and "color_code mark"
  shows "(\<exists>e. show_token True strings t mark = Inl e \<and> show_token False strings t mark = Inl e)
    \<or> (\<exists>s s'. show_token True strings t mark = Inr s \<and> show_token False strings t mark = Inr s' \<and> renders s s')"
proof (cases "deref_string strings (tk_filePath t)")
  case (Inl e)
  then show ?thesis by (simp add: show_token_def)
next
  case f: (Inr filePath)
  show ?thesis
  proof (cases "deref_string strings (tk_lineValue t)")
    case (Inl e)
    then show ?thesis using f by (simp add: show_token_def)
  next
    case l: (Inr line)
    have plain: "esc \<notin> set filePath" "esc \<notin> set line"
      using deref_plain [OF assms(1)] f l by blast+
    show ?thesis
      unfolding show_token_def f l rbind_Inr Let_def sum.inject
      by (rule disjI2, rule exI, rule exI, rule conjI, rule refl, rule conjI, rule refl,
          (intro rendering color_codes assms(2); rule renders_plain))
        (simp_all add: plain plain_numbers WriteLine0_def)
  qed
qed

text \<open>
  C31. Colours change nothing but escape sequences: a terminal shows for the listing of a tree and for a
  report at a token the text that is printed without colours.
\<close>

theorem output_colors:
  assumes "plain_ast n" and "list_all (\<lambda>s. esc \<notin> set s) strings" and "esc \<notin> set msg"
  shows "visible (printAST True v d n) = printAST False v d n
    \<and> shown (printTokenError True dbg strings t msg) = printTokenError False dbg strings t msg"
proof
  show "visible (printAST True v d n) = printAST False v d n"
    by (rule renders_visible [OF printAST_renders [OF assms(1)]])
  show "shown (printTokenError True dbg strings t msg) = printTokenError False dbg strings t msg"
    using show_token_shown [OF assms(2) color_codes(2), of t] renders_append [OF PrintError_renders [OF assms(3)]]
    by (auto simp: printTokenError_def shown_def intro!: renders_visible)
qed

lemma output_colors_witness:
  "visible (printAST True 4 0 (ASTNode2 Scope_Body [ASTNode1 Integer_Node])) =
     printAST False 4 0 (ASTNode2 Scope_Body [ASTNode1 Integer_Node])
   \<and> shown (printTokenError True False [''a.asa'', ''x = 1''] (tokenDataType6 ''x'' Identifier 1 1 (Str 1) (Str 0)) ''no'')
     = printTokenError False False [''a.asa'', ''x = 1''] (tokenDataType6 ''x'' Identifier 1 1 (Str 1) (Str 0)) ''no''"
  by (rule output_colors) (simp_all add: ASTNode2_def ASTNode1_def info0_def tokenDataType0_def)

section \<open>The carets are under the token\<close>

text \<open>Tabs are left out of the stored line. A token that is no end of line has its text, without tabs, at
  its index in its line.\<close>

definition untabbed :: "string \<Rightarrow> string" where
  "untabbed s = filter (\<lambda>c. c \<noteq> tab_char) s"

definition line_text :: "lexer \<Rightarrow> string" where
  "line_text s = store s ! lineValue s"

definition stands_at :: "string list \<Rightarrow> token \<Rightarrow> bool" where
  "stands_at strings t \<longleftrightarrow> (\<exists>a < length strings. tk_lineValue t = Str a \<and> 1 \<le> tk_indexInLine t
     \<and> take (length (untabbed (tk_first t))) (drop (tk_indexInLine t - 1) (strings ! a)) = untabbed (tk_first t)
     \<and> tk_length t = of_nat (length (tk_first t)))"

text \<open>Where the text of a token of the current line ends, and where the text still open begins.\<close>

definition token_end :: "token \<Rightarrow> nat" where
  "token_end t = tk_indexInLine t - 1 + length (untabbed (tk_first t))"

definition closed_length :: "lexer \<Rightarrow> nat" where
  "closed_length s = (if currentToken s = Nothing then length (line_text s) else startIndexInLine s - 1)"

definition column_inv :: "string \<Rightarrow> nat \<Rightarrow> lexer \<Rightarrow> bool" where
  "column_inv raw i s \<longleftrightarrow>
     lineValue s < length (store s) \<and> indexInLine s = length (line_text s)
     \<and> (currentToken s \<noteq> Nothing \<longrightarrow> 1 \<le> startIndexInLine s \<and> startIndexInLine s - 1 \<le> length (line_text s)
          \<and> drop (startIndexInLine s - 1) (line_text s) = untabbed (tokenContent s))
     \<and> (currentToken s = Nothing \<longrightarrow> tokenContent s = [])
     \<and> (currentToken s = EndOfLine \<longrightarrow> untabbed (tokenContent s) \<noteq> [])
     \<and> (\<forall>t \<in> set (tokens s). tk_second t \<noteq> EndOfLine \<longrightarrow> stands_at (store s) t
          \<and> (tk_lineValue t = Str (lineValue s) \<longrightarrow> token_end t \<le> closed_length s))"

lemma find_start_newline: "find_start (map_order tokenStarts) c = Some EndOfLine \<Longrightarrow> c \<noteq> tab_char"
  by (auto simp: map_order_starts letters_def digits_def tab_char_def split: if_splits)

lemma line_text_add [simp]:
  "lineValue s < length (store s) \<Longrightarrow> line_text (line_add c s) = line_text s @ untabbed [c]"
  by (simp add: line_text_def line_add_def untabbed_def tab_char_def)

lemma indexInLine_add [simp]: "indexInLine (line_add c s) = indexInLine s + length (untabbed [c])"
  by (simp add: line_add_def untabbed_def tab_char_def)

lemma untabbed_append [simp]: "untabbed (s @ t) = untabbed s @ untabbed t" "untabbed [] = []"
  by (simp_all add: untabbed_def)

text \<open>Text that is appended to a line leaves the tokens of the line where they stand.\<close>

lemma stands_append:
  assumes "stands_at strings t" and "k < length strings" and "tk_lineValue t = Str k \<Longrightarrow> token_end t \<le> length (strings ! k)"
  shows "stands_at (strings[k := strings ! k @ s]) t"
  using assms by (auto simp: stands_at_def nth_list_update token_end_def)

lemma line_add_store:
  "store (line_add c s) = (store s)[lineValue s := line_text s @ untabbed [c]]" if "lineValue s < length (store s)"
  using that by (simp add: line_add_def line_text_def untabbed_def tab_char_def)

definition tokens_stand :: "string list \<Rightarrow> nat \<Rightarrow> nat \<Rightarrow> token list \<Rightarrow> bool" where
  "tokens_stand strings k b ts \<longleftrightarrow> (\<forall>t \<in> set ts. tk_second t \<noteq> EndOfLine \<longrightarrow> stands_at strings t
     \<and> (tk_lineValue t = Str k \<longrightarrow> token_end t \<le> b))"

lemma column_inv_iff:
  "column_inv raw i s \<longleftrightarrow>
     lineValue s < length (store s) \<and> indexInLine s = length (line_text s)
     \<and> (currentToken s \<noteq> Nothing \<longrightarrow> 1 \<le> startIndexInLine s \<and> startIndexInLine s - 1 \<le> length (line_text s)
          \<and> drop (startIndexInLine s - 1) (line_text s) = untabbed (tokenContent s))
     \<and> (currentToken s = Nothing \<longrightarrow> tokenContent s = [])
     \<and> (currentToken s = EndOfLine \<longrightarrow> untabbed (tokenContent s) \<noteq> [])
     \<and> tokens_stand (store s) (lineValue s) (closed_length s) (tokens s)"
  by (simp add: column_inv_def tokens_stand_def)

lemma tokens_stand_append:
  assumes "tokens_stand strings k b ts" and "k < length strings" and "b \<le> length (strings ! k)" and "b \<le> b'"
  shows "tokens_stand (strings[k := strings ! k @ s]) k b' ts"
  using assms stands_append [OF _ assms(2)] unfolding tokens_stand_def by (meson order.trans)

lemma tokens_stand_line:
  assumes "tokens_stand (store s) (lineValue s) b (tokens s)" and "lineValue s < length (store s)"
    and "b \<le> length (line_text s)" and "b \<le> b'" and "store s' = store s" and "lineValue s' = lineValue s"
  shows "tokens_stand (store (line_add c s')) (lineValue s) b' (tokens s)"
  using tokens_stand_append [OF assms(1,2), of b' "untabbed [c]"] assms(2-)
  by (simp add: line_add_store line_text_def)

lemma column_begin:
  assumes "column_inv raw i s" and "currentToken s = Nothing"
  shows "column_inv raw j (begin_token c s)"
proof (cases "find_start (map_order tokenStarts) c")
  case None
  then show ?thesis
    using assms tokens_stand_line [of s "length (line_text s)" "length (line_text s) + length (untabbed [c])" s c]
    by (simp add: begin_token_None column_inv_iff closed_length_def)
next
  case (Some ty)
  let ?s = "s\<lparr>currentToken := ty, tokenContent := tokenContent s @ [c], startIndexInLine := indexInLine s + 1\<rparr>"
  have "ty \<noteq> Nothing" using Some find_start_not_Nothing [of "map_order tokenStarts" c] by auto
  moreover have "ty = EndOfLine \<Longrightarrow> untabbed [c] \<noteq> []"
    using Some find_start_newline by (auto simp: untabbed_def)
  moreover have "line_text ?s = line_text s" by (simp add: line_text_def)
  ultimately show ?thesis
    using Some assms tokens_stand_line [of s "length (line_text s)" "length (line_text s)" ?s c]
    by (simp add: begin_token_Some column_inv_iff closed_length_def)
qed

lemma column_extend:
  assumes "column_inv raw i s" and "currentToken s \<noteq> Nothing"
  shows "column_inv raw j (line_add c (s\<lparr>tokenContent := tokenContent s @ [c]\<rparr>))"
proof -
  let ?s = "s\<lparr>tokenContent := tokenContent s @ [c]\<rparr>"
  have "line_text ?s = line_text s" by (simp add: line_text_def)
  moreover have "startIndexInLine s - Suc (length (line_text s)) = 0"
    using assms by (auto simp: column_inv_iff)
  ultimately show ?thesis
    using assms tokens_stand_line [of s "startIndexInLine s - 1" "startIndexInLine s - 1" ?s c]
    by (simp add: column_inv_iff closed_length_def)
qed

lemma emitted_place [simp]:
  "tk_indexInLine (emitted c s) = startIndexInLine s"
  "tk_length (emitted c s) = of_nat (length (tk_first (emitted c s)))"
  by (auto simp: end_token_def Let_def new_string_def emitted_def tokenDataType6_def)

lemma end_token_quoted:
  assumes "currentToken s \<noteq> EndOfLine"
  shows "store (fst (end_token c s)) = store (if quoted_type (currentToken s) then line_add c s else s)"
    "lineValue (fst (end_token c s)) = lineValue s"
    "indexInLine (fst (end_token c s)) = indexInLine (if quoted_type (currentToken s) then line_add c s else s)"
  using assms by (auto simp: end_token_def Let_def new_string_def line_add_def)

lemma end_token_line:
  assumes "currentToken s = EndOfLine"
  shows "store (fst (end_token c s)) = (store s)[lineValue s := butlast (line_text s)] @ [[]]"
    "lineValue (fst (end_token c s)) = length (store s)" "indexInLine (fst (end_token c s)) = 0"
  using assms by (auto simp: end_token_def Let_def new_string_def line_text_def)

lemma tokens_stand_snoc:
  assumes "tokens_stand strings k b ts" and "b \<le> b'"
    and "tk_second t \<noteq> EndOfLine \<Longrightarrow> stands_at strings t \<and> token_end t \<le> b'"
  shows "tokens_stand strings k b' (ts @ [t])"
  using assms unfolding tokens_stand_def by (auto dest: order.trans)

lemma column_finish:
  assumes "column_inv raw i s" and "currentToken s \<noteq> Nothing"
  shows "column_inv raw j (fst (end_token c s))"
proof (cases "currentToken s = EndOfLine")
  case True
  let ?line = "line_text s" and ?old = "(store s)[lineValue s := butlast (line_text s)]"
  have *: "lineValue s < length (store s)" "startIndexInLine s - 1 \<le> length ?line"
      "drop (startIndexInLine s - 1) ?line \<noteq> []"
    using assms True by (simp_all add: column_inv_iff)
  then have lt: "startIndexInLine s - 1 \<le> length (butlast ?line)" by simp
  have "stands_at (?old @ [[]]) t \<and> tk_lineValue t \<noteq> Str (length (store s))"
    if "t \<in> set (tokens s)" "tk_second t \<noteq> EndOfLine" for t
  proof -
    have st: "stands_at (store s) t" "tk_lineValue t = Str (lineValue s) \<Longrightarrow> token_end t \<le> startIndexInLine s - 1"
      using assms that True by (auto simp: column_inv_iff tokens_stand_def closed_length_def)
    moreover have "take n (drop m (butlast ?line)) = take n (drop m ?line)" if "m + n \<le> length (butlast ?line)" for m n
      using that by (simp add: butlast_conv_take drop_take min_absorb1)
    ultimately show ?thesis
      using lt *(1) by (fastforce simp: stands_at_def token_end_def nth_append nth_list_update line_text_def)
  qed
  then show ?thesis
    using True nth_append_length [of ?old "[]" "[]"]
    by (auto simp: column_inv_iff end_token_line line_text_def tokens_stand_def swapped_type_eq)
next
  case False
  let ?q = "quoted_type (currentToken s)" and ?t = "emitted c s"
  define s1 where "s1 = (if ?q then line_add c s else s)"
  have f: "lineValue s < length (store s)" "1 \<le> startIndexInLine s" "startIndexInLine s - 1 \<le> length (line_text s)"
      "drop (startIndexInLine s - 1) (line_text s) = untabbed (tokenContent s)"
      "indexInLine s = length (line_text s)"
      "tokens_stand (store s) (lineValue s) (startIndexInLine s - 1) (tokens s)"
    using assms by (simp_all add: column_inv_iff closed_length_def)
  have s1: "line_text s1 = line_text s @ (if ?q then untabbed [c] else [])" "lineValue s1 = lineValue s"
      "length (store s1) = length (store s)" "indexInLine s1 = length (line_text s1)"
    using f by (simp_all add: s1_def)
  have z: "startIndexInLine s - Suc (length (line_text s)) = 0" using f(3) by simp
  have dr: "drop (startIndexInLine s - 1) (line_text s1) = untabbed (tk_first ?t)"
    using f z by (simp add: s1(1))
  have "length (line_text s1) = startIndexInLine s - 1 + length (untabbed (tk_first ?t))"
    using f(3) s1(1) arg_cong [OF dr, of length] by simp
  then have en: "token_end ?t = length (line_text s1)" by (simp add: token_end_def)
  have ts: "tokens_stand (store s1) (lineValue s) (startIndexInLine s - 1) (tokens s)"
    using f tokens_stand_line [of s "startIndexInLine s - 1" "startIndexInLine s - 1" s c] by (simp add: s1_def)
  have "stands_at (store s1) ?t"
    unfolding stands_at_def
    using f s1 dr False by (auto simp: line_text_def end_token_quoted simp del: emitted_fields(1))
  then have "tokens_stand (store s1) (lineValue s) (length (line_text s1)) (tokens s @ [?t])"
    using ts f(3) en by (intro tokens_stand_snoc) (auto simp: s1(1))
  moreover have "line_text (fst (end_token c s)) = line_text s1"
    using False s1(2) by (simp add: line_text_def end_token_quoted s1_def)
  ultimately show ?thesis
    using False f s1 by (simp add: column_inv_iff end_token_quoted closed_length_def s1_def)
qed

interpretation columns: lexer_invariant column_inv
  by unfold_locales (rule column_begin column_extend column_finish, assumption+)+

lemma column_start:
  assumes "currentToken g = Nothing" and "tokenContent g = []"
  shows "column_inv raw 1 (tokenize_init [] f g)"
  using assms by (simp add: column_inv_iff tokenize_init_def new_string_def Let_def line_text_def tokens_stand_def nth_append)

lemma tokenize_columns:
  assumes "currentToken g = Nothing" and "tokenContent g = []"
    and "t \<in> set (butlast (tokens (tokenize raw [] f g)))" and "tk_second t \<noteq> EndOfLine"
  shows "stands_at (store (tokenize raw [] f g)) t \<and> (\<exists>b < length (store (tokenize raw [] f g)). tk_filePath t = Str b)"
proof -
  let ?s = "tok_loop (prepare_file raw) 1 (tokenize_init [] f g)"
  have "column_inv (prepare_file raw) (length (prepare_file raw)) ?s"
    by (rule columns.inv_loop [OF column_start [OF assms(1,2)] prepare_file_length])
  moreover have "place_inv (prepare_file raw) (length (prepare_file raw)) ?s"
    by (rule placed.inv_loop [OF place_init prepare_file_length])
  moreover have "tokens (tokenize raw [] f g) = tokens ?s @ [tokenDataType6 [] EndOfFile (lineNumber ?s + 1) 0 NullStr NullStr]"
      "store (tokenize raw [] f g) = store ?s"
    by (simp_all add: tokenize_def Let_def)
  ultimately show ?thesis
    using assms(3,4) by (auto simp: column_inv_iff tokens_stand_def place_inv_def located_def list_all_iff)
qed

text \<open>The four lines of a report without colours, and the text above the carets.\<close>

definition report :: "string \<Rightarrow> string \<Rightarrow> string \<Rightarrow> nat \<Rightarrow> nat \<Rightarrow> nat \<Rightarrow> string" where
  "report msg filePath line number col n =
     ''Error:  '' @ msg @ eol @ ''In: '' @ filePath @ eol
     @ to_string (int number) @ '' |  '' @ line @ eol
     @ replicate (length (to_string (int number) @ '' |  '') + col) (CHR '' '') @ replicate n (CHR ''^'') @ eol
     @ replicate (length (to_string (int number) @ '' |  '') + col) (CHR '' '') @ ''here'' @ eol @ eol"

lemma repeated_char: "repeated n (Write1 [c]) = replicate n c" "repeated n [c] = replicate n c"
  by (induction n) (simp_all add: repeated_def Write1_def)

text \<open>
  C20. A report at a token of the file underlines the token: the printed line carries as many carets as
  the token has characters, and the characters above them are the text of the token. (A token with a
  tab inside is longer than its text in the stored line, and a length is kept in 16 bits.)
\<close>

theorem printTokenError_underlines:
  assumes "currentToken g = Nothing" and "tokenContent g = []"
    and "t \<in> set (butlast (tokens (tokenize raw [] f g)))" and "tk_second t \<noteq> EndOfLine"
    and "tab_char \<notin> set (tk_first t)" and "length (tk_first t) < 2 ^ 16"
  shows "\<exists>filePath line col. printTokenError False False (store (tokenize raw [] f g)) t msg
      = Inr (report msg filePath line (tk_lineNumber t) col (length (tk_first t)))
    \<and> take (length (tk_first t)) (drop col line) = tk_first t"
proof -
  let ?st = "store (tokenize raw [] f g)"
  obtain a b where t: "tk_lineValue t = Str a" "a < length ?st" "1 \<le> tk_indexInLine t" "tk_filePath t = Str b" "b < length ?st"
      "take (length (untabbed (tk_first t))) (drop (tk_indexInLine t - 1) (?st ! a)) = untabbed (tk_first t)"
      "tk_length t = of_nat (length (tk_first t))"
    using tokenize_columns [OF assms(1-4)] by (auto simp: stands_at_def)
  have u: "untabbed (tk_first t) = tk_first t"
    using assms(5) by (auto simp: untabbed_def filter_id_conv)
  have n: "unat (tk_length t) = length (tk_first t)"
    using assms(6) t(7) by (simp add: unsigned_of_nat take_bit_nat_eq_self)
  have e: "length (to_string (int (tk_lineNumber t))) + 4 + tk_indexInLine t - 1
      = length (to_string (int (tk_lineNumber t)) @ '' |  '') + (tk_indexInLine t - 1)"
    using t(3) by simp
  have "printTokenError False False ?st t msg
      = Inr (report msg (?st ! b) (?st ! a) (tk_lineNumber t) (tk_indexInLine t - 1) (length (tk_first t)))"
    using t(1-5) n unfolding show_token_def printTokenError_def Let_def report_def e
    by (simp add: deref_string_def vec_at_def PrintError_def print_message_def WriteLine_def WriteLine0_def WriteLine1_def Write1_def repeated_char)
  then show ?thesis using t(6) u by auto
qed

text \<open>The first token of \<open>x\<close>.\<close>

lemma printTokenError_underlines_witness:
  "\<exists>filePath line col. printTokenError False False (store (tokenize ''x'' [] ''a'' lexer_start))
        (tokens (tokenize ''x'' [] ''a'' lexer_start) ! 0) ''no''
      = Inr (report ''no'' filePath line (tk_lineNumber (tokens (tokenize ''x'' [] ''a'' lexer_start) ! 0)) col 1)
    \<and> take 1 (drop col line) = ''x''"
proof -
  let ?ts = "tokens (tokenize ''x'' [] ''a'' lexer_start)"
  have x: "tk_first (?ts ! 0) = ''x''" "tk_second (?ts ! 0) = Identifier" "length ?ts > 1"
    by code_simp+
  then have "?ts ! 0 \<in> set (butlast ?ts)"
    by (metis length_butlast nth_butlast nth_mem zero_less_diff)
  then show ?thesis
    using printTokenError_underlines [of lexer_start "?ts ! 0" "''x''" "''a''" "''no''"] x
    by (simp add: lexer_start_def tab_char_def)
qed

end
