(* ===== verification/Passes.thy ===== *)
theory Passes
  imports Reports
begin

text \<open>
  \<open>generateOutputCode\<close> (\<^verbatim>\<open>src/src/parser.cpp\<close>), which \<open>main\<close> runs for pass 0, 1 and 2, as far as the tree
  alone decides: the sequence of texts it prints and of calls of generation methods it makes. The walk over the
  store of nodes, with the methods themselves, is \<open>output_code\<close> of \<open>Codegen_Definitions\<close>; no generation method
  changes the types, the children or the method pointers that it reads.
\<close>

section \<open>generateOutputCode\<close>

datatype event = Printed string | Generated ast nat

definition announce :: "bool \<Rightarrow> nat \<Rightarrow> nat \<Rightarrow> string \<Rightarrow> ast \<Rightarrow> event list" where
  "announce useColor depth pass what n =
     Printed (printIndent (depth + 1) @ Write1 ''pass '' @ Write2 useColor (to_string (int pass)) greenFGColor
       @ Write1 what @ WriteLine useColor (tk_first (ntoken n)) yellowFGColor [])
     # (if codegen (info n) \<noteq> No_Codegen then [Generated n pass] else [])"

fun generateOutputCode :: "bool \<Rightarrow> nat \<Rightarrow> nat \<Rightarrow> ast \<Rightarrow> event list" where
  "generateOutputCode useColor depth pass (Node a cs ls) =
     (let n = Node a cs ls in
      case nodeType a of
        Compiler_Define_Struct \<Rightarrow> announce useColor depth pass '': generating struct for: '' n
      | Compiler_Define_Cast \<Rightarrow>
          if pass = 0 then [] else announce useColor depth pass '': generating cast for: '' n
      | Compiler_Define_Function \<Rightarrow>
          if pass = 0 then [] else announce useColor depth pass '': generating for: '' n
      | Compile_Time_Directive \<Rightarrow>
          if pass = 0 then [] else announce useColor depth pass '': generating for: '' n
      | Scope_Body \<Rightarrow>
          Printed (printIndent (depth + 1) @ Write1 ''pass '' @ Write2 useColor (to_string (int pass)) greenFGColor
            @ WriteLine1 '': generating scope body'')
          # concat (map (generateOutputCode useColor (depth + 1) pass) cs)
      | _ \<Rightarrow> [])"

text \<open>The three passes of \<open>main\<close>.\<close>

definition output_passes :: "bool \<Rightarrow> ast \<Rightarrow> event list" where
  "output_passes useColor root =
     generateOutputCode useColor 0 0 root @ generateOutputCode useColor 0 1 root @ generateOutputCode useColor 0 2 root"

subsection \<open>What is generated\<close>

definition calls :: "event list \<Rightarrow> (ast \<times> nat) list" where
  "calls es = concat (map (\<lambda>e. case e of Printed _ \<Rightarrow> [] | Generated n p \<Rightarrow> [(n, p)]) es)"

text \<open>The definitions at the top level and in nested bodies, in order.\<close>

fun units :: "ast \<Rightarrow> ast list" where
  "units (Node a cs ls) =
     (if nodeType a = Scope_Body then concat (map units cs)
      else if nodeType a \<in> {Compiler_Define_Struct, Compiler_Define_Cast, Compiler_Define_Function, Compile_Time_Directive}
        \<and> codegen a \<noteq> No_Codegen then [Node a cs ls]
      else [])"

definition is_struct :: "ast \<Rightarrow> bool" where
  "is_struct n \<longleftrightarrow> ntype n = Compiler_Define_Struct"

lemma calls_simps [simp]:
  "calls [] = []" "calls (Printed s # es) = calls es" "calls (Generated n p # es) = (n, p) # calls es"
  "calls (es @ fs) = calls es @ calls fs"
  by (simp_all add: calls_def)

lemma calls_concat [simp]: "calls (concat ess) = concat (map calls ess)"
  by (induction ess) simp_all

lemma calls_announce [simp]:
  "calls (announce useColor depth pass what n) = (if codegen (info n) \<noteq> No_Codegen then [(n, pass)] else [])"
  by (simp add: announce_def)

lemma generateOutputCode_calls:
  "calls (generateOutputCode useColor depth pass n) =
     map (\<lambda>m. (m, pass)) (filter (\<lambda>m. 0 < pass \<or> is_struct m) (units n))"
proof (induction n arbitrary: depth)
  case (Node a cs ls)
  have "concat (map (\<lambda>c. calls (generateOutputCode useColor (depth + 1) pass c)) cs)
      = map (\<lambda>m. (m, pass)) (filter (\<lambda>m. 0 < pass \<or> is_struct m) (concat (map units cs)))"
    using Node by (induction cs) simp_all
  then show ?case
    by (cases "nodeType a") (simp_all add: comp_def is_struct_def)
qed

text \<open>
  C18. The three passes generate exactly the definitions of the tree, in order: the structs alone first,
  then everything twice, so that every struct name is known before any function is generated.
\<close>

theorem output_passes_order:
  "calls (output_passes useColor root) =
     map (\<lambda>m. (m, 0)) (filter is_struct (units root)) @ map (\<lambda>m. (m, 1)) (units root) @ map (\<lambda>m. (m, 2)) (units root)"
  by (simp add: output_passes_def generateOutputCode_calls)

end
