(* ===== verification/Overloads.thy ===== *)
theory Overloads
  imports Reports
begin

text \<open>
  The table of functions of the code generator and the choice of an overload (\<^verbatim>\<open>src/src/codegen.cpp\<close>:
  \<open>argType\<close>, \<open>functionID\<close>, \<open>compareASTNodeTypes\<close>, \<open>compareMatch\<close>, \<open>getFunctionFromID\<close>,
  \<open>getExactFunctionFromID\<close>, \<open>getFunctionIDFromFunctionPointer\<close>). A function of the LLVM module is its
  handle; an entry of the table, which the code holds by pointer, is its position. Scores are \<open>uint16_t\<close>.
  The lookups return the first entry of least score; the rest says what scores zero.
\<close>

section \<open>Entries\<close>

record argType =
  typeString :: string
  baseASTType :: ASTNodeType
  pointerLevel :: nat
  isReference :: bool
  mustBeExactType :: bool

text \<open>The constructor; \<open>pointerLevel\<close> is a \<open>uint8_t\<close>.\<close>

definition argType_of :: "string \<Rightarrow> ASTNodeType \<Rightarrow> nat \<Rightarrow> bool \<Rightarrow> bool \<Rightarrow> argType" where
  "argType_of ts bT pL r ex =
     \<lparr>typeString = ts, baseASTType = bT, pointerLevel = pL mod 2 ^ 8, isReference = r, mustBeExactType = ex\<rparr>"

type_synonym fn_handle = nat

record functionID =
  fid_name :: string
  mangledName :: string
  returnType :: string
  arguments :: "argType list"
  userArguments :: "argType list"
  variableNumArguments :: bool
  isStructReturn :: bool
  uses :: "32 word"
  isMemberFunction :: bool
  fnValue :: "fn_handle option"

definition functionID_of ::
  "string \<Rightarrow> string \<Rightarrow> string \<Rightarrow> argType list \<Rightarrow> argType list \<Rightarrow> fn_handle option \<Rightarrow> bool \<Rightarrow> bool \<Rightarrow> bool \<Rightarrow> functionID" where
  "functionID_of n mN r llvmArgs userArgs f vA mF sRet =
     \<lparr>fid_name = n, mangledName = mN, returnType = r, arguments = llvmArgs, userArguments = userArgs,
      variableNumArguments = vA, isStructReturn = sRet, uses = 0, isMemberFunction = mF, fnValue = f\<rparr>"

fun print_arguments :: "bool \<Rightarrow> argType list \<Rightarrow> string" where
  "print_arguments useColor [] = []"
| "print_arguments useColor (a # as) =
     (if isReference a then Write2 useColor ''ref '' magentaFGColor else [])
     @ Write2 useColor (typeString a) blueFGColor
     @ (if as \<noteq> [] then Write1 '', '' else []) @ print_arguments useColor as"

definition print_function :: "bool \<Rightarrow> functionID \<Rightarrow> string" where
  "print_function useColor f =
     (if uses f = 0 then []
      else (if returnType f \<noteq> [] then Write2 useColor (returnType f @ '' '') blueFGColor else [])
           @ Write2 useColor (fid_name f) greenFGColor @ Write1 ''('' @ print_arguments useColor (arguments f)
           @ Write1 '')''
           @ (if isStructReturn f
              then Write1 '' ('' @ Write2 useColor ''returns struct'' yellowFGColor @ Write1 '')'' else [])
           @ WriteLine0)"

definition printFunctionPrototypes :: "bool \<Rightarrow> functionID list \<Rightarrow> string" where
  "printFunctionPrototypes useColor functionIDs = concat (map (print_function useColor) functionIDs)"

section \<open>Scores\<close>

definition compareASTNodeTypes :: "ASTNodeType \<Rightarrow> ASTNodeType \<Rightarrow> bool \<Rightarrow> bool" where
  "compareASTNodeTypes a b wereTypesInferred =
     (let ord = (\<lambda>t. int (nodeOrd t)); start = int (nodeOrd Begin_Unsigned_Integers); stop = int (nodeOrd UInt8_Type)
      in if a = b then True
         else if wereTypesInferred
         then (if ord a < start \<and> ord b > start \<and> ord b \<le> stop then ord a = ord b - (start + 1)
               else if ord b < start \<and> ord a > start \<and> ord a \<le> stop then ord b = ord a - (start + 1)
               else False)
         else False)"

definition between :: "ASTNodeType \<Rightarrow> ASTNodeType \<Rightarrow> ASTNodeType \<Rightarrow> bool" where
  "between lo hi t \<longleftrightarrow> nodeOrd lo \<le> nodeOrd t \<and> nodeOrd t \<le> nodeOrd hi"

definition type_distance :: "ASTNodeType \<Rightarrow> ASTNodeType \<Rightarrow> nat" where
  "type_distance a b = nat \<bar>int (nodeOrd a) - int (nodeOrd b)\<bar>"

text \<open>The points for one argument; none stands for the early \<open>return 500\<close>.\<close>

definition argument_points :: "bool \<Rightarrow> argType \<Rightarrow> ASTNodeType \<Rightarrow> nat option" where
  "argument_points wereTypesInferred p t2 =
     (let t1 = baseASTType p in
      if compareASTNodeTypes t1 t2 wereTypesInferred then Some 0
      else if between Integer_Node Boolean_Node t1
      then if mustBeExactType p then None
           else Some (if between Integer_Node Boolean_Node t2 then type_distance t1 t2 else type_distance Boolean_Node Integer_Node)
      else if between Double_Type Half_Type t1
      then if mustBeExactType p then None
           else Some (if between Double_Type Half_Type t2 then type_distance t1 t2 else type_distance Half_Type Double_Type)
      else Some 0)"

fun match_arguments :: "bool \<Rightarrow> nat \<Rightarrow> argType list \<Rightarrow> ASTNodeType list \<Rightarrow> nat" where
  "match_arguments inferred differences (p # ps) (t # ts) =
     (case argument_points inferred p t of
        None \<Rightarrow> 500
      | Some d \<Rightarrow> match_arguments inferred ((differences + d) mod 2 ^ 16) ps ts)"
| "match_arguments inferred differences _ _ = differences"

text \<open>The three overloads of \<open>compareMatch\<close>: on the types of an argument list, of a list of nodes, and on
  the name alone.\<close>

definition compare_types :: "functionID \<Rightarrow> string \<Rightarrow> ASTNodeType list \<Rightarrow> bool \<Rightarrow> nat" where
  "compare_types f n ts wereTypesInferred =
     (if n \<noteq> fid_name f then 1000
      else if length (userArguments f) \<noteq> length ts then 1000 - 1
      else match_arguments wereTypesInferred 0 (userArguments f) ts)"

definition compareMatch :: "functionID \<Rightarrow> string \<Rightarrow> argType list \<Rightarrow> bool \<Rightarrow> nat" where
  "compareMatch f n as wereTypesInferred = compare_types f n (map baseASTType as) wereTypesInferred"

definition compareMatch_nodes :: "functionID \<Rightarrow> string \<Rightarrow> ast list \<Rightarrow> nat" where
  "compareMatch_nodes f n as = compare_types f n (map (\<lambda>a. nodeType (info a)) as) False"

definition compareMatch_name :: "functionID \<Rightarrow> string \<Rightarrow> nat" where
  "compareMatch_name f n = (if n \<noteq> fid_name f then 1000 else 1000 - 1)"

section \<open>Lookup\<close>

datatype lookup = Found nat | Needs_Exact | Not_Found

text \<open>The common loop: entries without a score are passed over. The state is \<open>best\<close>, \<open>bestScore\<close> and
  \<open>requiresExact\<close>.\<close>

fun best_match :: "(functionID \<Rightarrow> nat option) \<Rightarrow> nat \<Rightarrow> functionID list \<Rightarrow> nat option \<times> nat \<times> bool \<Rightarrow> nat option \<times> nat \<times> bool" where
  "best_match score k [] st = st"
| "best_match score k (f # fs) (best, bestScore, requiresExact) =
     best_match score (k + 1) fs
       (case score f of
          Some s \<Rightarrow> if s < bestScore then (Some k, s, s = 500) else (best, bestScore, requiresExact)
        | None \<Rightarrow> (best, bestScore, requiresExact))"

definition lookup_of :: "(functionID \<Rightarrow> nat option) \<Rightarrow> functionID list \<Rightarrow> (nat \<Rightarrow> bool) \<Rightarrow> lookup" where
  "lookup_of score fnIDs accept =
     (case best_match score 0 fnIDs (None, 1000, False) of
        (best, bestScore, requiresExact) \<Rightarrow>
          if requiresExact then Needs_Exact
          else if accept bestScore then (case best of Some i \<Rightarrow> Found i | None \<Rightarrow> Not_Found)
          else Not_Found)"

definition getFunctionFromID :: "functionID list \<Rightarrow> string \<Rightarrow> argType list \<Rightarrow> bool \<Rightarrow> bool \<Rightarrow> lookup" where
  "getFunctionFromID fnIDs n as wereTypesInferred isMember =
     lookup_of (\<lambda>f. if isMember \<noteq> isMemberFunction f then None else Some (compareMatch f n as wereTypesInferred))
       fnIDs (\<lambda>s. s < 1000)"

definition getExactFunctionFromID :: "functionID list \<Rightarrow> string \<Rightarrow> argType list \<Rightarrow> bool \<Rightarrow> lookup" where
  "getExactFunctionFromID fnIDs n as wereTypesInferred =
     lookup_of (\<lambda>f. Some (compareMatch f n as wereTypesInferred)) fnIDs (\<lambda>s. s = 0)"

definition getFunctionFromID_nodes :: "functionID list \<Rightarrow> string \<Rightarrow> ast list \<Rightarrow> lookup" where
  "getFunctionFromID_nodes fnIDs n argValues =
     lookup_of (\<lambda>f. Some (compareMatch_nodes f n argValues)) fnIDs (\<lambda>s. s < 1000)"

definition getFunctionFromID_name :: "functionID list \<Rightarrow> string \<Rightarrow> lookup" where
  "getFunctionFromID_name fnIDs n = lookup_of (\<lambda>f. Some (compareMatch_name f n)) fnIDs (\<lambda>s. s < 1000)"

text \<open>No entry for the function ends the program.\<close>

fun find_handle :: "nat \<Rightarrow> functionID list \<Rightarrow> fn_handle option \<Rightarrow> nat option" where
  "find_handle k [] fnPtr = None"
| "find_handle k (f # fs) fnPtr = (if fnPtr = fnValue f then Some k else find_handle (k + 1) fs fnPtr)"

definition getFunctionIDFromFunctionPointer :: "functionID list \<Rightarrow> fn_handle option \<Rightarrow> nat outcome" where
  "getFunctionIDFromFunctionPointer fnIDs fnPtr =
     (case find_handle 0 fnIDs fnPtr of
        Some i \<Rightarrow> Inr i | None \<Rightarrow> Inl (Exited ''Function could not be resolved from Function*''))"

section \<open>The entry that is found\<close>

definition is_best :: "(functionID \<Rightarrow> nat option) \<Rightarrow> functionID list \<Rightarrow> nat \<Rightarrow> nat \<Rightarrow> bool" where
  "is_best score fs i s \<longleftrightarrow> i < length fs \<and> score (fs ! i) = Some s
     \<and> (\<forall>j < length fs. \<forall>s'. score (fs ! j) = Some s' \<longrightarrow> s \<le> s' \<and> (j < i \<longrightarrow> s < s'))"

definition worse :: "(functionID \<Rightarrow> nat option) \<Rightarrow> functionID list \<Rightarrow> nat \<Rightarrow> bool" where
  "worse score fs b \<longleftrightarrow> (\<forall>f \<in> set fs. \<forall>s. score f = Some s \<longrightarrow> b \<le> s)"

lemma is_bestD:
  assumes "is_best score fs i s"
  shows "i < length fs" and "score (fs ! i) = Some s"
    and "j < length fs \<Longrightarrow> score (fs ! j) = Some s' \<Longrightarrow> s \<le> s' \<and> (j < i \<longrightarrow> s < s')"
  using assms by (simp_all add: is_best_def)

lemma is_best_Cons_old:
  "is_best score fs i s \<Longrightarrow> (\<And>s'. score f = Some s' \<Longrightarrow> s < s') \<Longrightarrow> is_best score (f # fs) (Suc i) s"
  by (auto simp: is_best_def nth_Cons split: nat.splits)

lemma is_best_Cons_new: "score f = Some s \<Longrightarrow> worse score fs s \<Longrightarrow> is_best score (f # fs) 0 s"
  by (auto simp: is_best_def worse_def nth_Cons set_conv_nth split: nat.splits)

lemma best_match_cases:
  assumes "best_match score k fs (best, b, r) = (best', b', r')"
  shows "(worse score fs b \<and> (best', b', r') = (best, b, r))
    \<or> (\<exists>i. is_best score fs i b' \<and> b' < b \<and> best' = Some (k + i) \<and> r' = (b' = 500))"
  using assms
proof (induction fs arbitrary: k best b r)
  case Nil
  then show ?case by (simp add: worse_def)
next
  case (Cons f fs)
  show ?case
  proof (cases "\<exists>s. score f = Some s \<and> s < b")
    case True
    then obtain s where s: "score f = Some s" "s < b" by blast
    then have "best_match score (k + 1) fs (Some k, s, s = 500) = (best', b', r')" using Cons.prems by simp
    from Cons.IH [OF this] show ?thesis
    proof (elim disjE exE conjE)
      assume "worse score fs s" "(best', b', r') = (Some k, s, s = 500)"
      then show ?thesis using is_best_Cons_new [of score f s fs] s by auto
    next
      fix i
      assume "is_best score fs i b'" "b' < s" "best' = Some (k + 1 + i)" "r' = (b' = 500)"
      then show ?thesis using is_best_Cons_old [of score fs i b' f] s by auto
    qed
  next
    case False
    then have f: "\<And>s. score f = Some s \<Longrightarrow> b \<le> s" by (auto simp: not_less)
    then have "best_match score (k + 1) fs (best, b, r) = (best', b', r')"
      using Cons.prems by (cases "score f") auto
    from Cons.IH [OF this] show ?thesis
    proof (elim disjE exE conjE)
      assume "worse score fs b" "(best', b', r') = (best, b, r)"
      then show ?thesis using f by (auto simp: worse_def)
    next
      fix i
      assume i: "is_best score fs i b'" "b' < b" "best' = Some (k + 1 + i)" "r' = (b' = 500)"
      have "b' < s'" if "score f = Some s'" for s' using f [OF that] i(2) by simp
      then show ?thesis using is_best_Cons_old [OF i(1), of f] i by auto
    qed
  qed
qed

lemma is_best_unique: "is_best score fs i s \<Longrightarrow> is_best score fs j s' \<Longrightarrow> i = j \<and> s = s'"
  unfolding is_best_def by (metis dual_order.antisym less_le_not_le linorder_neqE_nat)

lemma lookup_of_cases:
  assumes "\<forall>s. accept s \<longrightarrow> s < 1000"
  obtains (none) "worse score fs 1000" "lookup_of score fs accept = Not_Found"
  | (some) i b where "is_best score fs i b" "b < 1000"
      "lookup_of score fs accept = (if b = 500 then Needs_Exact else if accept b then Found i else Not_Found)"
proof -
  obtain best b r where m: "best_match score 0 fs (None, 1000, False) = (best, b, r)" by (metis prod_cases3)
  from best_match_cases [OF m] show thesis
  proof (elim disjE exE conjE)
    assume "worse score fs 1000" "(best, b, r) = (None, 1000, False)"
    then show thesis using none m assms by (auto simp: lookup_of_def)
  next
    fix i
    assume "is_best score fs i b" "b < 1000" "best = Some (0 + i)" "r = (b = 500)"
    then show thesis using some [of i b] m by (simp add: lookup_of_def)
  qed
qed

lemma worse_not_best: "worse score fs b \<Longrightarrow> is_best score fs i s \<Longrightarrow> b \<le> s"
  by (auto simp: worse_def is_best_def)

lemma lookup_of_iff:
  assumes "\<forall>s. accept s \<longrightarrow> s < 1000"
  shows "lookup_of score fs accept = Found i \<longleftrightarrow> (\<exists>s. is_best score fs i s \<and> accept s \<and> s \<noteq> 500)"
    and "lookup_of score fs accept = Needs_Exact \<longleftrightarrow> (\<exists>i. is_best score fs i 500)"
proof -
  have "(lookup_of score fs accept = Found i \<longleftrightarrow> (\<exists>s. is_best score fs i s \<and> accept s \<and> s \<noteq> 500))
     \<and> (lookup_of score fs accept = Needs_Exact \<longleftrightarrow> (\<exists>i. is_best score fs i 500))"
  proof (cases rule: lookup_of_cases [of accept score fs, OF assms, case_names None Some])
    case None
    moreover have "\<not> (\<exists>s. is_best score fs i s \<and> accept s \<and> s \<noteq> 500)" "\<not> (\<exists>i. is_best score fs i 500)"
      using worse_not_best [OF None(1)] assms by fastforce+
    ultimately show ?thesis by simp
  next
    case (Some k b)
    have *: "is_best score fs j s \<longleftrightarrow> j = k \<and> s = b" for j s
      using is_best_unique [OF Some(1), of j s] Some(1) by auto
    show ?thesis unfolding * Some(3) by auto
  qed
  then show "lookup_of score fs accept = Found i \<longleftrightarrow> (\<exists>s. is_best score fs i s \<and> accept s \<and> s \<noteq> 500)"
    and "lookup_of score fs accept = Needs_Exact \<longleftrightarrow> (\<exists>i. is_best score fs i 500)"
    by blast+
qed

section \<open>Scores, characterised\<close>

text \<open>An argument type counts as the same as a parameter type.\<close>

definition sign_pairs :: "(ASTNodeType \<times> ASTNodeType) list" where
  "sign_pairs = [(Nothing_Node, UInt128_Type), (Identifier_Node, UInt64_Type), (Integer_Node, UInt32_Type),
     (SInt128_Type, UInt16_Type), (SInt64_Type, UInt8_Type)]"

lemma compareASTNodeTypes_iff:
  "compareASTNodeTypes a b wereTypesInferred \<longleftrightarrow>
     a = b \<or> (wereTypesInferred \<and> ((a, b) \<in> set sign_pairs \<or> (b, a) \<in> set sign_pairs))"
proof -
  have pair: "(x, y) \<in> set sign_pairs \<longleftrightarrow> nodeOrd x + 9 = nodeOrd y \<and> nodeOrd x < 5" for x y
    using node_table.ordinal_eq_iff [of x Nothing_Node] node_table.ordinal_eq_iff [of x Identifier_Node]
      node_table.ordinal_eq_iff [of x Integer_Node] node_table.ordinal_eq_iff [of x SInt128_Type]
      node_table.ordinal_eq_iff [of x SInt64_Type]
    by (cases y) (auto simp: sign_pairs_def)
  show ?thesis unfolding pair compareASTNodeTypes_def Let_def by auto
qed

text \<open>No two types of one width and different sign are the same to it.\<close>

lemma signs_never_match:
  "list_all (\<lambda>(a, b). \<not> compareASTNodeTypes a b True)
     [(SInt128_Type, UInt128_Type), (SInt64_Type, UInt64_Type), (SInt32_Type, UInt32_Type),
      (SInt16_Type, UInt16_Type), (SInt8_Type, UInt8_Type)]"
  by (simp add: compareASTNodeTypes_iff sign_pairs_def)

fun total_points :: "bool \<Rightarrow> argType list \<Rightarrow> ASTNodeType list \<Rightarrow> nat option" where
  "total_points inferred (p # ps) (t # ts) =
     (case (argument_points inferred p t, total_points inferred ps ts) of
        (Some d, Some e) \<Rightarrow> Some (d + e) | _ \<Rightarrow> None)"
| "total_points inferred _ _ = Some 0"

lemma argument_points_bound: "argument_points inferred p t = Some d \<Longrightarrow> d \<le> 13"
  by (auto simp: argument_points_def Let_def between_def type_distance_def split: if_splits)

lemma match_arguments_total:
  "d + 13 * length ts < 2 ^ 16 \<Longrightarrow>
   match_arguments inferred d ps ts = (case total_points inferred ps ts of None \<Rightarrow> 500 | Some e \<Rightarrow> d + e)"
proof (induction inferred d ps ts rule: match_arguments.induct)
  case (1 inferred d p ps t ts)
  show ?case
  proof (cases "argument_points inferred p t")
    case (Some e)
    then have "e \<le> 13" by (rule argument_points_bound)
    then have "d + e + 13 * length ts < 2 ^ 16" using "1.prems" by simp
    then show ?thesis using "1.IH" [OF Some] Some by (simp split: option.splits)
  qed simp
qed auto

lemma total_points_bound: "total_points inferred ps ts = Some e \<Longrightarrow> e \<le> 13 * length ts"
proof (induction inferred ps ts arbitrary: e rule: total_points.induct)
  case (1 inferred p ps t ts)
  then show ?case using argument_points_bound [of inferred p t] by (fastforce split: option.splits)
qed auto

text \<open>With at most seventy arguments a sum of points stays below the mark for a wrong number of them.\<close>

lemma compareMatch_cases:
  assumes "length as \<le> 70"
  shows "compareMatch f n as inferred =
    (if n \<noteq> fid_name f then 1000 else if length (userArguments f) \<noteq> length as then 999
     else case total_points inferred (userArguments f) (map baseASTType as) of None \<Rightarrow> 500 | Some e \<Rightarrow> e)"
  using assms match_arguments_total [of 0 "map baseASTType as" inferred "userArguments f"]
  by (simp add: compareMatch_def compare_types_def split: option.splits)

lemma compareMatch_bounds:
  assumes "length as \<le> 70"
  shows "compareMatch f n as inferred < 1000 \<longleftrightarrow> fid_name f = n"
    and "compareMatch f n as inferred < 999 \<longleftrightarrow> fid_name f = n \<and> length (userArguments f) = length as"
  using assms total_points_bound [of inferred "userArguments f" "map baseASTType as"]
  by (auto simp: compareMatch_cases [OF assms] split: option.splits)

text \<open>The functions a call can reach by name.\<close>

definition candidate :: "functionID list \<Rightarrow> string \<Rightarrow> bool \<Rightarrow> nat \<Rightarrow> bool" where
  "candidate fs n member i \<longleftrightarrow> i < length fs \<and> fid_name (fs ! i) = n \<and> isMemberFunction (fs ! i) = member"

text \<open>
  C16. Overload resolution: a call resolves to the first function of least distance among those of its
  name and kind; it does not resolve when there is no such function, or when the least distance is 500,
  the mark of a function that insists on exact types. A function with the right number of arguments
  always wins over one with another number.
\<close>

theorem getFunctionFromID_resolves:
  assumes "length as \<le> 70"
  shows "case getFunctionFromID fs n as inferred member of
      Found i \<Rightarrow> candidate fs n member i
        \<and> (\<forall>j. candidate fs n member j \<longrightarrow> compareMatch (fs ! i) n as inferred \<le> compareMatch (fs ! j) n as inferred
             \<and> (j < i \<longrightarrow> compareMatch (fs ! i) n as inferred < compareMatch (fs ! j) n as inferred)
             \<and> (length (userArguments (fs ! j)) = length as \<longrightarrow> length (userArguments (fs ! i)) = length as))
    | Not_Found \<Rightarrow> (\<forall>j. \<not> candidate fs n member j)
    | Needs_Exact \<Rightarrow> (\<exists>i. candidate fs n member i \<and> length (userArguments (fs ! i)) = length as
        \<and> compareMatch (fs ! i) n as inferred = 500)"
proof -
  let ?score = "\<lambda>f. if member \<noteq> isMemberFunction f then None else Some (compareMatch f n as inferred)"
  note small = compareMatch_bounds [OF assms]
  show ?thesis
  proof (cases rule: lookup_of_cases [of "\<lambda>s. s < 1000" ?score fs, case_names small None Some])
    case small
    show ?case by simp
  next
    case None
    have "\<not> candidate fs n member j" for j
    proof
      assume "candidate fs n member j"
      then have "fs ! j \<in> set fs" "fid_name (fs ! j) = n" "?score (fs ! j) = Some (compareMatch (fs ! j) n as inferred)"
        by (simp_all add: candidate_def)
      then show False using None(1) small(1) [of "fs ! j" n inferred] unfolding worse_def by fastforce
    qed
    then show ?thesis using None by (simp add: getFunctionFromID_def)
  next
    case (Some i b)
    have "i < length fs" "isMemberFunction (fs ! i) = member" "b = compareMatch (fs ! i) n as inferred"
      using is_bestD(1,2) [OF Some(1)] by (auto split: if_splits)
    then have i: "candidate fs n member i" "b = compareMatch (fs ! i) n as inferred"
      using small(1) [of "fs ! i"] Some(2) by (simp_all add: candidate_def)
    have best: "b \<le> compareMatch (fs ! j) n as inferred \<and> (j < i \<longrightarrow> b < compareMatch (fs ! j) n as inferred)"
      if "candidate fs n member j" for j
      using is_bestD(3) [OF Some(1), of j] that by (simp add: candidate_def)
    have arity: "length (userArguments (fs ! i)) = length as" if "b < 999" using small(2) that i by blast
    have "b < 999" if "candidate fs n member j" "length (userArguments (fs ! j)) = length as" for j
      using best [OF that(1)] small(2) [of "fs ! j" n inferred] that by (simp add: candidate_def)
    then show ?thesis
      using Some(2,3) i best arity by (auto simp: getFunctionFromID_def)
  qed
qed

lemmas match_defs = compareMatch_def compare_types_def argument_points_def compareASTNodeTypes_def between_def
  type_distance_def functionID_of_def argType_of_def Let_def

text \<open>\<open>f(int)\<close> and \<open>f(int8)\<close>, called with an \<open>int8\<close>.\<close>

definition f_of :: "ASTNodeType \<Rightarrow> functionID" where
  "f_of ty = functionID_of ''f'' ''f'' [] [] [argType_of [] ty 0 False False] None False False False"

lemma getFunctionFromID_resolves_witness:
  "getFunctionFromID [f_of SInt32_Type, f_of SInt8_Type] ''f'' [argType_of [] SInt8_Type 0 False False] True False = Found 1
   \<and> compareMatch (f_of SInt8_Type) ''f'' [argType_of [] SInt8_Type 0 False False] True
     < compareMatch (f_of SInt32_Type) ''f'' [argType_of [] SInt8_Type 0 False False] True"
proof -
  let ?fs = "[f_of SInt32_Type, f_of SInt8_Type]" and ?as = "[argType_of [] SInt8_Type 0 False False]"
  have e: "getFunctionFromID ?fs ''f'' ?as True False = Found 1"
    by (simp add: getFunctionFromID_def lookup_of_def match_defs f_of_def)
  have "candidate ?fs ''f'' False 0"
    by (simp add: candidate_def f_of_def functionID_of_def)
  moreover have "compareMatch (f_of SInt8_Type) ''f'' ?as True \<noteq> compareMatch (f_of SInt32_Type) ''f'' ?as True"
    by (simp add: match_defs f_of_def)
  ultimately show ?thesis
    using getFunctionFromID_resolves [of ?as ?fs "''f''" False True] e by fastforce
qed

section \<open>Exact matches\<close>

definition accepts :: "bool \<Rightarrow> argType \<Rightarrow> ASTNodeType \<Rightarrow> bool" where
  "accepts inferred p t \<longleftrightarrow> compareASTNodeTypes (baseASTType p) t inferred
     \<or> \<not> (between Integer_Node Boolean_Node (baseASTType p) \<or> between Double_Type Half_Type (baseASTType p))"

definition exact_for :: "bool \<Rightarrow> string \<Rightarrow> argType list \<Rightarrow> functionID \<Rightarrow> bool" where
  "exact_for inferred n as f \<longleftrightarrow> fid_name f = n \<and> list_all2 (\<lambda>p a. accepts inferred p (baseASTType a)) (userArguments f) as"

lemma type_distance_zero: "type_distance a b = 0 \<longleftrightarrow> a = b"
  using node_table.ordinal_eq_iff [of a b] by (auto simp: type_distance_def)

lemma argument_points_zero: "argument_points inferred p t = Some 0 \<longleftrightarrow> accepts inferred p t"
proof -
  have "type_distance (baseASTType p) t \<noteq> 0" if "\<not> compareASTNodeTypes (baseASTType p) t inferred"
    using that type_distance_zero [of "baseASTType p" t] by (auto simp: compareASTNodeTypes_iff)
  moreover have "type_distance Boolean_Node Integer_Node \<noteq> 0" "type_distance Half_Type Double_Type \<noteq> 0"
    by (simp_all add: type_distance_zero)
  ultimately show ?thesis
    by (simp add: argument_points_def accepts_def Let_def)
qed

lemma total_points_zero:
  "length ps = length ts \<Longrightarrow> total_points inferred ps ts = Some 0 \<longleftrightarrow> list_all2 (accepts inferred) ps ts"
proof (induction ps ts rule: list_induct2)
  case (Cons p ps t ts)
  then show ?case
    using argument_points_zero [of inferred p t]
    by (auto split: option.splits)
qed simp

lemma compareMatch_zero:
  assumes "length as \<le> 70"
  shows "compareMatch f n as inferred = 0 \<longleftrightarrow> exact_for inferred n as f"
proof (cases "fid_name f = n \<and> length (userArguments f) = length as")
  case True
  then show ?thesis
    using total_points_zero [of "userArguments f" "map baseASTType as" inferred]
    by (auto simp: compareMatch_cases [OF assms] exact_for_def list_all2_map2 split: option.splits)
next
  case False
  then show ?thesis
    by (auto simp: compareMatch_cases [OF assms] exact_for_def dest: list_all2_lengthD)
qed

text \<open>
  C32. The exact lookup, which finds redeclarations and operator overloads, returns the first function of
  the name with as many parameters as arguments, each of which accepts its argument; a parameter that
  is neither an integer nor a float accepts every argument, pointers are not told from what they
  point to, and nothing is found exactly when no function is of that kind.
\<close>

theorem getExactFunctionFromID_first:
  assumes "length as \<le> 70"
  shows "getExactFunctionFromID fs n as inferred = Found i \<longleftrightarrow>
      i < length fs \<and> exact_for inferred n as (fs ! i) \<and> (\<forall>j < i. \<not> exact_for inferred n as (fs ! j))"
proof -
  have "(\<exists>s. is_best (\<lambda>f. Some (compareMatch f n as inferred)) fs i s \<and> s = 0 \<and> s \<noteq> 500) \<longleftrightarrow>
      i < length fs \<and> compareMatch (fs ! i) n as inferred = 0 \<and> (\<forall>j < i. compareMatch (fs ! j) n as inferred \<noteq> 0)"
    by (auto simp: is_best_def)
  then show ?thesis
    using lookup_of_iff(1) [of "\<lambda>s. s = 0" "\<lambda>f. Some (compareMatch f n as inferred)" fs i]
    by (simp add: getExactFunctionFromID_def compareMatch_zero [OF assms])
qed

lemma getExactFunctionFromID_first_witness:
  "getExactFunctionFromID [f_of SInt32_Type, f_of SInt8_Type] ''f'' [argType_of [] SInt8_Type 0 False False] False = Found 1"
proof -
  let ?fs = "[f_of SInt32_Type, f_of SInt8_Type]" and ?as = "[argType_of [] SInt8_Type 0 False False]"
  have "exact_for False ''f'' ?as (?fs ! 1)" "\<not> exact_for False ''f'' ?as (?fs ! 0)"
    by (simp_all add: exact_for_def accepts_def match_defs f_of_def)
  then show ?thesis using getExactFunctionFromID_first [of ?as ?fs "''f''" False 1] by (simp add: less_Suc_eq)
qed

text \<open>Two functions that differ in the struct they take are one function to the exact lookup, and so are
  functions of a value and of a pointer to it. A value of 64 bits is an exact match for \<open>uint8\<close>.\<close>

lemma structs_not_told_apart:
  "getExactFunctionFromID [functionID_of ''f'' ''f.A'' [] [] [argType_of ''A'' Identifier_Node 0 False False] (Some 0) False False False]
     ''f'' [argType_of ''B'' Identifier_Node 0 False False] False = Found 0"
  "getExactFunctionFromID [functionID_of ''f'' ''f.int'' [] [] [argType_of ''int'' SInt32_Type 0 False False] (Some 0) False False False]
     ''f'' [argType_of ''*int'' SInt32_Type 1 False False] False = Found 0"
  "getExactFunctionFromID [functionID_of ''f'' ''f.uint8'' [] [] [argType_of ''uint8'' UInt8_Type 0 False True] (Some 0) False False False]
     ''f'' [argType_of ''int64'' SInt64_Type 0 False False] True = Found 0"
  by (simp_all add: getExactFunctionFromID_def lookup_of_def match_defs)

end
