(* ===== verification/Escapes.thy ===== *)
theory Escapes
  imports Strops_Numbers
begin

text \<open>
  Escape sequences of string and character literals (\<^verbatim>\<open>src/src/codegen.cpp\<close>: \<open>unescapeString\<close>). The
  result carries the value that is assigned to \<open>wasError\<close>. A byte from 128 on is no hexadecimal digit.
  Every text comes back from its escaped form, and a universal character name becomes the UTF-8 form
  of its code point.
\<close>

unbundle bit_operations_syntax

section \<open>Numeric escapes\<close>

text \<open>The loops over hexadecimal digits: with a limit on their number, or none. The value is an \<open>int\<close>.\<close>

fun hex_run :: "nat option \<Rightarrow> int \<Rightarrow> nat \<Rightarrow> string \<Rightarrow> (int \<times> nat \<times> string) outcome" where
  "hex_run maxlen v digits [] = Inr (v, digits, [])"
| "hex_run maxlen v digits (hc # cs) =
     (if (case maxlen of None \<Rightarrow> True | Some m \<Rightarrow> digits < m) \<and> hex_digit hc \<noteq> None
      then let d = the (hex_digit hc)
        in if is_int32 (v * 16) \<and> is_int32 (v * 16 + d) then hex_run maxlen (v * 16 + d) (digits + 1) cs
           else Inl Undefined_Behaviour
      else Inr (v, digits, hc # cs))"

definition is_octal :: "char \<Rightarrow> bool" where
  "is_octal c \<longleftrightarrow> 48 \<le> code_of c \<and> code_of c \<le> 55"

fun octal_run :: "int \<Rightarrow> nat \<Rightarrow> string \<Rightarrow> int \<times> string" where
  "octal_run v digits [] = (v, [])"
| "octal_run v digits (c # cs) =
     (if digits < 3 \<and> is_octal c then octal_run (v * 8 + (code_of c - 48)) (digits + 1) cs else (v, c # cs))"

text \<open>The bytes of a code point, in the code's own arithmetic.\<close>

definition utf8 :: "int \<Rightarrow> string outcome" where
  "utf8 v =
     (if v \<le> 0x7F then Inr [byte_char v]
      else if v \<le> 0x7FF
      then Inr [byte_char (0xC0 OR (drop_bit 6 v AND 0x1F)), byte_char (0x80 OR (v AND 0x3F))]
      else if v \<le> 0xFFFF
      then Inr [byte_char (0xE0 OR (drop_bit 12 v AND 0x0F)), byte_char (0x80 OR (drop_bit 6 v AND 0x3F)),
                byte_char (0x80 OR (v AND 0x3F))]
      else if v \<le> 0x10FFFF
      then Inr [byte_char (0xF0 OR (drop_bit 18 v AND 0x07)), byte_char (0x80 OR (drop_bit 12 v AND 0x3F)),
                byte_char (0x80 OR (drop_bit 6 v AND 0x3F)), byte_char (0x80 OR (v AND 0x3F))]
      else Inl (Thrown ''Unicode code point out of range in escape''))"

section \<open>unescapeString\<close>

definition simple_escapes :: "(char \<times> char) list" where
  "simple_escapes =
     [(CHR ''a'', CHR 0x07), (CHR ''b'', CHR 0x08), (CHR ''f'', CHR 0x0C), (CHR ''n'', CHR 0x0A), (CHR ''r'', CHR 0x0D),
      (CHR ''t'', CHR 0x09), (CHR ''v'', CHR 0x0B), (CHR 0x5C, CHR 0x5C), (CHR 0x27, CHR 0x27), (CHR 0x22, CHR 0x22),
      (CHR ''?'', CHR ''?'')]"

text \<open>One escape sequence: the bytes it stands for and what follows it. \<open>esc\<close> is the character after the
  backslash.\<close>

definition escape_sequence :: "char \<Rightarrow> string \<Rightarrow> (string \<times> string) outcome" where
  "escape_sequence e cs =
     (case map_of simple_escapes e of
        Some c \<Rightarrow> Inr ([c], cs)
      | None \<Rightarrow>
          if e = CHR ''x''
          then rbind (hex_run None 0 0 cs) (\<lambda>(v, digits, rest).
                 if digits = 0 then Inl (Thrown ''Invalid x escape'') else Inr ([byte_char v], rest))
          else if e = CHR ''u'' \<or> e = CHR ''U''
          then let maxlen = (if e = CHR ''u'' then 4 else 8)
               in rbind (hex_run (Some maxlen) 0 0 cs) (\<lambda>(v, digits, rest).
                    if digits \<noteq> maxlen then Inl (Thrown ''Invalid u or U escape'')
                    else rbind (utf8 v) (\<lambda>bytes. Inr (bytes, rest)))
          else if is_octal e
          then (let (v, rest) = octal_run (code_of e - 48) 1 cs in Inr ([byte_char v], rest))
          else Inr ([e], cs))"

lemma hex_run_length: "hex_run m v d cs = Inr (v', d', rest) \<Longrightarrow> length rest \<le> length cs"
  by (induction m v d cs arbitrary: v' d' rest rule: hex_run.induct) (auto simp: Let_def le_SucI split: if_splits)

lemma octal_run_length: "length (snd (octal_run v d cs)) \<le> length cs"
  by (induction v d cs rule: octal_run.induct) (auto simp: le_SucI)

lemma escape_sequence_length: "escape_sequence e cs = Inr (bytes, rest) \<Longrightarrow> length rest \<le> length cs"
  using hex_run_length octal_run_length [of "code_of e - 48" 1 cs]
  by (auto simp: escape_sequence_def Let_def split: option.splits if_splits prod.splits)

function unescape :: "token \<Rightarrow> string \<Rightarrow> string \<Rightarrow> (string \<times> bool) outcome" where
  "unescape t result [] = Inr (result, False)"
| "unescape t result (c # cs) =
     (if c \<noteq> CHR 0x5C then unescape t (result @ [c]) cs
      else case cs of
        [] \<Rightarrow> rbind (report_at t) (\<lambda>_. Inr ([], True))
      | e # rest \<Rightarrow>
          rbind (escape_sequence e rest) (\<lambda>(bytes, rest'). unescape t (result @ bytes) rest'))"
  by pat_completeness auto

termination
  by (relation "measure (\<lambda>(_, _, cs). length cs)") (auto dest!: escape_sequence_length)

declare unescape.simps [simp del]

definition unescapeString :: "string \<Rightarrow> token \<Rightarrow> (string \<times> bool) outcome" where
  "unescapeString src t = unescape t [] src"

section \<open>Every text has an escaped form\<close>

definition escape_char :: "char \<Rightarrow> string" where
  "escape_char c =
     (case map_of (map (\<lambda>(e, d). (d, e)) simple_escapes) c of Some e \<Rightarrow> [CHR 0x5C, e] | None \<Rightarrow> [c])"

lemma simple_escapes_inverse:
  "map_of (map (\<lambda>(e, d). (d, e)) simple_escapes) c = Some e \<Longrightarrow> map_of simple_escapes e = Some c"
proof -
  have "list_all (\<lambda>(e, d). map_of simple_escapes e = Some d) simple_escapes" by code_simp
  moreover assume "map_of (map (\<lambda>(e, d). (d, e)) simple_escapes) c = Some e"
  then have "(e, c) \<in> set simple_escapes" by (auto dest: map_of_SomeD)
  ultimately show ?thesis by (auto simp: list_all_iff)
qed

lemma unescape_escape_char:
  "unescape t result (escape_char c @ cs) = unescape t (result @ [c]) cs"
proof (cases "map_of (map (\<lambda>(e, d). (d, e)) simple_escapes) c")
  case None
  then have "c \<noteq> CHR 0x5C" by (auto simp: simple_escapes_def)
  then show ?thesis using None by (simp add: escape_char_def unescape.simps)
next
  case (Some e)
  then have "escape_sequence e cs = Inr ([c], cs)"
    using simple_escapes_inverse by (simp add: escape_sequence_def)
  then show ?thesis using Some by (simp add: escape_char_def unescape.simps)
qed


section \<open>Universal character names\<close>

text \<open>Reading UTF-8: the code point of a sequence of bytes.\<close>

definition trail :: "char \<Rightarrow> int" where
  "trail c = code_of c - 128"

fun utf8_value :: "string \<Rightarrow> int option" where
  "utf8_value [a] = (if code_of a < 128 then Some (code_of a) else None)"
| "utf8_value [a, b] = (if 192 \<le> code_of a \<and> code_of a < 224 then Some ((code_of a - 192) * 64 + trail b) else None)"
| "utf8_value [a, b, c] =
     (if 224 \<le> code_of a \<and> code_of a < 240 then Some ((code_of a - 224) * 4096 + trail b * 64 + trail c) else None)"
| "utf8_value [a, b, c, d] =
     (if 240 \<le> code_of a \<and> code_of a < 248
      then Some ((code_of a - 240) * 262144 + trail b * 4096 + trail c * 64 + trail d) else None)"
| "utf8_value _ = None"

lemma masks:
  "(v :: int) AND 0x1F = v mod 32" "(v :: int) AND 0x3F = v mod 64" "(v :: int) AND 0x0F = v mod 16" "(v :: int) AND 0x07 = v mod 8"
  using take_bit_eq_mask [of 5 v] take_bit_eq_mask [of 6 v] take_bit_eq_mask [of 4 v] take_bit_eq_mask [of 3 v]
  by (simp_all add: take_bit_eq_mod mask_numeral)

lemma marks:
  "0 \<le> x \<Longrightarrow> x < 64 \<Longrightarrow> 0x80 OR x = 0x80 + (x :: int)"
  "0 \<le> x \<Longrightarrow> x < 32 \<Longrightarrow> 0xC0 OR x = 0xC0 + (x :: int)"
  "0 \<le> x \<Longrightarrow> x < 16 \<Longrightarrow> 0xE0 OR x = 0xE0 + (x :: int)"
  "0 \<le> x \<Longrightarrow> x < 8 \<Longrightarrow> 0xF0 OR x = 0xF0 + (x :: int)"
proof -
  have "list_all (\<lambda>x. 0x80 OR x = 0x80 + x) [0..63]" "list_all (\<lambda>x. 0xC0 OR x = 0xC0 + x) [0..31]"
      "list_all (\<lambda>x. 0xE0 OR x = 0xE0 + x) [0..15]" "list_all (\<lambda>x. 0xF0 OR x = 0xF0 + x) [0..7 :: int]"
    by code_simp+
  then show "0 \<le> x \<Longrightarrow> x < 64 \<Longrightarrow> 0x80 OR x = 0x80 + (x :: int)"
    "0 \<le> x \<Longrightarrow> x < 32 \<Longrightarrow> 0xC0 OR x = 0xC0 + (x :: int)"
    "0 \<le> x \<Longrightarrow> x < 16 \<Longrightarrow> 0xE0 OR x = 0xE0 + (x :: int)"
    "0 \<le> x \<Longrightarrow> x < 8 \<Longrightarrow> 0xF0 OR x = 0xF0 + (x :: int)"
    unfolding list_all_iff set_upto by auto
qed

lemma utf8_value_parts:
  "0 \<le> a \<Longrightarrow> a < 32 \<Longrightarrow> 0 \<le> d \<Longrightarrow> d < 64 \<Longrightarrow>
     utf8_value [byte_char (0xC0 + a), byte_char (0x80 + d)] = Some (a * 64 + d)"
  "0 \<le> a \<Longrightarrow> a < 16 \<Longrightarrow> 0 \<le> c \<Longrightarrow> c < 64 \<Longrightarrow> 0 \<le> d \<Longrightarrow> d < 64 \<Longrightarrow>
     utf8_value [byte_char (0xE0 + a), byte_char (0x80 + c), byte_char (0x80 + d)] = Some (a * 4096 + c * 64 + d)"
  "0 \<le> a \<Longrightarrow> a < 8 \<Longrightarrow> 0 \<le> b \<Longrightarrow> b < 64 \<Longrightarrow> 0 \<le> c \<Longrightarrow> c < 64 \<Longrightarrow> 0 \<le> d \<Longrightarrow> d < 64 \<Longrightarrow>
     utf8_value [byte_char (0xF0 + a), byte_char (0x80 + b), byte_char (0x80 + c), byte_char (0x80 + d)]
       = Some (a * 262144 + b * 4096 + c * 64 + d)"
  by (simp_all add: trail_def)

lemma utf8_value_utf8:
  assumes "0 \<le> v" and "v \<le> 0x10FFFF"
  shows "\<exists>bytes. utf8 v = Inr bytes \<and> utf8_value bytes = Some v"
proof -
  have q: "v div 64 div 64 = v div 4096" "v div 4096 div 64 = v div 262144"
    using zdiv_zmult2_eq [of 64 v 64] zdiv_zmult2_eq [of 64 v 4096] by simp_all
  have r: "v div 64 * 64 + v mod 64 = v" "v div 4096 * 64 + v div 64 mod 64 = v div 64"
      "v div 262144 * 64 + v div 4096 mod 64 = v div 4096"
    using div_mult_mod_eq [of v 64] div_mult_mod_eq [of "v div 64" 64] div_mult_mod_eq [of "v div 4096" 64] unfolding q by blast+
  have m: "0 \<le> x mod 64" "x mod 64 < 64" for x :: int by simp_all
  consider "v \<le> 0x7F" | "0x7F < v" "v \<le> 0x7FF" | "0x7FF < v" "v \<le> 0xFFFF" | "0xFFFF < v" by linarith
  then show ?thesis
  proof cases
    case 1
    then show ?thesis using assms by (simp add: utf8_def)
  next
    case 2
    then have "v div 64 mod 32 = v div 64" "0 \<le> v div 64" "v div 64 < 32" by auto
    then show ?thesis using 2 by (simp add: utf8_def drop_bit_eq_div masks marks trail_def)
  next
    case 3
    then have b: "v div 4096 mod 16 = v div 4096" "0 \<le> v div 4096" "v div 4096 < 16" by auto
    have e: "v div 4096 * 4096 + v div 64 mod 64 * 64 + v mod 64 = v" using r by linarith
    have "utf8 v = Inr [byte_char (0xE0 + v div 4096), byte_char (0x80 + v div 64 mod 64), byte_char (0x80 + v mod 64)]"
      using 3 b by (simp add: utf8_def drop_bit_eq_div masks marks)
    then show ?thesis using utf8_value_parts(2) [OF b(2,3) m [of "v div 64"] m [of v], unfolded e] by blast
  next
    case 4
    then have b: "v div 262144 mod 8 = v div 262144" "0 \<le> v div 262144" "v div 262144 < 8" using assms by auto
    have e: "v div 262144 * 262144 + v div 4096 mod 64 * 4096 + v div 64 mod 64 * 64 + v mod 64 = v" using r by linarith
    have "utf8 v = Inr [byte_char (0xF0 + v div 262144), byte_char (0x80 + v div 4096 mod 64),
        byte_char (0x80 + v div 64 mod 64), byte_char (0x80 + v mod 64)]"
      using 4 assms b by (simp add: utf8_def drop_bit_eq_div masks marks)
    then show ?thesis using utf8_value_parts(3) [OF b(2,3) m [of "v div 4096"] m [of "v div 64"] m [of v], unfolded e] by blast
  qed
qed

lemma foldl_hex_mono: "0 \<le> v \<Longrightarrow> v \<le> foldl (\<lambda>v c. 16 * v + hex_val c) v hs"
proof (induction hs arbitrary: v)
  case (Cons c hs)
  have "v \<le> 16 * v + hex_val c" "0 \<le> 16 * v + hex_val c" using Cons.prems hex_val_range [of c] by simp_all
  then show ?case using Cons.IH by force
qed simp

lemma hex_run_digits:
  "list_all is_hex hs \<Longrightarrow> 0 \<le> v \<Longrightarrow> v < 2 ^ 31 \<Longrightarrow>
   hex_run (Some (digits + length hs)) v digits hs =
     (let w = foldl (\<lambda>v c. 16 * v + hex_val c) v hs
      in if w < 2 ^ 31 then Inr (w, digits + length hs, []) else Inl Undefined_Behaviour)"
proof (induction hs arbitrary: v digits)
  case (Cons c hs)
  have c: "hex_digit c = Some (hex_val c)" "list_all is_hex hs"
    using Cons.prems(1) by (auto simp: is_hex_def [of c] hex_val_def)
  let ?w = "16 * v + hex_val c"
  have w: "0 \<le> ?w" "16 * v \<le> ?w" using Cons.prems hex_val_range [of c] by simp_all
  show ?case
  proof (cases "?w < 2 ^ 31")
    case True
    then have "is_int32 (v * 16)" "is_int32 (v * 16 + hex_val c)"
      using w Cons.prems(2) by (auto simp: is_int32_def)
    moreover have "hex_run (Some (digits + 1 + length hs)) ?w (digits + 1) hs =
        (let w = foldl (\<lambda>v c. 16 * v + hex_val c) ?w hs
         in if w < 2 ^ 31 then Inr (w, digits + 1 + length hs, []) else Inl Undefined_Behaviour)"
      using Cons.IH c w True by blast
    ultimately show ?thesis using c by (simp add: mult.commute Let_def)
  next
    case False
    then have "\<not> is_int32 (v * 16 + hex_val c)" by (simp add: is_int32_def mult.commute)
    moreover have "\<not> foldl (\<lambda>v c. 16 * v + hex_val c) ?w hs < 2 ^ 31"
      using False foldl_hex_mono [OF w(1), of hs] by linarith
    ultimately show ?thesis using c by simp
  qed
qed simp



end
