(* ===== verification/Llvm_Types.thy ===== *)
theory Llvm_Types
  imports Overloads
begin

text \<open>
  Types of the source language and of LLVM (\<^verbatim>\<open>src/src/codegen.cpp\<close>: \<open>typeSigns\<close>, \<open>structType\<close>,
  \<open>getLLVMTypeFromString\<close>, \<open>getStringTypeFromLLVMType\<close>, \<open>getASTNodeTypeFromString\<close>,
  \<open>getStructTypeFromLLVMType\<close>). LLVM makes one object per type, so a type is a value here; pointers are
  opaque. Going from a name to a type and back loses the sign and what a pointer points to, and
  nothing else.
\<close>

section \<open>Types of LLVM\<close>

datatype lltype =
    Void_Ty | Int_Ty nat | Half_Ty | Float_Ty | Double_Ty | Pointer_Ty | Struct_Ty nat | Array_Ty nat lltype

definition isIntegerTy :: "lltype \<Rightarrow> bool" where
  "isIntegerTy t = (case t of Int_Ty _ \<Rightarrow> True | _ \<Rightarrow> False)"

definition isFloatingPointTy :: "lltype \<Rightarrow> bool" where
  "isFloatingPointTy t \<longleftrightarrow> t = Half_Ty \<or> t = Float_Ty \<or> t = Double_Ty"

definition isPointerTy :: "lltype \<Rightarrow> bool" where
  "isPointerTy t \<longleftrightarrow> t = Pointer_Ty"

definition isStructTy :: "lltype \<Rightarrow> bool" where
  "isStructTy t = (case t of Struct_Ty _ \<Rightarrow> True | _ \<Rightarrow> False)"

definition getPointerTo :: "lltype \<Rightarrow> lltype" where
  "getPointerTo t = Pointer_Ty"

section \<open>Signs\<close>

definition typeSigns_start :: "(string \<times> bool) list" where
  "typeSigns_start = [
     (''int128'', True), (''int64'', True), (''int32'', True), (''int'', True), (''int16'', True), (''int8'', True),
     (''uint128'', False), (''uint64'', False), (''uint32'', False), (''uint'', False), (''uint16'', False),
     (''uint8'', False), (''char'', False), (''uchar'', False), (''bool'', False), (''double'', False),
     (''float'', False), (''half'', False)]"

text \<open>\<open>typeSigns[s]\<close> enters \<open>false\<close> for a name that is missing.\<close>

definition sign_at :: "string \<Rightarrow> (string \<times> bool) list \<Rightarrow> bool \<times> (string \<times> bool) list" where
  "sign_at s signs = (case map_of signs s of Some b \<Rightarrow> (b, signs) | None \<Rightarrow> (False, (s, False) # signs))"

definition isSignedType :: "(string \<times> bool) list \<Rightarrow> string \<Rightarrow> bool" where
  "isSignedType signs typeStr \<longleftrightarrow> map_of signs typeStr = Some True"

section \<open>Struct definitions\<close>

text \<open>\<open>sourceNode\<close> is the node of the definition, \<open>structVal\<close> the type once it has been made, \<open>st_token\<close> the
  address of the token that names it.\<close>

record structType =
  st_name :: string
  members :: "argType list"
  memberNameIndexes :: "(string \<times> nat) list"
  st_uses :: "32 word"
  memberFunctions :: "nat list"
  structVal :: "nat option"
  st_token :: nat
  sourceNode :: "nat option"

definition structType_of :: "string \<Rightarrow> nat \<Rightarrow> nat option \<Rightarrow> argType list \<Rightarrow> nat list \<Rightarrow> (string \<times> nat) list \<Rightarrow> structType" where
  "structType_of n tP sT a mF mI =
     \<lparr>st_name = n, members = a, memberNameIndexes = mI, st_uses = 0, memberFunctions = mF, structVal = sT, st_token = tP, sourceNode = None\<rparr>"

definition structType_from_node :: "string \<Rightarrow> nat \<Rightarrow> nat \<Rightarrow> structType" where
  "structType_from_node n tP sN =
     \<lparr>st_name = n, members = [], memberNameIndexes = [], st_uses = 0, memberFunctions = [], structVal = None, st_token = tP, sourceNode = Some sN\<rparr>"

type_synonym struct_table = "(string \<times> structType) list"

text \<open>A null type equals the null \<open>structVal\<close> of a struct without a body.\<close>

definition type_of_struct :: "structType \<Rightarrow> lltype option" where
  "type_of_struct s = map_option Struct_Ty (structVal s)"

definition getStructTypeFromLLVMType :: "struct_table \<Rightarrow> lltype option \<Rightarrow> string option" where
  "getStructTypeFromLLVMType structDefinitions t =
     map_option fst (find (\<lambda>(key, value). type_of_struct value = t) structDefinitions)"

section \<open>From names to types\<close>

fun strip_stars :: "string \<Rightarrow> string \<times> nat" where
  "strip_stars [] = ([], 0)"
| "strip_stars (c # cs) = (if c = CHR ''*'' then (let (n, k) = strip_stars cs in (n, Suc k)) else (c # cs, 0))"

definition builtin_type :: "string \<Rightarrow> lltype option" where
  "builtin_type typeName =
     (if typeName \<in> {''int'', ''int32'', ''uint'', ''uint32''} then Some (Int_Ty 32)
      else if typeName \<in> {''int16'', ''uint16''} then Some (Int_Ty 16)
      else if typeName \<in> {''int8'', ''uint8'', ''uchar'', ''char''} then Some (Int_Ty 8)
      else if typeName \<in> {''int64'', ''uint64''} then Some (Int_Ty 64)
      else if typeName \<in> {''int128'', ''uint128''} then Some (Int_Ty 128)
      else if typeName = ''float'' then Some Float_Ty
      else if typeName = ''half'' then Some Half_Ty
      else if typeName = ''double'' then Some Double_Ty
      else if typeName = ''bool'' then Some (Int_Ty 1)
      else None)"

definition pointers_to :: "int \<Rightarrow> lltype \<Rightarrow> lltype" where
  "pointers_to levels t = (if levels \<le> 0 then t else Pointer_Ty)"

text \<open>
  What a lookup of a type name can come to. A struct without a body is generated by its node, unless it
  is the one being generated: that is an error, and the answer is null. A name that is not known at
  all is entered in \<open>unresolvedTypes\<close>, and the answer is null as well.
\<close>

datatype named_type = Type lltype | Generate nat | Null_Source | Nested_In_Self | Unresolved string

definition find_type :: "struct_table \<Rightarrow> string list \<Rightarrow> string \<Rightarrow> named_type" where
  "find_type structDefinitions currentStructName typeName =
     (case builtin_type typeName of
        Some t \<Rightarrow> Type t
      | None \<Rightarrow>
          (case map_of structDefinitions typeName of
             Some s \<Rightarrow>
               (case structVal s of
                  Some k \<Rightarrow> Type (Struct_Ty k)
                | None \<Rightarrow>
                    if currentStructName = [] \<or> hd currentStructName \<noteq> typeName
                    then (case sourceNode s of Some n \<Rightarrow> Generate n | None \<Rightarrow> Null_Source)
                    else Nested_In_Self)
           | None \<Rightarrow> Unresolved typeName))"

section \<open>From types to names\<close>

definition base_name :: "struct_table \<Rightarrow> lltype \<Rightarrow> string" where
  "base_name structDefinitions t =
     (if t = Int_Ty 1 then ''bool'' else if t = Int_Ty 8 then ''int8'' else if t = Int_Ty 16 then ''int16''
      else if t = Int_Ty 32 then ''int32'' else if t = Int_Ty 64 then ''int64'' else if t = Int_Ty 128 then ''int128''
      else if t = Float_Ty then ''float'' else if t = Double_Ty then ''double'' else if t = Half_Ty then ''half''
      else (case find (\<lambda>(key, value). type_of_struct value = Some t) structDefinitions of
              Some (key, value) \<Rightarrow> st_name value | None \<Rightarrow> ''unknown''))"

text \<open>The loop that counts pointers stops after one.\<close>

definition getStringTypeFromLLVMType :: "struct_table \<Rightarrow> lltype \<Rightarrow> string" where
  "getStringTypeFromLLVMType structDefinitions t =
     (if isPointerTy t then ''*'' else []) @ base_name structDefinitions t"

definition getASTNodeTypeFromString :: "string \<Rightarrow> ASTNodeType" where
  "getASTNodeTypeFromString typeName =
     (if typeName = ''int'' \<or> typeName = ''int32'' then SInt32_Type
      else if typeName = ''uint'' \<or> typeName = ''uint32'' then UInt32_Type
      else if typeName = ''int8'' then SInt8_Type else if typeName = ''uint8'' then UInt8_Type
      else if typeName = ''int16'' then SInt16_Type else if typeName = ''uint16'' then UInt16_Type
      else if typeName = ''int64'' then SInt64_Type else if typeName = ''uint64'' then UInt64_Type
      else if typeName = ''int128'' then SInt128_Type else if typeName = ''uint128'' then UInt128_Type
      else if typeName = ''char'' then Char_Type else if typeName = ''bool'' then Boolean_Node
      else if typeName = ''float'' then Float_Node else if typeName = ''double'' then Double_Type
      else if typeName = ''half'' then Half_Type else if typeName = ''string'' then String_Node
      else if typeName = ''type'' then Type_Node else Identifier_Node)"

section \<open>There and back\<close>

text \<open>A table of structs whose names are names of nothing else, each with its own type once it has one.\<close>

definition table_ok :: "struct_table \<Rightarrow> bool" where
  "table_ok sd \<longleftrightarrow> distinct (map fst sd) 
     \<and> list_all (\<lambda>(k, s). structVal s = None \<or> list_all (\<lambda>(k', s'). structVal s' = structVal s \<longrightarrow> k' = k) sd) sd
     \<and> list_all (\<lambda>(k, s). st_name s = k \<and> builtin_type k = None \<and> k \<noteq> [] \<and> hd k \<noteq> CHR ''*'') sd"

text \<open>The types the compiler gives to values: numbers, Booleans, and the structs of the table.\<close>

definition value_type :: "struct_table \<Rightarrow> lltype \<Rightarrow> bool" where
  "value_type sd t \<longleftrightarrow> t \<in> {Int_Ty 1, Int_Ty 8, Int_Ty 16, Int_Ty 32, Int_Ty 64, Int_Ty 128, Half_Ty, Float_Ty, Double_Ty}
     \<or> (\<exists>k s. (k, s) \<in> set sd \<and> type_of_struct s = Some t)"

lemma find_struct:
  assumes "table_ok sd" and "(k, s) \<in> set sd" and "type_of_struct s = Some t"
  shows "find (\<lambda>(key, value). type_of_struct value = Some t) sd = Some (k, s)"
proof -
  have inj: "(k', s') = (k, s)" if "(k', s') \<in> set sd" "type_of_struct s' = Some t" for k' s'
  proof -
    have "structVal s' = structVal s" "structVal s \<noteq> None" using that assms(3) by (auto simp: type_of_struct_def)
    then have "k' = k" using assms(1,2) that(1) by (auto simp: table_ok_def list_all_iff)
    then show ?thesis using assms(1,2) that(1) eq_key_imp_eq_value [of sd k s' s] by (simp add: table_ok_def)
  qed
  obtain k' s' where f: "find (\<lambda>(key, value). type_of_struct value = Some t) sd = Some (k', s')"
    using assms(2,3) by (cases "find (\<lambda>(key, value). type_of_struct value = Some t) sd") (auto simp: find_None_iff)
  then have "(k', s') \<in> set sd \<and> type_of_struct s' = Some t"
    by (auto simp: find_Some_iff) (metis nth_mem)
  then show ?thesis using f inj by blast
qed

lemma strip_stars_plain: "n = [] \<or> hd n \<noteq> CHR ''*'' \<Longrightarrow> strip_stars n = (n, 0)"
  by (cases n) auto

text \<open>The name of a value's type is found again in the table.\<close>

lemma find_type_of_name:
  assumes "table_ok sd" and "value_type sd t"
  shows "find_type sd cur (getStringTypeFromLLVMType sd t) = Type t" and "strip_stars (getStringTypeFromLLVMType sd t) = (getStringTypeFromLLVMType sd t, 0)"
proof -
  consider "t \<in> {Int_Ty 1, Int_Ty 8, Int_Ty 16, Int_Ty 32, Int_Ty 64, Int_Ty 128, Half_Ty, Float_Ty, Double_Ty}"
    | k s where "(k, s) \<in> set sd" "type_of_struct s = Some t"
    using assms(2) by (auto simp: value_type_def)
  then have "find_type sd cur (getStringTypeFromLLVMType sd t) = Type t
      \<and> strip_stars (getStringTypeFromLLVMType sd t) = (getStringTypeFromLLVMType sd t, 0)"
  proof cases
    case 1
    then show ?thesis
      by (auto simp: getStringTypeFromLLVMType_def base_name_def isPointerTy_def find_type_def builtin_type_def)
  next
    case 2
    then obtain v where v: "structVal s = Some v" "t = Struct_Ty v" by (auto simp: type_of_struct_def)
    have k: "st_name s = k" "builtin_type k = None" "hd k \<noteq> CHR ''*''" "map_of sd k = Some s"
      using assms(1) 2(1) by (auto simp: table_ok_def list_all_iff)
    then have "getStringTypeFromLLVMType sd t = k"
      using find_struct [OF assms(1) 2] v(2) by (simp add: getStringTypeFromLLVMType_def base_name_def isPointerTy_def)
    then show ?thesis using k v by (simp add: strip_stars_plain find_type_def)
  qed
  then show "find_type sd cur (getStringTypeFromLLVMType sd t) = Type t"
    "strip_stars (getStringTypeFromLLVMType sd t) = (getStringTypeFromLLVMType sd t, 0)" by auto
qed

text \<open>The name is the one of a signed type, and every pointer has the same name.\<close>

lemma unsigned_names_lost:
  "getASTNodeTypeFromString (getStringTypeFromLLVMType sd (the (builtin_type ''uint32''))) = SInt32_Type"
  "getStringTypeFromLLVMType sd Pointer_Ty =
     ''*'' @ (case find (\<lambda>(key, value). type_of_struct value = Some Pointer_Ty) sd of None \<Rightarrow> ''unknown'' | Some (k, s) \<Rightarrow> st_name s)"
  by (auto simp: builtin_type_def getStringTypeFromLLVMType_def base_name_def isPointerTy_def getASTNodeTypeFromString_def
      split: option.splits)

end
