(* ===== verification/Llvm_Values.thy ===== *)
theory Llvm_Values
  imports Llvm_Types
begin

text \<open>
  Conversions and operators on LLVM values (\<^verbatim>\<open>src/src/codegen.cpp\<close>: \<open>castValue\<close>,
  \<open>castToHighestAccuracy\<close>, the tables \<open>integerOps\<close> to \<open>floatCompareOps\<close>, \<open>getValueCategory\<close>,
  \<open>generateIntegerBinaryOp\<close>, \<open>generateFloatBinaryOp\<close>, \<open>generatePointerBinaryOp\<close>, and what
  \<open>generateBinaryExpression\<close> does once its operands are there). LLVM is the parameter \<open>llvm\<close>: the type
  of a value, and the builder, which makes an instruction (or folds it) and returns its value. What
  the compiler relies on is \<open>llvm_laws\<close>: a conversion has the type it converts to, an operation the
  type of its operands, a comparison the type \<open>i1\<close>.
\<close>

section \<open>The builder\<close>

datatype binary_op = Add | Sub | Mul | SDiv | SRem | And | Or | Xor | Shl | LShr | FAdd | FSub | FMul | FDiv

datatype predicate =
    ICMP_EQ | ICMP_NE | ICMP_SLT | ICMP_SLE | ICMP_SGT | ICMP_SGE
  | FCMP_OEQ | FCMP_ONE | FCMP_OLT | FCMP_OLE | FCMP_OGT | FCMP_OGE

datatype conversion =
    IntCast bool | SIToFP | UIToFP | FPToSI | FPToUI | FPCast | PointerCast | PtrToInt | IntToPtr | BitCast

text \<open>What the compiler asks of the builder: \<open>Entry_Alloca\<close> is an \<open>alloca\<close> at the beginning of the entry block of a
  function, the others go to the insertion point. Blocks and functions are named by numbers; a call names
  the type its function returns.\<close>

datatype 'v instruction =
    Convert conversion 'v lltype | Compare predicate 'v 'v | Binary binary_op 'v 'v
  | Alloca lltype string | Entry_Alloca fn_handle lltype string | Load lltype 'v | Store 'v 'v
  | GEP lltype 'v 'v | Struct_GEP nat 'v nat
  | Call fn_handle lltype "'v list" | Memcpy 'v 'v lltype | Memset 'v lltype
  | Ret "'v option" | Br nat | Cond_Br 'v nat nat

record ('v, 'm) llvm =
  getType :: "'v \<Rightarrow> lltype"
  build :: "'v instruction \<Rightarrow> 'm \<Rightarrow> 'v \<times> 'm"
  isBitOrNoopPointerCastable :: "lltype \<Rightarrow> lltype \<Rightarrow> bool"

definition llvm_laws :: "('v, 'm) llvm \<Rightarrow> bool" where
  "llvm_laws L \<longleftrightarrow>
     (\<forall>c v t m. getType L (fst (build L (Convert c v t) m)) = t)
     \<and> (\<forall>p v w m. getType L (fst (build L (Compare p v w) m)) = Int_Ty 1)
     \<and> (\<forall>b v w m. getType L v = getType L w \<longrightarrow> getType L (fst (build L (Binary b v w) m)) = getType L v)"

section \<open>Conversions\<close>

text \<open>The instruction for a conversion, if there is one.\<close>

definition conversion_for :: "('v, 'm) llvm \<Rightarrow> lltype \<Rightarrow> lltype \<Rightarrow> bool \<Rightarrow> bool \<Rightarrow> conversion option" where
  "conversion_for L srcType destType isSrcSigned isToSigned =
     (if isIntegerTy srcType \<and> isIntegerTy destType then Some (IntCast isSrcSigned)
      else if isIntegerTy srcType \<and> isFloatingPointTy destType then Some (if isSrcSigned then SIToFP else UIToFP)
      else if isFloatingPointTy srcType \<and> isIntegerTy destType then Some (if isToSigned then FPToSI else FPToUI)
      else if isFloatingPointTy srcType \<and> isFloatingPointTy destType then Some FPCast
      else if isPointerTy srcType \<and> isPointerTy destType then Some PointerCast
      else if isPointerTy srcType \<and> isIntegerTy destType then Some PtrToInt
      else if isIntegerTy srcType \<and> isPointerTy destType then Some IntToPtr
      else if isBitOrNoopPointerCastable L srcType destType then Some BitCast
      else None)"

text \<open>A null type compared with the source type is different, and asking it anything is undefined. Without
  a conversion the answer is null, after a report.\<close>

definition castValue ::
  "('v, 'm) llvm \<Rightarrow> 'v \<Rightarrow> lltype option \<Rightarrow> bool \<Rightarrow> bool \<Rightarrow> token \<Rightarrow> bool \<Rightarrow> 'm \<Rightarrow> ('v option \<times> 'm) outcome" where
  "castValue L v destType isSrcSigned isToSigned t destTypeIsStruct m =
     (if destTypeIsStruct then Inr (Some v, m)
      else case destType of
        None \<Rightarrow> Inl Undefined_Behaviour
      | Some dest \<Rightarrow>
          if getType L v = dest then Inr (Some v, m)
          else (case conversion_for L (getType L v) dest isSrcSigned isToSigned of
                  Some c \<Rightarrow> (let (w, m') = build L (Convert c v dest) m in Inr (Some w, m'))
                | None \<Rightarrow> rbind (report_at t) (\<lambda>_. Inr (None, m))))"

text \<open>The operands after \<open>castToHighestAccuracy\<close>, with the table of signs, \<open>wasError\<close> and the builder.\<close>

type_synonym ('v, 'm) operands = "'v option \<times> 'v option \<times> (string \<times> bool) list \<times> bool \<times> 'm"

definition right_to_left ::
  "('v, 'm) llvm \<Rightarrow> string \<Rightarrow> string \<Rightarrow> 'v \<Rightarrow> 'v \<Rightarrow> token \<Rightarrow> (string \<times> bool) list \<Rightarrow> 'm \<Rightarrow> ('v option \<times> (string \<times> bool) list \<times> 'm) outcome" where
  "right_to_left L lTyStr rTyStr l r t signs m =
     (let (ls, signs) = sign_at lTyStr signs; (rs, signs) = sign_at rTyStr signs
      in rbind (castValue L r (Some (getType L l)) ls rs t False m) (\<lambda>(r', m). Inr (r', signs, m)))"

definition castToHighestAccuracy ::
  "('v, 'm) llvm \<Rightarrow> struct_table \<Rightarrow> 'v \<Rightarrow> 'v \<Rightarrow> token \<Rightarrow> (string \<times> bool) list \<Rightarrow> 'm \<Rightarrow> ('v, 'm) operands outcome" where
  "castToHighestAccuracy L sd l r t signs m =
     (let lTyStr = getStringTypeFromLLVMType sd (getType L l); rTyStr = getStringTypeFromLLVMType sd (getType L r);
          LType = nodeOrd (getASTNodeTypeFromString lTyStr); RType = nodeOrd (getASTNodeTypeFromString rTyStr);
          cast_right = rbind (right_to_left L lTyStr rTyStr l r t signs m) (\<lambda>(r', signs, m). Inr (Some l, r', signs, False, m));
          cast_left = rbind (right_to_left L rTyStr lTyStr r l t signs m) (\<lambda>(l', signs, m). Inr (l', Some r, signs, False, m))
      in if LType < RType \<and> RType < nodeOrd Begin_Unsigned_Integers then cast_right
         else if RType < LType \<and> LType < nodeOrd Begin_Unsigned_Integers then cast_left
         else if LType < RType \<and> RType < nodeOrd Double_Type then cast_right
         else if RType < LType \<and> LType < nodeOrd Double_Type then cast_left
         else if LType < RType \<and> RType < nodeOrd Half_Type then cast_right
         else if RType < LType \<and> LType < nodeOrd Half_Type then cast_left
         else rbind (report_at t) (\<lambda>_. Inr (Some l, Some r, signs, True, m)))"

section \<open>Operators\<close>

definition integerOps :: "(ASTNodeType \<times> binary_op) list" where
  "integerOps = [(Expression_Plus, Add), (Expression_Minus, Sub), (Expression_Times, Mul), (Expression_Divide, SDiv),
     (Expression_Modulo, SRem), (Bitwise_And, And), (Bitwise_Or, Or), (Bitwise_Xor, Xor), (Bitwise_Shift_Left, Shl),
     (Bitwise_Shift_Right, LShr)]"

definition floatOps :: "(ASTNodeType \<times> binary_op) list" where
  "floatOps = [(Expression_Plus, FAdd), (Expression_Minus, FSub), (Expression_Times, FMul), (Expression_Divide, FDiv)]"

definition intCompareOps :: "(ASTNodeType \<times> predicate) list" where
  "intCompareOps = [(Compare_Equal, ICMP_EQ), (Compare_Not, ICMP_NE), (Compare_Less, ICMP_SLT),
     (Compare_LessEqual, ICMP_SLE), (Compare_Greater, ICMP_SGT), (Compare_GreaterEqual, ICMP_SGE)]"

definition floatCompareOps :: "(ASTNodeType \<times> predicate) list" where
  "floatCompareOps = [(Compare_Equal, FCMP_OEQ), (Compare_Not, FCMP_ONE), (Compare_Less, FCMP_OLT),
     (Compare_LessEqual, FCMP_OLE), (Compare_Greater, FCMP_OGT), (Compare_GreaterEqual, FCMP_OGE)]"

datatype ValueCategory = Category_Integer | Category_Float | Category_Pointer | Category_Unknown

definition getValueCategory :: "lltype \<Rightarrow> ValueCategory" where
  "getValueCategory t =
     (if isIntegerTy t then Category_Integer else if isFloatingPointTy t then Category_Float
      else if isPointerTy t then Category_Pointer else Category_Unknown)"

text \<open>A failed operation reports, and its value is null.\<close>

definition no_value :: "token \<Rightarrow> 'm \<Rightarrow> ('v option \<times> 'm) outcome" where
  "no_value t m = rbind (report_at t) (\<lambda>_. Inr (None, m))"

definition built :: "('v, 'm) llvm \<Rightarrow> 'v instruction \<Rightarrow> 'm \<Rightarrow> ('v option \<times> 'm) outcome" where
  "built L i m = (let (v, m') = build L i m in Inr (Some v, m'))"

definition generateIntegerBinaryOp ::
  "('v, 'm) llvm \<Rightarrow> ASTNodeType \<Rightarrow> token \<Rightarrow> 'v \<Rightarrow> 'v \<Rightarrow> 'm \<Rightarrow> ('v option \<times> 'm) outcome" where
  "generateIntegerBinaryOp L ty t l r m =
     (case map_of intCompareOps ty of
        Some p \<Rightarrow> built L (Compare p l r) m
      | None \<Rightarrow> (case map_of integerOps ty of Some b \<Rightarrow> built L (Binary b l r) m | None \<Rightarrow> no_value t m))"

definition generateFloatBinaryOp ::
  "('v, 'm) llvm \<Rightarrow> ASTNodeType \<Rightarrow> token \<Rightarrow> 'v \<Rightarrow> 'v \<Rightarrow> 'm \<Rightarrow> ('v option \<times> 'm) outcome" where
  "generateFloatBinaryOp L ty t l r m =
     (case map_of floatCompareOps ty of
        Some p \<Rightarrow> built L (Compare p l r) m
      | None \<Rightarrow> (case map_of floatOps ty of Some b \<Rightarrow> built L (Binary b l r) m | None \<Rightarrow> no_value t m))"

definition generatePointerBinaryOp :: "token \<Rightarrow> 'm \<Rightarrow> ('v option \<times> 'm) outcome" where
  "generatePointerBinaryOp t m = no_value t m"

text \<open>The switch over the category of the left operand.\<close>

definition binary_by_category ::
  "('v, 'm) llvm \<Rightarrow> ASTNodeType \<Rightarrow> token \<Rightarrow> 'v \<Rightarrow> 'v \<Rightarrow> 'm \<Rightarrow> ('v option \<times> 'm) outcome" where
  "binary_by_category L ty t l r m =
     (case getValueCategory (getType L l) of
        Category_Integer \<Rightarrow>
          if \<not> isIntegerTy (getType L l) \<or> \<not> isIntegerTy (getType L r) then no_value t m
          else generateIntegerBinaryOp L ty t l r m
      | Category_Float \<Rightarrow>
          if getType L l \<noteq> Float_Ty \<or> getType L r \<noteq> Float_Ty then no_value t m
          else generateFloatBinaryOp L ty t l r m
      | Category_Pointer \<Rightarrow> generatePointerBinaryOp t m
      | Category_Unknown \<Rightarrow> no_value t m)"

text \<open>From the two operand values on, without operator overloads. The warning about different types follows
  the pointers of the token as a report does.\<close>

definition binary_operation ::
  "('v, 'm) llvm \<Rightarrow> struct_table \<Rightarrow> ASTNodeType \<Rightarrow> token \<Rightarrow> 'v \<Rightarrow> 'v \<Rightarrow> (string \<times> bool) list \<Rightarrow> 'm \<Rightarrow>
   ('v option \<times> (string \<times> bool) list \<times> bool \<times> 'm) outcome" where
  "binary_operation L sd ty t l r signs m =
     (if getType L l \<noteq> getType L r
      then rbind (report_at t) (\<lambda>_.
           rbind (castToHighestAccuracy L sd l r t signs m) (\<lambda>(l', r', signs, err, m).
             case (l', r') of
               (Some l', Some r') \<Rightarrow>
                 if getType L l' \<noteq> getType L r' then rbind (no_value t m) (\<lambda>(v, m). Inr (v, signs, err, m))
                 else rbind (binary_by_category L ty t l' r' m) (\<lambda>(v, m). Inr (v, signs, err, m))
             | _ \<Rightarrow> Inl Undefined_Behaviour))
      else rbind (binary_by_category L ty t l r m) (\<lambda>(v, m). Inr (v, signs, False, m)))"

section \<open>Types of results\<close>

lemma castValue_type:
  assumes "llvm_laws L" and "castValue L v (Some dest) ss ts t b m = Inr (Some w, m')"
  shows "if b then w = v else getType L w = dest"
  using assms
  by (auto simp: castValue_def llvm_laws_def rbind_eq_Inr split: if_splits option.splits prod.splits) (metis fst_conv)+

definition numeric :: "lltype list" where
  "numeric = [Int_Ty 128, Int_Ty 64, Int_Ty 32, Int_Ty 16, Int_Ty 8, Int_Ty 1, Double_Ty, Float_Ty, Half_Ty]"

text \<open>The rank of a numeric type in the order of the enumeration, and the type two operands are brought to.\<close>

definition rank :: "lltype \<Rightarrow> nat" where
  "rank t = nodeOrd (getASTNodeTypeFromString (getStringTypeFromLLVMType [] t))"

definition common_type :: "lltype \<Rightarrow> lltype \<Rightarrow> lltype option" where
  "common_type a b =
     (if a = b then Some a else if a = Half_Ty \<or> b = Half_Ty then None else if rank a < rank b then Some a else Some b)"

definition is_comparison :: "ASTNodeType \<Rightarrow> bool" where
  "is_comparison ty \<longleftrightarrow> map_of intCompareOps ty \<noteq> None"

definition supported :: "ASTNodeType \<Rightarrow> lltype \<Rightarrow> bool" where
  "supported ty t \<longleftrightarrow> is_comparison ty
     \<and> (isIntegerTy t \<or> t = Float_Ty) \<or> (isIntegerTy t \<and> map_of integerOps ty \<noteq> None)
     \<or> (t = Float_Ty \<and> map_of floatOps ty \<noteq> None)"

lemma numeric_names:
  assumes "t \<in> set numeric"
  shows "getStringTypeFromLLVMType sd t = getStringTypeFromLLVMType [] t"
  using assms by (auto simp: numeric_def getStringTypeFromLLVMType_def base_name_def isPointerTy_def)

lemma rank_numeric:
  "rank (Int_Ty 128) = 3" "rank (Int_Ty 64) = 4" "rank (Int_Ty 32) = 5" "rank (Int_Ty 16) = 6" "rank (Int_Ty 8) = 7"
  "rank (Int_Ty 1) = 15" "rank Double_Ty = 16" "rank Float_Ty = 17" "rank Half_Ty = 18"
  by (simp_all add: rank_def getStringTypeFromLLVMType_def base_name_def isPointerTy_def getASTNodeTypeFromString_def)

lemma numeric_kind: "t \<in> set numeric \<Longrightarrow> isIntegerTy t \<or> isFloatingPointTy t"
  by (auto simp: numeric_def isIntegerTy_def isFloatingPointTy_def)

lemma numeric_conversion:
  "a \<in> set numeric \<Longrightarrow> b \<in> set numeric \<Longrightarrow> conversion_for L a b ss ts \<noteq> None"
  using numeric_kind [of a] numeric_kind [of b] by (simp add: conversion_for_def) blast

lemma castValue_numeric:
  assumes "llvm_laws L" and "getType L v \<in> set numeric" and "dest \<in> set numeric"
  shows "\<exists>w m'. castValue L v (Some dest) ss ts t False m = Inr (Some w, m') \<and> getType L w = dest"
proof -
  obtain c where c: "conversion_for L (getType L v) dest ss ts = Some c"
    using numeric_conversion [OF assms(2,3)] by blast
  obtain w m' where "castValue L v (Some dest) ss ts t False m = Inr (Some w, m')"
    using c by (cases "getType L v = dest"; cases "build L (Convert c v dest) m") (simp_all add: castValue_def)
  then show ?thesis using castValue_type [OF assms(1)] by fastforce
qed

lemma right_to_left_numeric:
  assumes "llvm_laws L" and "getType L l \<in> set numeric" and "getType L r \<in> set numeric"
  shows "\<exists>w signs' m'. right_to_left L a b l r t signs m = Inr (Some w, signs', m') \<and> getType L w = getType L l"
proof -
  obtain ls signs1 rs signs2 where s: "sign_at a signs = (ls, signs1)" "sign_at b signs1 = (rs, signs2)" by fastforce
  obtain w m' where "castValue L r (Some (getType L l)) ls rs t False m = Inr (Some w, m')" "getType L w = getType L l"
    using castValue_numeric [OF assms(1,3,2), of ls rs t m] by blast
  then show ?thesis by (simp add: right_to_left_def s)
qed

lemma rank_ASTNodeType: "t \<in> set numeric \<Longrightarrow> nodeOrd (getASTNodeTypeFromString (getStringTypeFromLLVMType sd t)) = rank t"
  using numeric_names [of t sd] by (simp add: rank_def)

lemma rank_inj: "a \<in> set numeric \<Longrightarrow> b \<in> set numeric \<Longrightarrow> rank a = rank b \<longleftrightarrow> a = b"
  by (auto simp: numeric_def rank_numeric rank_numeric [simplified])

lemma rank_half: "a \<in> set numeric \<Longrightarrow> rank a \<le> 18 \<and> (rank a = 18 \<longleftrightarrow> a = Half_Ty)"
  by (auto simp: numeric_def rank_numeric rank_numeric [simplified])

lemma castToHighestAccuracy_numeric:
  assumes "llvm_laws L" and "getType L l \<in> set numeric" and "getType L r \<in> set numeric"
    and "getType L l \<noteq> getType L r" and "report_at t = Inr ()"
  shows "case common_type (getType L l) (getType L r) of
      Some ty \<Rightarrow> \<exists>l' r' signs' m'. castToHighestAccuracy L sd l r t signs m = Inr (Some l', Some r', signs', False, m')
        \<and> getType L l' = ty \<and> getType L r' = ty
    | None \<Rightarrow> castToHighestAccuracy L sd l r t signs m = Inr (Some l, Some r, signs, True, m)"
proof -
  let ?a = "rank (getType L l)" and ?b = "rank (getType L r)"
  note k = rank_half [OF assms(2)] rank_half [OF assms(3)]
  have ne: "?a \<noteq> ?b" using rank_inj [OF assms(2,3)] assms(4) by simp
  have right: "\<exists>l' r' signs' m'. rbind (right_to_left L a b l r t signs m) (\<lambda>(r', signs, m). Inr (Some l, r', signs, False, m))
      = Inr (Some l', Some r', signs', False, m') \<and> getType L l' = getType L l \<and> getType L r' = getType L l" for a b
    using right_to_left_numeric [OF assms(1-3), of a b t signs m] by force
  have left: "\<exists>l' r' signs' m'. rbind (right_to_left L a b r l t signs m) (\<lambda>(l', signs, m). Inr (l', Some r, signs, False, m))
      = Inr (Some l', Some r', signs', False, m') \<and> getType L l' = getType L r \<and> getType L r' = getType L r" for a b
    using right_to_left_numeric [OF assms(1,3,2), of a b t signs m] by force
  consider "?a = 18 \<or> ?b = 18" | "?a < ?b" "?b < 18" | "?b < ?a" "?a < 18" using ne k by linarith
  then show ?thesis
  proof cases
    case 1
    then show ?thesis
      using k ne assms(4,5) by (auto simp: common_type_def castToHighestAccuracy_def Let_def rank_ASTNodeType assms(2,3))
  next
    case 2
    then show ?thesis
      using k assms(4) right
      by (auto simp: common_type_def castToHighestAccuracy_def Let_def rank_ASTNodeType assms(2,3))
  next
    case 3
    then show ?thesis
      using k assms(4) left
      by (auto simp: common_type_def castToHighestAccuracy_def Let_def rank_ASTNodeType assms(2,3))
  qed
qed

lemma compare_keys: "map_of floatCompareOps ty = None \<longleftrightarrow> map_of intCompareOps ty = None"
  by (simp add: floatCompareOps_def intCompareOps_def)

lemma comparisons_not_operations: "is_comparison ty \<Longrightarrow> map_of integerOps ty = None \<and> map_of floatOps ty = None"
  by (auto simp: is_comparison_def intCompareOps_def integerOps_def floatOps_def split: if_splits)

lemma no_value_eq: "report_at t = Inr () \<Longrightarrow> no_value t m = Inr (None, m)"
  by (simp add: no_value_def)

lemma built_eq: "built L i m = Inr (Some (fst (build L i m)), snd (build L i m))"
  by (simp add: built_def split_beta)

text \<open>One operation on operands of one numeric type: what the tables and the switch over categories give.\<close>

lemma binary_by_category_type:
  assumes L: "llvm_laws L" and l: "getType L l \<in> set numeric" and same: "getType L r = getType L l"
    and t: "report_at t = Inr ()"
  shows "\<exists>v m'. binary_by_category L ty t l r m = Inr (v, m') \<and>
    map_option (getType L) v =
      (if supported ty (getType L l) then Some (if is_comparison ty then Int_Ty 1 else getType L l) else None)"
proof -
  have compare: "getType L (fst (build L (Compare p l r) m)) = Int_Ty 1" for p using L by (simp add: llvm_laws_def)
  have binary: "getType L (fst (build L (Binary b l r) m)) = getType L l" for b using L same by (simp add: llvm_laws_def)
  note none = no_value_eq [OF t]
  consider "isIntegerTy (getType L l)" | "getType L l = Float_Ty"
    | "getType L l \<noteq> Float_Ty" "isFloatingPointTy (getType L l)" "\<not> isIntegerTy (getType L l)"
    using numeric_kind [OF l] by auto
  then show ?thesis
  proof cases
    case 1
    then have c: "getValueCategory (getType L l) = Category_Integer" "getType L l \<noteq> Float_Ty"
      by (auto simp: getValueCategory_def isIntegerTy_def)
    show ?thesis
      using 1 c same compare binary comparisons_not_operations [of ty]
      by (cases "map_of intCompareOps ty"; cases "map_of integerOps ty")
        (auto simp: binary_by_category_def generateIntegerBinaryOp_def supported_def is_comparison_def built_eq none)
  next
    case 2
    then have c: "getValueCategory (getType L l) = Category_Float" "\<not> isIntegerTy (getType L l)"
      by (auto simp: getValueCategory_def isIntegerTy_def isFloatingPointTy_def)
    show ?thesis
      using 2 c same compare binary comparisons_not_operations [of ty] compare_keys [of ty]
      by (cases "map_of floatCompareOps ty"; cases "map_of floatOps ty")
        (auto simp: binary_by_category_def generateFloatBinaryOp_def supported_def is_comparison_def built_eq none)
  next
    case 3
    then have "getValueCategory (getType L l) = Category_Float" by (simp add: getValueCategory_def)
    then show ?thesis using 3 same by (simp add: binary_by_category_def supported_def none)
  qed
qed

text \<open>C11. The type of a binary operation on two numeric operands, for a builder that keeps the laws and a token
  that can be reported: the operands are brought to the wider type of the order
  \<open>int128, int, int32, int16, int8, bool, double, float\<close> (an integer type beats a floating-point one, and
  \<open>half\<close> can be mixed with nothing). If the operation is supported at that type, the result is an \<open>i1\<close> for a
  comparison and a value of that type otherwise; if it is not, the value is null, and no instruction is
  left half done. \<open>wasError\<close> is set here exactly when there is no common type.\<close>

theorem binary_operation_type:
  assumes L: "llvm_laws L" and l: "getType L l \<in> set numeric" and r: "getType L r \<in> set numeric" and t: "report_at t = Inr ()"
  shows "\<exists>v signs' m'. binary_operation L sd ty t l r signs m =
      Inr (v, signs', common_type (getType L l) (getType L r) = None, m')
    \<and> map_option (getType L) v = (case common_type (getType L l) (getType L r) of
        None \<Rightarrow> None
      | Some c \<Rightarrow> if supported ty c then Some (if is_comparison ty then Int_Ty 1 else c) else None)"
proof (cases "getType L l = getType L r")
  case True
  then show ?thesis
    using binary_by_category_type [OF L l _ t, of r ty m] by (auto simp: binary_operation_def common_type_def)
next
  case ne: False
  note cast = castToHighestAccuracy_numeric [OF L l r ne t, of sd signs m]
  show ?thesis
  proof (cases "common_type (getType L l) (getType L r)")
    case None
    then show ?thesis using cast ne t by (simp add: binary_operation_def no_value_def)
  next
    case (Some c)
    then obtain l' r' signs' m' where c: "castToHighestAccuracy L sd l r t signs m = Inr (Some l', Some r', signs', False, m')"
        "getType L l' = c" "getType L r' = c"
      using cast by auto
    have "c \<in> set numeric" using Some l r by (auto simp: common_type_def split: if_splits)
    then show ?thesis
      using binary_by_category_type [OF L _ _ t, of l' r' ty m'] c Some ne t by (auto simp: binary_operation_def)
  qed
qed

text \<open>A builder that records its instructions: a value is its type and the number of the instruction that made it.\<close>

definition recorder :: "(lltype \<times> nat, (lltype \<times> nat) instruction list) llvm" where
  "recorder = \<lparr>getType = fst,
     build = (\<lambda>i log. ((case i of Convert c v t \<Rightarrow> t | Compare p v w \<Rightarrow> Int_Ty 1 | Binary b v w \<Rightarrow> fst v | _ \<Rightarrow> Void_Ty, length log), log @ [i])),
     isBitOrNoopPointerCastable = (\<lambda>a b. False)\<rparr>"

lemma recorder_laws: "llvm_laws recorder"
  by (simp add: llvm_laws_def recorder_def)

definition plus_sign :: token where
  "plus_sign = tokenDataType6 ''+'' Plus 1 0 (Str 0) (Str 0)"

lemma plus_sign_reported: "report_at plus_sign = Inr ()"
  by (simp add: report_at_def plus_sign_def tokenDataType6_def)

lemma binary_operation_type_witness:
  "\<exists>v signs' m'. binary_operation recorder [] Expression_Plus plus_sign (Int_Ty 32, 0) (Int_Ty 8, 1) typeSigns_start [] =
      Inr (v, signs', False, m') \<and> map_option fst v = Some (Int_Ty 32)"
proof -
  have "getType recorder = fst" by (simp add: recorder_def)
  then show ?thesis
    using binary_operation_type [OF recorder_laws, of "(Int_Ty 32, 0)" "(Int_Ty 8, 1)" plus_sign "[]" Expression_Plus typeSigns_start "[]"]
    by (simp add: numeric_def plus_sign_reported common_type_def rank_numeric supported_def is_comparison_def
        intCompareOps_def integerOps_def isIntegerTy_def)
qed

section \<open>What the order of the types does\<close>

text \<open>Two \<open>double\<close> operands: the category is the floating-point one, but the check asks for \<open>float\<close>, so every
  operator is refused.\<close>

lemma doubles_refused:
  assumes "llvm_laws L" and "getType L l = Double_Ty" and "getType L r = Double_Ty" and "report_at t = Inr ()"
  shows "\<exists>signs' m'. binary_operation L sd ty t l r signs m = Inr (None, signs', False, m')"
  using binary_by_category_type [OF assms(1) _ _ assms(4), of l r ty m] assms(2,3)
  by (auto simp: numeric_def supported_def isIntegerTy_def binary_operation_def)

text \<open>The signs reach \<open>castValue\<close> in the wrong order: a \<open>bool\<close> beside an \<open>int\<close> is extended as a signed value
  (true becomes \<open>-1\<close>), and a \<open>double\<close> beside an \<open>int\<close> is converted to an unsigned integer.\<close>

lemma bool_sign_extended:
  assumes "getType L l = Int_Ty 32" and "getType L r = Int_Ty 1" and "build L (Convert (IntCast True) r (Int_Ty 32)) m = (w, m')"
  shows "castToHighestAccuracy L sd l r t typeSigns_start m = Inr (Some l, Some w, typeSigns_start, False, m')"
  using assms rank_ASTNodeType [of "Int_Ty 32" sd] rank_ASTNodeType [of "Int_Ty 1" sd] numeric_names [of "Int_Ty 32" sd] numeric_names [of "Int_Ty 1" sd]
  by (simp add: Let_def castToHighestAccuracy_def right_to_left_def castValue_def conversion_for_def isIntegerTy_def numeric_def
      rank_numeric rank_numeric [simplified] sign_at_def typeSigns_start_def getStringTypeFromLLVMType_def base_name_def isPointerTy_def)

lemma double_to_unsigned:
  assumes "getType L l = Int_Ty 32" and "getType L r = Double_Ty" and "build L (Convert FPToUI r (Int_Ty 32)) m = (w, m')"
  shows "castToHighestAccuracy L sd l r t typeSigns_start m = Inr (Some l, Some w, typeSigns_start, False, m')"
  using assms rank_ASTNodeType [of "Int_Ty 32" sd] rank_ASTNodeType [of Double_Ty sd] numeric_names [of "Int_Ty 32" sd] numeric_names [of Double_Ty sd]
  by (simp add: Let_def castToHighestAccuracy_def right_to_left_def castValue_def conversion_for_def isIntegerTy_def isFloatingPointTy_def numeric_def
      rank_numeric sign_at_def typeSigns_start_def getStringTypeFromLLVMType_def base_name_def isPointerTy_def)

end
