(* ===== verification/Codegen_State.thy ===== *)
theory Codegen_State
  imports Llvm_Values Escapes
begin

text \<open>
  The state of the code generator (\<^verbatim>\<open>src/src/codegen.cpp\<close>) and the operations its methods are made of.
  \<^item> The tree is a store: nodes and tokens have addresses, since the methods write to nodes (\<open>lvalue\<close>,
    \<open>isRef\<close>, \<open>baseType\<close>, \<open>namedValues\<close>) and to a token that nodes may share.
  \<^item> The module under construction is what the compiler hands to LLVM: the functions and blocks it makes
    and, in order, the instructions it asks the builder for, each with the block at the insertion point.
    Constant folding is the builder's, and a parameter.
  \<^item> A method may stop the program or go wrong, so it is a function from a state to an outcome.
\<close>

section \<open>Values and the module\<close>

text \<open>A value carries its type; an \<open>alloca\<close> also the type it allocates. Instructions are numbered.\<close>

datatype llvalue =
    Instr nat lltype | Stack_Slot nat lltype | Const_Int nat int | Const_Double string | Const_String string
  | Argument fn_handle nat lltype | Function_Ptr fn_handle

fun type_of :: "llvalue \<Rightarrow> lltype" where
  "type_of (Instr n t) = t"
| "type_of (Stack_Slot n t) = Pointer_Ty"
| "type_of (Const_Int w i) = Int_Ty w"
| "type_of (Const_Double s) = Double_Ty"
| "type_of (Const_String s) = Pointer_Ty"
| "type_of (Argument f n t) = t"
| "type_of (Function_Ptr f) = Pointer_Ty"

record llfunction =
  linkName :: string
  retTy :: lltype
  paramTys :: "lltype list"
  paramNames :: "string list"
  isVarArg :: bool
  alwaysInline :: bool

record llblock =
  bb_name :: string
  bb_parent :: "fn_handle option"

record module_ir =
  emitted :: "(nat option \<times> llvalue instruction) list"
  insertBlock :: "nat option"
  blocks :: "llblock list"
  moduleFunctions :: "llfunction list"
  structBodies :: "(string \<times> lltype list) list"
  erasedFunctions :: "fn_handle list"

fun result_type :: "llvalue instruction \<Rightarrow> lltype" where
  "result_type (Convert c v t) = t"
| "result_type (Compare p v w) = Int_Ty 1"
| "result_type (Binary b v w) = type_of v"
| "result_type (Alloca t n) = Pointer_Ty"
| "result_type (Entry_Alloca f t n) = Pointer_Ty"
| "result_type (Load t v) = t"
| "result_type (GEP t v w) = Pointer_Ty"
| "result_type (Struct_GEP k v i) = Pointer_Ty"
| "result_type (Call f t vs) = t"
| "result_type _ = Void_Ty"

fun made :: "nat \<Rightarrow> llvalue instruction \<Rightarrow> llvalue" where
  "made n (Alloca t name) = Stack_Slot n t"
| "made n (Entry_Alloca f t name) = Stack_Slot n t"
| "made n i = Instr n (result_type i)"

lemma type_of_made [simp]: "type_of (made n i) = result_type i"
  by (cases i) auto

text \<open>Only operations without an effect are folded.\<close>

fun foldable :: "'v instruction \<Rightarrow> bool" where
  "foldable (Convert c v t) \<longleftrightarrow> True"
| "foldable (Compare p v w) \<longleftrightarrow> True"
| "foldable (Binary b v w) \<longleftrightarrow> True"
| "foldable (GEP t v w) \<longleftrightarrow> True"
| "foldable (Struct_GEP k v i) \<longleftrightarrow> True"
| "foldable _ \<longleftrightarrow> False"

text \<open>The builder is given by its folding and by the casts that are possible without a change of bits.\<close>

record folder =
  fold_instruction :: "llvalue instruction \<Rightarrow> llvalue option"
  castable :: "lltype \<Rightarrow> lltype \<Rightarrow> bool"

definition place :: "llvalue instruction \<Rightarrow> module_ir \<Rightarrow> llvalue \<times> module_ir" where
  "place i m = (made (length (emitted m)) i, m\<lparr>emitted := emitted m @ [(insertBlock m, i)]\<rparr>)"

definition ir_builder :: "folder \<Rightarrow> (llvalue, module_ir) llvm" where
  "ir_builder F = \<lparr>getType = type_of,
     build = (\<lambda>i m. case (if foldable i then fold_instruction F i else None) of Some v \<Rightarrow> (v, m) | None \<Rightarrow> place i m),
     isBitOrNoopPointerCastable = castable F\<rparr>"

definition folder_laws :: "folder \<Rightarrow> bool" where
  "folder_laws F \<longleftrightarrow> (\<forall>i v. fold_instruction F i = Some v \<longrightarrow> type_of v = result_type i)"

lemma ir_builder_laws: "folder_laws F \<Longrightarrow> llvm_laws (ir_builder F)"
  by (auto simp: llvm_laws_def ir_builder_def folder_laws_def place_def split: option.split)

section \<open>The state\<close>

text \<open>A variable: \<open>std::map\<close> of names, so the order of the list does not matter.\<close>

record valueType =
  vt_name :: string
  vt_type :: string
  vt_val :: llvalue

record gnode =
  g_parent :: "nat option"
  g_children :: "nat list"
  g_type :: ASTNodeType
  g_token :: nat
  g_depth :: nat
  g_isRef :: bool
  g_isExtern :: bool
  g_lvalue :: bool
  g_replaceable :: bool
  g_baseType :: "lltype option"
  g_namedValues :: "(string \<times> valueType) list"
  g_codegen :: codegen_method

record gstate =
  nodeStore :: "nat \<Rightarrow> gnode"
  tokenStore :: "nat \<Rightarrow> token"
  ir :: module_ir
  functionIDs :: "functionID list"
  structDefinitions :: struct_table
  currentStructName :: "string list"
  unresolvedTypes :: "string list"
  lastRetrievedElementType :: "lltype option list"
  pipeOperationValue :: "llvalue option list"
  typeSigns :: "(string \<times> bool) list"
  globalStrings :: "string list"
  isCallMemberFunction :: bool
  wasError :: bool
  diagnostics :: "token list"

section \<open>Methods as functions of the state\<close>

type_synonym 'a gen = "gstate \<Rightarrow> ('a \<times> gstate) outcome"

definition gret :: "'a \<Rightarrow> 'a gen" where
  "gret x s = Inr (x, s)"

definition gbind :: "'a gen \<Rightarrow> ('a \<Rightarrow> 'b gen) \<Rightarrow> 'b gen" where
  "gbind m f s = rbind (m s) (\<lambda>(x, s'). f x s')"

definition gfail :: "failure \<Rightarrow> 'a gen" where
  "gfail e s = Inl e"

definition gets :: "(gstate \<Rightarrow> 'a) \<Rightarrow> 'a gen" where
  "gets f s = Inr (f s, s)"

definition gmodify :: "(gstate \<Rightarrow> gstate) \<Rightarrow> unit gen" where
  "gmodify f s = Inr ((), f s)"

definition glift :: "'a outcome \<Rightarrow> 'a gen" where
  "glift m s = rbind m (\<lambda>x. Inr (x, s))"

abbreviation ub :: "'a gen" where
  "ub \<equiv> gfail Undefined_Behaviour"

text \<open>A pointer that is about to be followed.\<close>

definition follow :: "'a option \<Rightarrow> 'a gen" where
  "follow p = (case p of Some x \<Rightarrow> gret x | None \<Rightarrow> ub)"

text \<open>The elements of a vector in order.\<close>

fun gmap :: "('a \<Rightarrow> 'b gen) \<Rightarrow> 'a list \<Rightarrow> 'b list gen" where
  "gmap f [] = gret []"
| "gmap f (x # xs) = gbind (f x) (\<lambda>y. gbind (gmap f xs) (\<lambda>ys. gret (y # ys)))"

text \<open>A loop over the elements that the body may leave by a \<open>return\<close>: \<open>Some r\<close> returns \<open>r\<close> from the method.\<close>

fun gloop :: "('a \<Rightarrow> 'acc \<Rightarrow> ('acc + 'r) gen) \<Rightarrow> 'a list \<Rightarrow> 'acc \<Rightarrow> ('acc + 'r) gen" where
  "gloop f [] acc = gret (Inl acc)"
| "gloop f (x # xs) acc = gbind (f x acc) (\<lambda>r. case r of Inl acc' \<Rightarrow> gloop f xs acc' | Inr y \<Rightarrow> gret (Inr y))"

lemma gbind_gret [simp]: "gbind (gret x) f = f x"
  by (rule ext) (simp add: gbind_def gret_def)

lemma gbind_gfail [simp]: "gbind (gfail e) f = gfail e"
  by (rule ext) (simp add: gbind_def gfail_def)

lemma gbind_assoc: "gbind (gbind m f) g = gbind m (\<lambda>x. gbind (f x) g)"
  by (rule ext) (auto simp: gbind_def rbind_def split: sum.splits)

lemma gbind_Inr: "gbind m f s = Inr (y, s'') \<longleftrightarrow> (\<exists>x s'. m s = Inr (x, s') \<and> f x s' = Inr (y, s''))"
  by (auto simp: gbind_def rbind_eq_Inr)

section \<open>Results of methods\<close>

text \<open>A method returns a \<open>void*\<close>: null, a value (a function is one), or a type. What is used as a value
  must not be a type, and the other way round.\<close>

datatype gresult = Nullptr | Val llvalue | Ty lltype

definition as_value :: "gresult \<Rightarrow> llvalue option gen" where
  "as_value r = (case r of Nullptr \<Rightarrow> gret None | Val v \<Rightarrow> gret (Some v) | Ty t \<Rightarrow> ub)"

definition as_type :: "gresult \<Rightarrow> lltype option gen" where
  "as_type r = (case r of Nullptr \<Rightarrow> gret None | Val v \<Rightarrow> ub | Ty t \<Rightarrow> gret (Some t))"

definition of_value :: "llvalue option \<Rightarrow> gresult" where
  "of_value v = (case v of None \<Rightarrow> Nullptr | Some w \<Rightarrow> Val w)"

text \<open>The generation method of a node, run for a pass.\<close>

type_synonym generator = "nat \<Rightarrow> nat \<Rightarrow> gresult gen"

section \<open>Access to the tree\<close>

definition node :: "nat \<Rightarrow> gnode gen" where
  "node n = gets (\<lambda>s. nodeStore s n)"

definition set_node :: "nat \<Rightarrow> (gnode \<Rightarrow> gnode) \<Rightarrow> unit gen" where
  "set_node n f = gmodify (\<lambda>s. s\<lparr>nodeStore := (nodeStore s)(n := f (nodeStore s n))\<rparr>)"

definition token_at :: "nat \<Rightarrow> token gen" where
  "token_at n = gets (\<lambda>s. tokenStore s (g_token (nodeStore s n)))"

definition first_of :: "nat \<Rightarrow> string gen" where
  "first_of n = gets (\<lambda>s. tk_first (tokenStore s (g_token (nodeStore s n))))"

definition children :: "nat \<Rightarrow> nat list gen" where
  "children n = gets (\<lambda>s. g_children (nodeStore s n))"

text \<open>\<open>childNodes[i]\<close>.\<close>

definition child :: "nat \<Rightarrow> nat \<Rightarrow> nat gen" where
  "child n i = gbind (children n) (\<lambda>cs. if i < length cs then gret (cs ! i) else ub)"

section \<open>Errors\<close>

text \<open>\<open>printTokenError\<close> on a node's token. The state
  keeps the tokens that were reported; the text of a message stands at the call.\<close>

definition reported :: "token \<Rightarrow> unit gen" where
  "reported t = gmodify (\<lambda>s. s\<lparr>diagnostics := diagnostics s @ [t]\<rparr>)"

definition report :: "nat \<Rightarrow> string \<Rightarrow> unit gen" where
  "report n msg =
     gbind (token_at n) (\<lambda>t. gbind (glift (report_at t)) (\<lambda>_. reported t))"

text \<open>A report followed by \<open>wasError = true\<close>.\<close>

definition error_at :: "token \<Rightarrow> unit gen" where
  "error_at t = gbind (reported t) (\<lambda>_. gmodify (\<lambda>s. s\<lparr>wasError := True\<rparr>))"

definition report_error :: "nat \<Rightarrow> string \<Rightarrow> unit gen" where
  "report_error n msg = gbind (token_at n) (\<lambda>t. gbind (glift (report_at t)) (\<lambda>_. error_at t))"

definition failed :: "nat \<Rightarrow> string \<Rightarrow> gresult gen" where
  "failed n msg = gbind (report_error n msg) (\<lambda>_. gret Nullptr)"

definition exit_on_error :: "unit gen" where
  "exit_on_error = gbind (gets wasError) (\<lambda>b. if b then gfail (Exited []) else gret ())"

text \<open>Calling the method of a node: a null method pointer cannot be called. Most callers test \<open>wasError\<close>
  right after, and some test the pointer first.\<close>

definition call_node :: "generator \<Rightarrow> nat \<Rightarrow> nat \<Rightarrow> gresult gen" where
  "call_node rec n pass = gbind (node n) (\<lambda>c. if g_codegen c = No_Codegen then ub else rec n pass)"

definition value_node :: "generator \<Rightarrow> nat \<Rightarrow> nat \<Rightarrow> llvalue option gen" where
  "value_node rec n pass = gbind (call_node rec n pass) as_value"

definition checked_value :: "generator \<Rightarrow> nat \<Rightarrow> nat \<Rightarrow> llvalue option gen" where
  "checked_value rec n pass = gbind (value_node rec n pass) (\<lambda>v. gbind exit_on_error (\<lambda>_. gret v))"

definition no_generator :: "nat \<Rightarrow> nat \<Rightarrow> gresult gen" where
  "no_generator at n =
     gbind (node n) (\<lambda>c. failed at (''Node `'' @ ASTNodeTypeAsString (g_type c) @ ''` does not have a code generator''))"

definition has_generator :: "nat \<Rightarrow> bool gen" where
  "has_generator n = gbind (node n) (\<lambda>c. gret (g_codegen c \<noteq> No_Codegen))"

section \<open>The builder\<close>

definition emit :: "folder \<Rightarrow> llvalue instruction \<Rightarrow> llvalue gen" where
  "emit F i s = (let (v, m) = build (ir_builder F) i (ir s) in Inr (v, s\<lparr>ir := m\<rparr>))"

definition emits :: "folder \<Rightarrow> llvalue instruction \<Rightarrow> unit gen" where
  "emits F i = gbind (emit F i) (\<lambda>_. gret ())"

text \<open>\<open>Builder->GetInsertBlock()->getParent()\<close>.\<close>

definition current_function :: "fn_handle option gen" where
  "current_function =
     gbind (gets (insertBlock \<circ> ir)) (\<lambda>b. gbind (follow b) (\<lambda>b. gets (\<lambda>s. bb_parent (blocks (ir s) ! b))))"

definition create_block :: "string \<Rightarrow> fn_handle option \<Rightarrow> nat gen" where
  "create_block name f =
     gbind (gets (\<lambda>s. length (blocks (ir s)))) (\<lambda>b.
     gbind (gmodify (\<lambda>s. s\<lparr>ir := (ir s)\<lparr>blocks := blocks (ir s) @ [\<lparr>bb_name = name, bb_parent = f\<rparr>]\<rparr>\<rparr>)) (\<lambda>_. gret b))"

definition set_insert_point :: "nat \<Rightarrow> unit gen" where
  "set_insert_point b = gmodify (\<lambda>s. s\<lparr>ir := (ir s)\<lparr>insertBlock := Some b\<rparr>\<rparr>)"

text \<open>\<open>TheFunction->insert(TheFunction->end(), BB)\<close>.\<close>

definition insert_block :: "fn_handle option \<Rightarrow> nat \<Rightarrow> unit gen" where
  "insert_block f b =
     gbind (follow f) (\<lambda>f. gmodify (\<lambda>s. s\<lparr>ir := (ir s)\<lparr>blocks := (blocks (ir s))[b := (blocks (ir s) ! b)\<lparr>bb_parent := Some f\<rparr>]\<rparr>\<rparr>))"

text \<open>\<open>CreateEntryBlockAlloca\<close> needs a function and a type.\<close>

definition CreateEntryBlockAlloca :: "folder \<Rightarrow> fn_handle option \<Rightarrow> lltype option \<Rightarrow> string \<Rightarrow> llvalue gen" where
  "CreateEntryBlockAlloca F f t name =
     gbind (follow f) (\<lambda>f. gbind (follow t) (\<lambda>t. emit F (Entry_Alloca f t name)))"

text \<open>\<open>((AllocaInst*)v)->getAllocatedType()\<close>: on a value that is no \<open>alloca\<close> (a reference parameter) the
  cast is wrong.\<close>

definition allocated_type :: "llvalue \<Rightarrow> lltype gen" where
  "allocated_type v = (case v of Stack_Slot n t \<Rightarrow> gret t | _ \<Rightarrow> ub)"

section \<open>Lookups\<close>

text \<open>\<open>findNamedValue\<close>. The bound on the climb is the depth of the node it starts from.\<close>

fun named_in :: "nat list \<Rightarrow> nat option \<Rightarrow> string \<Rightarrow> valueType option gen" where
  "named_in [] childNode identifier = gret None"
| "named_in (c # cs) childNode identifier =
     (if Some c = childNode then gret None
      else gbind (node c) (\<lambda>cn.
        case map_of (g_namedValues cn) identifier of
          Some v \<Rightarrow> gret (Some v)
        | None \<Rightarrow> named_in cs childNode identifier))"

fun find_up :: "nat \<Rightarrow> nat option \<Rightarrow> nat option \<Rightarrow> string \<Rightarrow> valueType option gen" where
  "find_up 0 n childNode identifier = gfail Out_Of_Fuel"
| "find_up (Suc k) n childNode identifier =
     gbind (follow n) (\<lambda>n. gbind (node n) (\<lambda>nd.
       case map_of (g_namedValues nd) identifier of
         Some v \<Rightarrow> gret (Some v)
       | None \<Rightarrow>
           if g_depth nd = 0 then gret None
           else gbind (named_in (g_children nd) childNode identifier) (\<lambda>r.
             case r of Some v \<Rightarrow> gret (Some v) | None \<Rightarrow> find_up k (g_parent nd) (Some n) identifier)))"

definition findNamedValue :: "nat option \<Rightarrow> nat option \<Rightarrow> string \<Rightarrow> valueType option gen" where
  "findNamedValue n childNode identifier =
     gbind (follow n) (\<lambda>m. gbind (node m) (\<lambda>nd. find_up (Suc (g_depth nd)) n childNode identifier))"

definition set_named_value :: "nat \<Rightarrow> string \<Rightarrow> valueType \<Rightarrow> unit gen" where
  "set_named_value n name v = set_node n (\<lambda>nd. nd\<lparr>g_namedValues := (name, v) # g_namedValues nd\<rparr>)"

text \<open>
  \<open>getLLVMTypeFromString\<close>: the type, null when the name is unknown, and \<open>wasDefined\<close>. A struct that has
  no type yet is generated by its node; after that an error ends the program.
\<close>

definition getLLVMTypeFromString :: "generator \<Rightarrow> string \<Rightarrow> int \<Rightarrow> nat \<Rightarrow> nat \<Rightarrow> (lltype option \<times> bool) gen" where
  "getLLVMTypeFromString rec typeName pointerLevelOffset at pass =
     (let (n, stars) = strip_stars typeName; levels = int (stars mod 2 ^ 16) + pointerLevelOffset;
          pointers = (\<lambda>aType. if levels \<le> 0 then gret (aType, True)
            else gbind (follow aType) (\<lambda>ty. gret (Some (pointers_to levels ty), True)))
      in gbind (gets (\<lambda>s. find_type (structDefinitions s) (currentStructName s) n)) (\<lambda>found.
           case found of
             Type ty \<Rightarrow> pointers (Some ty)
           | Generate k \<Rightarrow>
               gbind (call_node rec k pass) (\<lambda>r. gbind exit_on_error (\<lambda>_. gbind (as_type r) pointers))
           | Null_Source \<Rightarrow> ub
           | Nested_In_Self \<Rightarrow>
               gbind (report_error at ''Cannot nest struct in self'') (\<lambda>_. gret (None, False))
           | Unresolved name \<Rightarrow>
               gbind (gmodify (\<lambda>s. s\<lparr>unresolvedTypes := name # unresolvedTypes s\<rparr>)) (\<lambda>_. gret (None, False))))"

text \<open>\<open>getPointerTo\<close>, a number of times, on a type that may be null.\<close>

definition pointer_levels :: "nat \<Rightarrow> lltype option \<Rightarrow> lltype option gen" where
  "pointer_levels k t = (if k = 0 then gret t else gbind (follow t) (\<lambda>_. gret (Some Pointer_Ty)))"

text \<open>\<open>typeSigns[name]\<close>.\<close>

definition sign_of :: "string \<Rightarrow> bool gen" where
  "sign_of name =
     gbind (gets (sign_at name \<circ> typeSigns)) (\<lambda>(b, signs). gbind (gmodify (\<lambda>s. s\<lparr>typeSigns := signs\<rparr>)) (\<lambda>_. gret b))"

definition type_string :: "lltype \<Rightarrow> string gen" where
  "type_string t = gets (\<lambda>s. getStringTypeFromLLVMType (structDefinitions s) t)"

text \<open>\<open>castValue\<close> reports at a token, here the one of a node.\<close>

definition cast_value :: "folder \<Rightarrow> llvalue \<Rightarrow> lltype option \<Rightarrow> bool \<Rightarrow> bool \<Rightarrow> nat \<Rightarrow> bool \<Rightarrow> llvalue option gen" where
  "cast_value F v destType isSrcSigned isToSigned at destTypeIsStruct =
     gbind (token_at at) (\<lambda>t s.
       rbind (castValue (ir_builder F) v destType isSrcSigned isToSigned t destTypeIsStruct (ir s)) (\<lambda>(w, m).
         let s = s\<lparr>ir := m\<rparr>
         in Inr (w, if w = None then s\<lparr>diagnostics := diagnostics s @ [t]\<rparr> else s)))"

text \<open>The lookups of functions print a report and set \<open>wasError\<close> when a match would have to be exact. The
  result is the index of the function.\<close>

definition resolved :: "nat \<Rightarrow> lookup \<Rightarrow> nat option gen" where
  "resolved at r =
     (case r of
        Found i \<Rightarrow> gret (Some i)
      | Needs_Exact \<Rightarrow>
          gbind (report_error at (''Function match not found, closest prototype requires exact types.'' @ [CHR 0x0A] @ ''Did you try casting?''))
            (\<lambda>_. gret None)
      | Not_Found \<Rightarrow> gret None)"

definition function_id :: "nat \<Rightarrow> functionID gen" where
  "function_id i = gets (\<lambda>s. functionIDs s ! i)"

definition function_of :: "functionID \<Rightarrow> fn_handle gen" where
  "function_of f = follow (fnValue f)"

definition use_function :: "nat \<Rightarrow> unit gen" where
  "use_function i = gmodify (\<lambda>s. s\<lparr>functionIDs := (functionIDs s)[i := (functionIDs s ! i)\<lparr>uses := uses (functionIDs s ! i) + 1\<rparr>]\<rparr>)"

definition function_info :: "fn_handle \<Rightarrow> llfunction gen" where
  "function_info f = gets (\<lambda>s. moduleFunctions (ir s) ! f)"

section \<open>Names of types, there and back\<close>


definition sample_state :: gstate where
  "sample_state =
     \<lparr>nodeStore = (\<lambda>_. \<lparr>g_parent = None, g_children = [], g_type = Nothing_Node, g_token = 0, g_depth = 0, g_isRef = False, g_isExtern = False,
        g_lvalue = False, g_replaceable = False, g_baseType = None, g_namedValues = [], g_codegen = No_Codegen\<rparr>),
      tokenStore = (\<lambda>_. tokenDataType0),
      ir = \<lparr>emitted = [], insertBlock = None, blocks = [], moduleFunctions = [], structBodies = [], erasedFunctions = []\<rparr>,
      functionIDs = [], structDefinitions = [(''vec'', structType_of ''vec'' 0 (Some 7) [] [] [])], currentStructName = [],
      unresolvedTypes = [], lastRetrievedElementType = [], pipeOperationValue = [], typeSigns = typeSigns_start, globalStrings = [],
      isCallMemberFunction = False, wasError = False, diagnostics = []\<rparr>"


end
