(* ===== verification/Codegen_Expressions.thy ===== *)
theory Codegen_Expressions
  imports Codegen_State
begin

text \<open>
  The generation methods of expressions (\<^verbatim>\<open>src/src/codegen.cpp\<close>): constants, variables, unary and binary
  operations, pipes, element and member access, casts, instances and calls. Each takes the builder, a
  bound for the chains of \<open>*\<close> in a type, the method table (to call the methods of other nodes), the node and
  the pass. A method returns null after a report, or stops the program.
\<close>

section \<open>Constants\<close>

text \<open>\<open>substr(1, size() - 2)\<close> of a literal with its quotes: the length wraps around for one character.\<close>

definition without_quotes :: "string \<Rightarrow> string outcome" where
  "without_quotes s =
     (if s = [] then Inl (Thrown ''out_of_range'')
      else Inr (if length s = 1 then [] else take (length s - 2) (drop 1 s)))"

definition unescaped :: "nat \<Rightarrow> string gen" where
  "unescaped n =
     gbind (token_at n) (\<lambda>t. gbind (glift (without_quotes (tk_first t))) (\<lambda>s. gbind (glift (unescapeString s t)) (\<lambda>(v, err).
       if err
       then gbind (error_at t) (\<lambda>_. gret v)
       else gret v)))"

text \<open>The value of an \<open>unescaped\<close> character literal is a signed byte. The parameter \<open>stod\<close> is the standard
  library's: it throws on a text that is no number.\<close>

definition generateConstant_run :: "(string \<Rightarrow> unit outcome) \<Rightarrow> nat \<Rightarrow> gresult gen" where
  "generateConstant_run stod n =
     gbind (node n) (\<lambda>nd. gbind (first_of n) (\<lambda>text.
       if g_type nd = Integer_Node then gbind (glift (stoi text)) (\<lambda>i. gret (Val (Const_Int 32 i)))
       else if g_type nd = Boolean_Node then gret (Val (Const_Int 1 (if text = ''true'' then 1 else 0)))
       else if g_type nd = Float_Node then gbind (glift (stod text)) (\<lambda>_. gret (Val (Const_Double text)))
       else if g_type nd = String_Constant_Node
       then gbind (unescaped n) (\<lambda>v.
            gbind (gmodify (\<lambda>s. s\<lparr>globalStrings := (if v \<in> set (globalStrings s) then globalStrings s else globalStrings s @ [v])\<rparr>)) (\<lambda>_.
            gret (Val (Const_String v))))
       else if g_type nd = Character_Constant_Node
       then gbind (unescaped n) (\<lambda>v.
            if length v > 1 then failed n ''Character constant may contain only a single character''
            else gret (Val (Const_Int 8 (case v of [] \<Rightarrow> 0 | c # _ \<Rightarrow> signed_byte (code_of c)))))
       else failed n ''Value could not be parsed as constant''))"

section \<open>Variables\<close>

text \<open>The loop over \<open>*\<close> in a type: the node after them and their number.\<close>

fun pointed_type :: "nat \<Rightarrow> nat \<Rightarrow> nat \<Rightarrow> (nat \<times> nat) gen" where
  "pointed_type 0 n level = gfail Out_Of_Fuel"
| "pointed_type (Suc k) n level =
     gbind (first_of n) (\<lambda>f. if f = ''*'' then gbind (child n 0) (\<lambda>c. pointed_type k c (level + 1)) else gret (n, level))"

text \<open>What an initial value of a declared type is cast by: a builtin type by its sign, a struct not at all.
  The third case is an unknown type.\<close>

definition cast_to_declared ::
  "folder \<Rightarrow> string \<Rightarrow> string \<Rightarrow> llvalue \<Rightarrow> lltype option \<Rightarrow> nat \<Rightarrow> llvalue option option gen" where
  "cast_to_declared F typeName signName v ty at =
     gbind (gets (\<lambda>s. (map_of (typeSigns s) typeName \<noteq> None, map_of (structDefinitions s) typeName \<noteq> None))) (\<lambda>(builtin, struct).
       if builtin then gbind (sign_of signName) (\<lambda>b. gbind (cast_value F v ty True b at False) (\<lambda>w. gret (Some w)))
       else if struct then gbind (cast_value F v ty True False at True) (\<lambda>w. gret (Some w))
       else gret None)"

definition stars :: "nat \<Rightarrow> string" where
  "stars k = replicate k (CHR ''*'')"

text \<open>A variable that is not found is declared, if it has a type. The name that is looked up is the one of
  the first type node, also when that is a \<open>*\<close>.\<close>

definition declare_variable :: "folder \<Rightarrow> nat \<Rightarrow> generator \<Rightarrow> nat \<Rightarrow> nat \<Rightarrow> gresult gen" where
  "declare_variable F k rec n pass =
     gbind current_function (\<lambda>f. gbind (children n) (\<lambda>cs.
     if cs = [] then failed n ''Undefined variable name''
     else
       gbind (child n 0) (\<lambda>tn. gbind (first_of tn) (\<lambda>typeName.
       gbind (pointed_type k tn 0) (\<lambda>(typeNode, level0).
       let level = level0 mod 2 ^ 16 in
       gbind (getLLVMTypeFromString rec typeName 0 typeNode pass) (\<lambda>(ty0, _).
       gbind (pointer_levels level ty0) (\<lambda>ty.
       gbind (first_of typeNode) (\<lambda>signName.
       gbind (cast_to_declared F typeName signName (Const_Int 32 0) ty n) (\<lambda>cast.
       case cast of
         None \<Rightarrow> failed n ''Unknown type''
       | Some exprVal \<Rightarrow>
           gbind (first_of n) (\<lambda>name.
           gbind (set_node n (\<lambda>nd. nd\<lparr>g_baseType := ty\<rparr>)) (\<lambda>_.
           gbind (CreateEntryBlockAlloca F f ty name) (\<lambda>targetPtr.
           gbind (set_named_value n name \<lparr>vt_name = name, vt_type = stars level @ typeName, vt_val = targetPtr\<rparr>) (\<lambda>_.
           gbind (follow exprVal) (\<lambda>v. gbind (emits F (Store v targetPtr)) (\<lambda>_.
           gbind (node n) (\<lambda>nd.
             if g_isRef nd \<or> g_lvalue nd then gret (Val targetPtr)
             else gbind (allocated_type targetPtr) (\<lambda>t. gbind (emit F (Load t targetPtr)) (\<lambda>w. gret (Val w)))))))))))))))))))"

definition generateVariableExpression_run :: "folder \<Rightarrow> nat \<Rightarrow> generator \<Rightarrow> nat \<Rightarrow> nat \<Rightarrow> gresult gen" where
  "generateVariableExpression_run F k rec n pass =
     gbind (node n) (\<lambda>nd. gbind (first_of n) (\<lambda>name.
     gbind (findNamedValue (g_parent nd) (Some n) name) (\<lambda>val.
     case val of
       None \<Rightarrow> declare_variable F k rec n pass
     | Some v \<Rightarrow>
         gbind (set_node n (\<lambda>nd. nd\<lparr>g_baseType := Some (type_of (vt_val v))\<rparr>)) (\<lambda>_.
           if g_isRef nd \<or> g_lvalue nd then gret (Val (vt_val v))
           else gbind (allocated_type (vt_val v)) (\<lambda>t. gbind (emit F (Load t (vt_val v))) (\<lambda>w. gret (Val w)))))))"

section \<open>Unary and binary operations\<close>

definition generateUnaryExpression_run :: "folder \<Rightarrow> generator \<Rightarrow> nat \<Rightarrow> nat \<Rightarrow> gresult gen" where
  "generateUnaryExpression_run F rec n pass =
     gbind (children n) (\<lambda>cs.
     if cs = [] then failed n ''Unary expression reqires an argument''
     else gbind (child n 0) (\<lambda>c. gbind (has_generator c) (\<lambda>g.
       if \<not> g then no_generator c c
       else gbind (checked_value rec c pass) (\<lambda>R.
         if R = None then gret Nullptr
         else gbind (node n) (\<lambda>nd.
           if g_type nd = Address_Of_Operation
           then gbind (first_of c) (\<lambda>name. gbind (findNamedValue (g_parent nd) (Some n) name) (\<lambda>val.
                  case val of
                    None \<Rightarrow> failed n ''Unknown variable name for address-of''
                  | Some v \<Rightarrow> gret (Val (vt_val v))))
           else if g_type nd = Dereference_Operation
           then gbind (checked_value rec c pass) (\<lambda>ptrVal.
                  case ptrVal of
                    None \<Rightarrow> failed n ''Dereference of null pointer''
                  | Some p \<Rightarrow> gbind (emit F (Load (Int_Ty 32) p)) (\<lambda>w. gret (Val w)))
           else failed n ''Unknown or undefined operator'')))))"

definition operator_name :: "nat \<Rightarrow> string gen" where
  "operator_name n = gbind (token_at n) (\<lambda>t. gret (''operator.'' @ tokenAsString (tk_second t)))"

definition checkForOperatorOverload :: "nat \<Rightarrow> bool gen" where
  "checkForOperatorOverload n =
     gbind (operator_name n) (\<lambda>name. gbind (gets (\<lambda>s. getFunctionFromID_name (functionIDs s) name)) (\<lambda>r.
     gbind (resolved n r) (\<lambda>i. gret (i \<noteq> None))))"

text \<open>A call yields a value unless the function returns \<open>void\<close>; the builder is asked in either case.\<close>

definition call_function :: "folder \<Rightarrow> fn_handle \<Rightarrow> llvalue list \<Rightarrow> llvalue gen" where
  "call_function F f vs = gbind (function_info f) (\<lambda>fi. emit F (Call f (retTy fi) vs))"

definition generateOperatorOverloadCall :: "folder \<Rightarrow> nat \<Rightarrow> llvalue \<Rightarrow> llvalue \<Rightarrow> gresult gen" where
  "generateOperatorOverloadCall F n L R =
     gbind (operator_name n) (\<lambda>name. gbind (gets (\<lambda>s. getFunctionFromID_name (functionIDs s) name)) (\<lambda>r.
     gbind (resolved n r) (\<lambda>i.
       case i of
         None \<Rightarrow> gbind (report n ''Expected operator overload not found'') (\<lambda>_. gret Nullptr)
       | Some i \<Rightarrow>
           gbind (function_id i) (\<lambda>callee. gbind (function_of callee) (\<lambda>f.
           gbind (call_function F f [L, R]) (\<lambda>w. gret (Val w)))))))"

text \<open>The part without overloads is \<open>binary_operation\<close>. Its reports are of the token of the node: two when there
  is no common type, one when the operation is not supported.\<close>

definition builtin_binary :: "folder \<Rightarrow> nat \<Rightarrow> llvalue \<Rightarrow> llvalue \<Rightarrow> gresult gen" where
  "builtin_binary F n L R =
     gbind (node n) (\<lambda>nd. gbind (token_at n) (\<lambda>t s.
       rbind (binary_operation (ir_builder F) (structDefinitions s) (g_type nd) t L R (typeSigns s) (ir s)) (\<lambda>(v, signs, err, m).
         let s = s\<lparr>ir := m, typeSigns := signs, wasError := (wasError s \<or> err)\<rparr>
         in Inr (of_value v, s\<lparr>diagnostics := diagnostics s @ (if err then [t, t] else if v = None then [t] else [])\<rparr>))))"

text \<open>The left value of a pipe is on the stack while the right side is generated.\<close>

definition with_pipe_value :: "llvalue option \<Rightarrow> 'a gen \<Rightarrow> 'a gen" where
  "with_pipe_value v m =
     gbind (gmodify (\<lambda>s. s\<lparr>pipeOperationValue := v # pipeOperationValue s\<rparr>)) (\<lambda>_. gbind m (\<lambda>x.
     gbind (gmodify (\<lambda>s. s\<lparr>pipeOperationValue := tl (pipeOperationValue s)\<rparr>)) (\<lambda>_. gret x)))"

definition generateBinaryExpression_run :: "folder \<Rightarrow> generator \<Rightarrow> nat \<Rightarrow> nat \<Rightarrow> gresult gen" where
  "generateBinaryExpression_run F rec n pass =
     gbind (children n) (\<lambda>cs.
     if length cs < 2 then gbind (report n ''Binary expression requires left and right arguments'') (\<lambda>_. gret Nullptr)
     else gbind (child n 0) (\<lambda>l. gbind (child n 1) (\<lambda>r. gbind (has_generator l) (\<lambda>gl. gbind (has_generator r) (\<lambda>gr.
       if \<not> gl \<or> \<not> gr then gbind (report n ''Binary expression operands missing code generators'') (\<lambda>_. gret Nullptr)
       else gbind (node n) (\<lambda>nd.
         if g_type nd = Pipe_Operation
         then gbind (value_node rec l pass) (\<lambda>L. gbind (with_pipe_value L (value_node rec r pass)) (\<lambda>R. gret (of_value R)))
         else gbind (value_node rec l pass) (\<lambda>L. gbind (value_node rec r pass) (\<lambda>R.
           case (L, R) of
             (Some L, Some R) \<Rightarrow>
               gbind (if g_type nd = Redefined_Operator_Expr then gret True else checkForOperatorOverload n) (\<lambda>overload.
                 if overload then generateOperatorOverloadCall F n L R else builtin_binary F n L R)
           | _ \<Rightarrow> gret Nullptr))))))))"

definition generatePipePlaceholder_run :: "nat \<Rightarrow> gresult gen" where
  "generatePipePlaceholder_run n =
     gbind (gets pipeOperationValue) (\<lambda>ps.
       case ps of
         p # _ \<Rightarrow> gret (of_value p)
       | [] \<Rightarrow> gbind (report n ''Pipe operation placeholder can only be used after a pipe operation'') (\<lambda>_. gret Nullptr))"

section \<open>Element access\<close>

definition pop_element_type :: "lltype option gen" where
  "pop_element_type =
     gbind (gets lastRetrievedElementType) (\<lambda>ts.
       case ts of
         [] \<Rightarrow> ub
       | t # rest \<Rightarrow> gbind (gmodify (\<lambda>s. s\<lparr>lastRetrievedElementType := rest\<rparr>)) (\<lambda>_. gret t))"

definition push_element_type :: "lltype option \<Rightarrow> unit gen" where
  "push_element_type t = gmodify (\<lambda>s. s\<lparr>lastRetrievedElementType := t # lastRetrievedElementType s\<rparr>)"

text \<open>The entry for an argument of type \<open>t\<close> in a list to be looked up.\<close>

definition argument_of :: "lltype \<Rightarrow> bool \<Rightarrow> argType gen" where
  "argument_of t exact =
     gbind (type_string t) (\<lambda>name. gret (argType_of name (getASTNodeTypeFromString name) 0 False exact))"

definition builtin_access :: "folder \<Rightarrow> nat \<Rightarrow> nat \<Rightarrow> lltype \<Rightarrow> llvalue \<Rightarrow> llvalue \<Rightarrow> gresult gen" where
  "builtin_access F n l lType L R =
     (if \<not> isPointerTy lType then failed n ''Left argument of access operator must be a pointer type''
      else if \<not> isIntegerTy (type_of R) then failed n ''Right argument of access operator must be an integer''
      else gbind (node l) (\<lambda>ln.
        case g_baseType ln of
          None \<Rightarrow> failed n ''Invalid element type''
        | Some elementType \<Rightarrow>
            gbind (emit F (GEP elementType L R)) (\<lambda>gep. gbind (node n) (\<lambda>nd.
              if g_lvalue nd then gret (Val gep)
              else gbind (emit F (Load elementType gep)) (\<lambda>w. gret (Val w))))))"

definition generateAccessOperation_run :: "folder \<Rightarrow> generator \<Rightarrow> nat \<Rightarrow> nat \<Rightarrow> gresult gen" where
  "generateAccessOperation_run F rec n pass =
     gbind (children n) (\<lambda>cs.
     if cs = [] then failed n ''Access operation reqires a left and right argument''
     else gbind (child n 0) (\<lambda>l. gbind (has_generator l) (\<lambda>gl.
       if \<not> gl then no_generator l l
       else gbind (child n 1) (\<lambda>r. gbind (has_generator r) (\<lambda>gr.
         if \<not> gr then no_generator l r
         else gbind (set_node l (\<lambda>nd. nd\<lparr>g_lvalue := True\<rparr>)) (\<lambda>_.
           gbind (checked_value rec l pass) (\<lambda>L. gbind (checked_value rec r pass) (\<lambda>R.
           case (L, R) of
             (Some L, Some R) \<Rightarrow>
               gbind (node l) (\<lambda>ln.
               gbind (if g_type ln = Identifier_Node then gret (type_of L)
                      else gbind pop_element_type (\<lambda>t. gbind (follow t) (\<lambda>t. gret (getPointerTo t)))) (\<lambda>lType.
               gbind (argument_of lType True) (\<lambda>a. gbind (argument_of (type_of R) False) (\<lambda>b.
               gbind (gets (\<lambda>s. getExactFunctionFromID (functionIDs s) (''operator.'' @ tokenAsString Both_Brackets) [a, b] True)) (\<lambda>callee.
                 case callee of
                   Found i \<Rightarrow>
                     gbind (function_id i) (\<lambda>fid.
                       case fnValue fid of
                         None \<Rightarrow> failed n ''Undefined function''
                       | Some f \<Rightarrow> gbind (call_function F f [L, R]) (\<lambda>w. gret (Val w)))
                 | _ \<Rightarrow> builtin_access F n l lType L R)))))
           | _ \<Rightarrow> gret Nullptr))))))))"

end
