(* ===== verification/Codegen_Calls.thy ===== *)
theory Codegen_Calls
  imports Codegen_Expressions
begin

text \<open>
  Calls, member access, casts and instances (\<^verbatim>\<open>src/src/codegen.cpp\<close>: \<open>generateCallExpression\<close>,
  \<open>generateMemberAccess\<close>, \<open>generateCast\<close>, \<open>generateTypeInstance\<close>). The arguments of a call are generated twice:
  once for the types that choose the function, and again for the call.
\<close>

section \<open>Arguments\<close>

text \<open>An argument node without children stands for no argument.\<close>

definition argument_nodes :: "nat \<Rightarrow> nat list gen" where
  "argument_nodes argsNode =
     gbind (children argsNode) (\<lambda>as. gets (\<lambda>s. filter (\<lambda>a. g_children (nodeStore s a) \<noteq> []) as))"

text \<open>The first round: a null value is followed for its type.\<close>

definition argument_type :: "generator \<Rightarrow> nat \<Rightarrow> nat \<Rightarrow> argType gen" where
  "argument_type rec pass a =
     gbind (checked_value rec a pass) (\<lambda>v. gbind (follow v) (\<lambda>v. argument_of (type_of v) False))"

text \<open>Only a plain variable can be passed by reference.\<close>

definition is_plain_variable :: "nat \<Rightarrow> bool gen" where
  "is_plain_variable a =
     gets (\<lambda>s. case g_children (nodeStore s a) of [c] \<Rightarrow> g_type (nodeStore s c) = Identifier_Node | _ \<Rightarrow> False)"

text \<open>The second round, for one argument. The flag of the parameter is read at an index; the argument that is
  tested to be a variable is the argument itself in a call, and the first one in a member call (\<open>probe\<close>).\<close>

definition pass_argument ::
  "generator \<Rightarrow> nat \<Rightarrow> nat \<Rightarrow> argType list \<Rightarrow> nat \<Rightarrow> nat \<times> nat \<times> nat \<Rightarrow> llvalue list \<Rightarrow> (llvalue list + gresult) gen" where
  "pass_argument rec pass n params offset = (\<lambda>(i, probe, a) vs.
     gbind (if i + offset < length params then gret (isReference (params ! (i + offset))) else ub) (\<lambda>by_ref.
     gbind (if by_ref then is_plain_variable probe else gret True) (\<lambda>ok.
     if \<not> ok then gbind (failed n ''Cannot pass value as reference'') (\<lambda>r. gret (Inr r))
     else
       gbind (if by_ref then gbind (child a 0) (\<lambda>c. set_node c (\<lambda>nd. nd\<lparr>g_isRef := True\<rparr>)) else gret ()) (\<lambda>_.
       gbind (checked_value rec a pass) (\<lambda>v.
         case v of None \<Rightarrow> gret (Inr Nullptr) | Some v \<Rightarrow> gret (Inl (vs @ [v])))))))"

section \<open>Calls\<close>

text \<open>The instruction for a call: no value when the function returns \<open>void\<close>.\<close>

definition emit_call :: "folder \<Rightarrow> fn_handle \<Rightarrow> llvalue list \<Rightarrow> llvalue option gen" where
  "emit_call F f vs =
     gbind (call_function F f vs) (\<lambda>v. gbind (function_info f) (\<lambda>fi. gret (if retTy fi = Void_Ty then None else Some v)))"

text \<open>The number of arguments that a function takes, against the number it gets.\<close>

definition wrong_number :: "functionID \<Rightarrow> llfunction \<Rightarrow> nat \<Rightarrow> bool" where
  "wrong_number fid fi given =
     (if \<not> variableNumArguments fid then length (paramTys fi) \<noteq> given else length (paramTys fi) > given)"

definition struct_named :: "string \<Rightarrow> structType gen" where
  "struct_named name = gbind (gets (\<lambda>s. map_of (structDefinitions s) name)) follow"

text \<open>Space for a returned struct, none when the function returns something else.\<close>

definition struct_return_space :: "folder \<Rightarrow> nat \<Rightarrow> functionID \<Rightarrow> (llvalue option + gresult) gen" where
  "struct_return_space F n fid =
     (if \<not> isStructReturn fid then gret (Inl None)
      else gbind (struct_named (returnType fid)) (\<lambda>sd.
        case structVal sd of
          None \<Rightarrow> gbind (failed n ''Struct return type not fully defined'') (\<lambda>r. gret (Inr r))
        | Some k \<Rightarrow> gbind (emit F (Alloca (Struct_Ty k) ''sret_alloc'')) (\<lambda>v. gret (Inl (Some v)))))"

definition finish_call :: "folder \<Rightarrow> nat \<Rightarrow> functionID \<Rightarrow> fn_handle \<Rightarrow> llvalue option \<Rightarrow> llvalue list \<Rightarrow> gresult gen" where
  "finish_call F n fid f sret vs =
     gbind (emit_call F f (case sret of Some v \<Rightarrow> v # vs | None \<Rightarrow> vs)) (\<lambda>callResult.
       case sret of
         None \<Rightarrow> gret (of_value callResult)
       | Some v \<Rightarrow>
           gbind (node n) (\<lambda>nd.
             if g_lvalue nd then gret (Val v)
             else gbind (struct_named (returnType fid)) (\<lambda>sd. gbind (follow (structVal sd)) (\<lambda>k.
                  gbind (emit F (Load (Struct_Ty k) v)) (\<lambda>w. gret (Val w))))))"

definition generateCallExpression_run :: "folder \<Rightarrow> generator \<Rightarrow> nat \<Rightarrow> nat \<Rightarrow> gresult gen" where
  "generateCallExpression_run F rec n pass =
     gbind (child n 0) (\<lambda>argsNode. gbind (gets isCallMemberFunction) (\<lambda>shouldBeMemberFunction.
     gbind (gmodify (\<lambda>s. s\<lparr>isCallMemberFunction := False\<rparr>)) (\<lambda>_.
     gbind (argument_nodes argsNode) (\<lambda>as. gbind (gmap (argument_type rec pass) as) (\<lambda>argList.
     gbind (first_of n) (\<lambda>name.
     gbind (gets (\<lambda>s. getFunctionFromID (functionIDs s) name argList True shouldBeMemberFunction)) (\<lambda>found.
     gbind (resolved n found) (\<lambda>callee.
     case callee of
       None \<Rightarrow> failed n ''Undefined function''
     | Some i \<Rightarrow>
         gbind (function_id i) (\<lambda>fid. gbind (function_of fid) (\<lambda>f. gbind (use_function i) (\<lambda>_.
         gbind (struct_return_space F n fid) (\<lambda>space.
         case space of
           Inr r \<Rightarrow> gret r
         | Inl sret \<Rightarrow>
             gbind (function_info f) (\<lambda>fi.
             if wrong_number fid fi (length as + (if isStructReturn fid then 1 else 0))
             then failed n ''Incorrect number of arguments passed to function''
             else
               gbind (gloop (pass_argument rec pass n (arguments fid) (if isStructReturn fid then 1 else 0))
                        (map (\<lambda>i. (i, as ! i, as ! i)) [0..<length as]) []) (\<lambda>r.
                 case r of Inr y \<Rightarrow> gret y | Inl vs \<Rightarrow> finish_call F n fid f sret vs))))))))))))))"

section \<open>Member access\<close>

definition set_first :: "nat \<Rightarrow> string \<Rightarrow> unit gen" where
  "set_first n f = gmodify (\<lambda>s. s\<lparr>tokenStore := (tokenStore s)(g_token (nodeStore s n) := (tokenStore s (g_token (nodeStore s n)))\<lparr>tk_first := f\<rparr>)\<rparr>)"

text \<open>A member variable. The type that is loaded is the one of the member's name without its pointers.\<close>

definition member_variable :: "folder \<Rightarrow> generator \<Rightarrow> nat \<Rightarrow> nat \<Rightarrow> nat \<Rightarrow> structType \<Rightarrow> llvalue \<Rightarrow> gresult gen" where
  "member_variable F rec n pass c sd basePtr =
     gbind (first_of c) (\<lambda>memberName.
     case map_of (memberNameIndexes sd) memberName of
       None \<Rightarrow> failed c ''Struct definition does not contain member''
     | Some memberIndex \<Rightarrow>
         gbind (if memberIndex < length (members sd) then gret (members sd ! memberIndex) else ub) (\<lambda>member.
         gbind (getLLVMTypeFromString rec (typeString member) 0 n pass) (\<lambda>(elementType, _).
         case elementType of
           None \<Rightarrow> failed n ''Invalid element type''
         | Some ty \<Rightarrow>
             gbind (push_element_type (Some ty)) (\<lambda>_.
             gbind (follow (structVal sd)) (\<lambda>k. gbind (emit F (Struct_GEP k basePtr memberIndex)) (\<lambda>gep.
             gbind (set_node n (\<lambda>nd. nd\<lparr>g_baseType := Some ty\<rparr>)) (\<lambda>_.
             gbind (node n) (\<lambda>nd.
               if g_lvalue nd then gret (Val gep)
               else gbind (emit F (Load ty gep)) (\<lambda>w. gret (Val w))))))))))"

text \<open>A member function is looked up among the functions of the struct, under \<open>struct.member\<close>; that name is
  written to the token of the call. The number of arguments is tested for functions with a fixed number
  only: the \<open>else\<close> belongs to the inner condition.\<close>

definition member_function :: "folder \<Rightarrow> generator \<Rightarrow> nat \<Rightarrow> nat \<Rightarrow> nat \<Rightarrow> structType \<Rightarrow> llvalue \<Rightarrow> gresult gen" where
  "member_function F rec n pass c sd basePtr =
     gbind (first_of c) (\<lambda>name0. let memberName = st_name sd @ ''.'' @ name0 in
     gbind (set_first c memberName) (\<lambda>_.
     gbind (child c 0) (\<lambda>argsNode. gbind (argument_nodes argsNode) (\<lambda>as.
     gbind (gmap (argument_type rec pass) as) (\<lambda>rest.
     let argList = argType_of (st_name sd) Struct_Type 1 True False # rest in
     gbind (gets (\<lambda>s. getFunctionFromID (map ((!) (functionIDs s)) (memberFunctions sd)) memberName argList True True)) (\<lambda>found.
     gbind (resolved n found) (\<lambda>callee.
     case callee of
       None \<Rightarrow> failed c ''Struct definition does not contain member function''
     | Some j \<Rightarrow>
         let i = memberFunctions sd ! j in
         gbind (function_id i) (\<lambda>fid. gbind (function_of fid) (\<lambda>f. gbind (use_function i) (\<lambda>_.
         gbind (gmodify (\<lambda>s. s\<lparr>isCallMemberFunction := True\<rparr>)) (\<lambda>_.
         gbind (function_info f) (\<lambda>fi.
         if \<not> variableNumArguments fid \<and> length (paramTys fi) \<noteq> length argList
         then failed n ''Incorrect number of arguments passed to function''
         else
           gbind (gloop (pass_argument rec pass n (arguments fid) 0)
                    (map (\<lambda>i. (i, hd as, as ! i)) [0..<length as]) [basePtr]) (\<lambda>r.
           case r of
             Inr y \<Rightarrow> gret y
           | Inl vs \<Rightarrow>
               gbind (getLLVMTypeFromString rec (returnType fid) 0 n pass) (\<lambda>(ty, _).
               gbind (push_element_type ty) (\<lambda>_.
               gbind (gmodify (\<lambda>s. s\<lparr>isCallMemberFunction := False\<rparr>)) (\<lambda>_.
               gbind (set_node n (\<lambda>nd. nd\<lparr>g_baseType := ty\<rparr>)) (\<lambda>_.
               gbind (emit_call F f vs) (\<lambda>callResult. gret (of_value callResult)))))))))))))))))))"

definition member_of :: "folder \<Rightarrow> generator \<Rightarrow> nat \<Rightarrow> nat \<Rightarrow> structType \<Rightarrow> llvalue \<Rightarrow> gresult gen" where
  "member_of F rec n pass sd basePtr =
     gbind (child n 1) (\<lambda>c. gbind (node c) (\<lambda>cn.
       if g_type cn = Identifier_Node then member_variable F rec n pass c sd basePtr
       else if g_type cn = Function_Call then member_function F rec n pass c sd basePtr
       else gret Nullptr))"

text \<open>A struct without a type is generated by its node first.\<close>

definition generate_struct_type :: "generator \<Rightarrow> structType \<Rightarrow> nat \<Rightarrow> unit gen" where
  "generate_struct_type rec sd pass =
     gbind (if structVal sd = None then gbind (follow (sourceNode sd)) (\<lambda>k. gbind (call_node rec k pass) (\<lambda>_. gret ())) else gret ())
       (\<lambda>_. exit_on_error)"

text \<open>The struct on the left: of a variable by the type in its entry, otherwise by the type retrieved last.\<close>

definition member_of_variable :: "folder \<Rightarrow> generator \<Rightarrow> nat \<Rightarrow> nat \<Rightarrow> nat \<Rightarrow> llvalue \<Rightarrow> gresult gen" where
  "member_of_variable F rec n pass l basePtr =
     gbind (first_of l) (\<lambda>name. gbind (findNamedValue (Some n) None name) (\<lambda>v. gbind (follow v) (\<lambda>v.
     gbind (gets (\<lambda>s. map_of (structDefinitions s) (vt_type v))) (\<lambda>def.
     case def of
       None \<Rightarrow> failed n ''Type has not been defined''
     | Some sd0 \<Rightarrow>
         gbind (generate_struct_type rec sd0 pass) (\<lambda>_. gbind (struct_named (vt_type v)) (\<lambda>sd.
         member_of F rec n pass sd basePtr))))))"

definition member_of_element :: "folder \<Rightarrow> generator \<Rightarrow> nat \<Rightarrow> nat \<Rightarrow> llvalue \<Rightarrow> gresult gen" where
  "member_of_element F rec n pass basePtr =
     gbind pop_element_type (\<lambda>t.
     gbind (gets (\<lambda>s. case getStructTypeFromLLVMType (structDefinitions s) t of
                        None \<Rightarrow> None | Some key \<Rightarrow> map_of (structDefinitions s) key)) (\<lambda>def.
     case def of
       None \<Rightarrow> gfail (Exited [])
     | Some sd \<Rightarrow> member_of F rec n pass sd basePtr))"

definition generateMemberAccess_run :: "folder \<Rightarrow> generator \<Rightarrow> nat \<Rightarrow> nat \<Rightarrow> gresult gen" where
  "generateMemberAccess_run F rec n pass =
     gbind (children n) (\<lambda>cs.
     if cs = [] then failed n ''Member access operation reqires a left and right argument''
     else gbind (child n 0) (\<lambda>l. gbind (has_generator l) (\<lambda>gl.
       if \<not> gl then no_generator l l
       else gbind (child n 1) (\<lambda>r. gbind (has_generator r) (\<lambda>gr.
         if \<not> gr then no_generator l r
         else gbind (set_node l (\<lambda>nd. nd\<lparr>g_lvalue := True\<rparr>)) (\<lambda>_.
           gbind (checked_value rec l pass) (\<lambda>L.
           case L of
             None \<Rightarrow> failed n ''Base must be a pointer for access''
           | Some basePtr \<Rightarrow>
               if \<not> isPointerTy (type_of basePtr) then failed n ''Base must be a pointer for access''
               else gbind (node l) (\<lambda>ln.
                 if g_type ln = Identifier_Node then member_of_variable F rec n pass l basePtr
                 else member_of_element F rec n pass basePtr))))))))"

section \<open>Casts and instances\<close>

text \<open>An unknown variable is reported, and its null entry followed all the same.\<close>

definition generateCast_run :: "folder \<Rightarrow> generator \<Rightarrow> nat \<Rightarrow> nat \<Rightarrow> gresult gen" where
  "generateCast_run F rec n pass =
     gbind (gets (\<lambda>s. g_children (nodeStore s n))) (\<lambda>cs.
     gbind (gets (\<lambda>s. length cs < 2 \<or> (let b = cs ! 1 in g_children (nodeStore s b) = [] \<or> g_children (nodeStore s (hd (g_children (nodeStore s b)))) = []))) (\<lambda>bad.
     if bad then failed n ''Cast expression expected name followed by new type like: #cast x : float;''
     else gbind (child n 1) (\<lambda>b. gbind (child b 0) (\<lambda>v. gbind (child v 0) (\<lambda>tn.
       gbind (first_of v) (\<lambda>varName. gbind (node n) (\<lambda>nd.
       gbind (findNamedValue (g_parent nd) (Some n) varName) (\<lambda>val.
       case val of
         None \<Rightarrow> gbind (report v ''Unknown variable name used'') (\<lambda>_. ub)
       | Some entry \<Rightarrow>
           gbind (allocated_type (vt_val entry)) (\<lambda>t. gbind (emit F (Load t (vt_val entry))) (\<lambda>w.
           gbind (first_of tn) (\<lambda>tyVal.
           gbind (getLLVMTypeFromString rec tyVal 0 tn pass) (\<lambda>(toType, _).
           gbind (sign_of tyVal) (\<lambda>b.
           gbind (cast_value F w toType True b n False) (\<lambda>r. gret (of_value r)))))))))))))))"

definition generateTypeInstance_run :: "folder \<Rightarrow> generator \<Rightarrow> nat \<Rightarrow> nat \<Rightarrow> gresult gen" where
  "generateTypeInstance_run F rec n pass =
     gbind (gets (\<lambda>s. g_children (nodeStore s n))) (\<lambda>cs.
     gbind (gets (\<lambda>s. length cs < 2 \<or> g_children (nodeStore s (cs ! 1)) = [])) (\<lambda>bad.
     if bad then failed n ''New expression requires type name, like #new ty;''
     else gbind (child n 1) (\<lambda>b. gbind (child b 0) (\<lambda>tn. gbind (first_of tn) (\<lambda>typeName.
       gbind (gets (\<lambda>s. map_of (structDefinitions s) typeName)) (\<lambda>def.
       case def of
         None \<Rightarrow> failed tn ''Unknown type name used''
       | Some sd0 \<Rightarrow>
           gbind (generate_struct_type rec sd0 pass) (\<lambda>_. gbind (struct_named typeName) (\<lambda>sd.
           gbind (follow (structVal sd)) (\<lambda>k. gbind (emit F (Alloca (Struct_Ty k) ''struct_alloc'')) (\<lambda>v.
           gbind (emits F (Memset v (Struct_Ty k))) (\<lambda>_. gret (Val v))))))))))))"

end
