(* ===== verification/Codegen_Statements.thy ===== *)
theory Codegen_Statements
  imports Codegen_Calls
begin

text \<open>
  The generation methods of statements (\<^verbatim>\<open>src/src/codegen.cpp\<close>): \<open>generateReturn\<close>, \<open>generateExpression\<close>,
  \<open>generateExpressionStatement\<close>, \<open>generateIterator\<close>, \<open>generateScopeBody\<close>, \<open>generateIf\<close> and \<open>generateFor\<close>.
\<close>

section \<open>Expressions as statements\<close>

text \<open>A null value is followed for its type in a function that returns a struct, and is \<open>ret void\<close> otherwise.
  The size of the copy is asked for the function's return type, and \<open>void\<close> has none.\<close>

definition generateReturn_run :: "folder \<Rightarrow> generator \<Rightarrow> nat \<Rightarrow> nat \<Rightarrow> gresult gen" where
  "generateReturn_run F rec n pass =
     gbind (child n 0) (\<lambda>e. gbind (has_generator e) (\<lambda>g.
     if \<not> g then no_generator e e
     else gbind (checked_value rec e pass) (\<lambda>RetVal.
       gbind current_function (\<lambda>f.
       gbind (gets (\<lambda>s. getFunctionIDFromFunctionPointer (functionIDs s) f)) (\<lambda>found. gbind (glift found) (\<lambda>i.
       gbind (function_id i) (\<lambda>fid. gbind (follow f) (\<lambda>f. gbind (function_info f) (\<lambda>fi.
       gbind (if isStructReturn fid
              then gbind (follow RetVal) (\<lambda>v.
                   if paramTys fi = [] then ub
                   else let sretPtr = Argument f 0 (hd (paramTys fi)) in
                     gbind (if \<not> isPointerTy (type_of v) then emits F (Store v sretPtr)
                            else if retTy fi = Void_Ty then ub
                            else emits F (Memcpy sretPtr v (retTy fi)))
                       (\<lambda>_. emits F (Ret None)))
              else emits F (Ret RetVal))
         (\<lambda>_. gret Nullptr))))))))))"

definition generateExpression_run :: "generator \<Rightarrow> nat \<Rightarrow> nat \<Rightarrow> gresult gen" where
  "generateExpression_run rec n pass =
     gbind (children n) (\<lambda>cs.
     if cs = [] then gret Nullptr
     else gbind (child n 0) (\<lambda>e. gbind (has_generator e) (\<lambda>g.
       if \<not> g then no_generator e e
       else gbind (checked_value rec e pass) (\<lambda>v. gret (of_value v)))))"

text \<open>The target of an assignment that is no variable: its address.\<close>

definition assignment_address :: "generator \<Rightarrow> nat \<Rightarrow> nat \<Rightarrow> nat \<Rightarrow> (llvalue + gresult) gen" where
  "assignment_address rec n left pass =
     gbind (set_node left (\<lambda>nd. nd\<lparr>g_lvalue := True\<rparr>)) (\<lambda>_. gbind (has_generator left) (\<lambda>g.
     if \<not> g then gbind (no_generator left left) (\<lambda>r. gret (Inr r))
     else gbind (checked_value rec left pass) (\<lambda>p.
       case p of
         None \<Rightarrow> gbind (failed n ''Left side must evaluate to a pointer for assignment'') (\<lambda>r. gret (Inr r))
       | Some v \<Rightarrow>
           if isPointerTy (type_of v) then gret (Inl v)
           else gbind (failed n ''Left side must evaluate to a pointer for assignment'') (\<lambda>r. gret (Inr r)))))"

text \<open>The declared type of the target, with the node of its name and the number of pointers, when it has one.\<close>

definition declared_type :: "nat \<Rightarrow> generator \<Rightarrow> nat \<Rightarrow> nat \<Rightarrow> (lltype option \<times> (nat \<times> nat) option) gen" where
  "declared_type k rec left pass =
     gbind (node left) (\<lambda>ln.
     if g_lvalue ln \<or> g_children ln = [] then gret (None, None)
     else gbind (child left 0) (\<lambda>tn. gbind (pointed_type k tn 0) (\<lambda>(typeNode, level).
       gbind (first_of typeNode) (\<lambda>typeName.
       gbind (getLLVMTypeFromString rec typeName 0 typeNode pass) (\<lambda>(ty0, _).
       gbind (pointer_levels level ty0) (\<lambda>ty. gret (ty, Some (typeNode, level))))))))"

text \<open>The variable that is assigned to, made when there is none. Its allocated type is read in both cases.\<close>

definition assignment_variable ::
  "folder \<Rightarrow> fn_handle option \<Rightarrow> nat \<Rightarrow> nat \<Rightarrow> lltype \<Rightarrow> (nat \<times> nat) option \<Rightarrow> llvalue gen" where
  "assignment_variable F f n left ty typeNode =
     gbind (node n) (\<lambda>nd. gbind (first_of left) (\<lambda>name.
     gbind (findNamedValue (g_parent nd) (Some n) name) (\<lambda>val.
     gbind (case val of
              Some v \<Rightarrow> gret (vt_val v)
            | None \<Rightarrow>
                gbind (CreateEntryBlockAlloca F f (Some ty) name) (\<lambda>targetPtr.
                gbind (case typeNode of
                         None \<Rightarrow> type_string ty
                       | Some (tn, level) \<Rightarrow> gbind (first_of tn) (\<lambda>typeName. gret (stars level @ typeName))) (\<lambda>actualType.
                gbind (set_named_value n name \<lparr>vt_name = name, vt_type = actualType, vt_val = targetPtr\<rparr>) (\<lambda>_.
                gret targetPtr))))
       (\<lambda>targetPtr. gbind (allocated_type targetPtr) (\<lambda>_. gret targetPtr)))))"

definition generateExpressionStatement_run :: "folder \<Rightarrow> nat \<Rightarrow> generator \<Rightarrow> nat \<Rightarrow> nat \<Rightarrow> gresult gen" where
  "generateExpressionStatement_run F k rec n pass =
     gbind (child n 0) (\<lambda>left. gbind (child n 1) (\<lambda>e. gbind current_function (\<lambda>f. gbind (has_generator e) (\<lambda>g.
     if \<not> g then no_generator e e
     else gbind (checked_value rec e pass) (\<lambda>value0.
       case value0 of
         None \<Rightarrow> failed n ''Set expression requires right argument''
       | Some value1 \<Rightarrow>
           gbind (node left) (\<lambda>ln. let is_variable = (g_type ln = Identifier_Node) in
           gbind (if is_variable then gret (Inl (Const_Int 32 0)) else assignment_address rec n left pass) (\<lambda>address.
           case address of
             Inr r \<Rightarrow> gret r
           | Inl address \<Rightarrow>
               gbind (declared_type k rec left pass) (\<lambda>(type0, typeNode).
               gbind (case (type0, typeNode) of
                        (Some ty, Some (tn, level)) \<Rightarrow>
                          gbind (first_of tn) (\<lambda>typeName. gbind (cast_to_declared F typeName typeName value1 (Some ty) e) (\<lambda>cast. gret (ty, cast)))
                      | _ \<Rightarrow> gret (type_of value1, Some (Some value1))) (\<lambda>(ty, cast).
               case cast of
                 None \<Rightarrow> failed n ''Unknown type''
               | Some exprVal \<Rightarrow>
                   gbind (if is_variable then assignment_variable F f n left ty typeNode else gret address) (\<lambda>targetPtr.
                   gbind (follow exprVal) (\<lambda>v. gbind (emits F (Store v targetPtr)) (\<lambda>_. gret (Val v)))))))))))))"

definition generateIterator_run :: "folder \<Rightarrow> nat \<Rightarrow> gresult gen" where
  "generateIterator_run F n =
     gbind (child n 0) (\<lambda>c. gbind (first_of c) (\<lambda>name. gbind (emit F (Alloca (Int_Ty 32) name)) (\<lambda>v. gret (Val v))))"

section \<open>Bodies\<close>

definition body_step :: "generator \<Rightarrow> nat \<Rightarrow> nat \<Rightarrow> unit \<Rightarrow> (unit + gresult) gen" where
  "body_step rec pass c u =
     gbind (has_generator c) (\<lambda>g.
       if g then gbind (checked_value rec c pass) (\<lambda>_. gret (Inl ()))
       else gbind (no_generator c c) (\<lambda>r. gret (Inr r)))"

definition generateScopeBody_run :: "generator \<Rightarrow> nat \<Rightarrow> nat \<Rightarrow> gresult gen" where
  "generateScopeBody_run rec n pass =
     gbind (children n) (\<lambda>cs. gbind (gloop (body_step rec pass) cs ()) (\<lambda>r.
       case r of Inl _ \<Rightarrow> gret Nullptr | Inr y \<Rightarrow> gret y))"

text \<open>A body that must have a method; a report about it is at a node of its own.\<close>

definition generate_body :: "generator \<Rightarrow> nat \<Rightarrow> nat \<Rightarrow> nat \<Rightarrow> (unit + gresult) gen" where
  "generate_body rec at b pass =
     gbind (has_generator b) (\<lambda>g.
       if \<not> g then gbind (no_generator at b) (\<lambda>r. gret (Inr r))
       else gbind (checked_value rec b pass) (\<lambda>_. gret (Inl ())))"

section \<open>if\<close>

text \<open>The branches, once the condition is a value: three blocks, of which only the first belongs to the
  function from the beginning.\<close>

definition generate_branches :: "folder \<Rightarrow> generator \<Rightarrow> nat \<Rightarrow> nat \<Rightarrow> llvalue \<Rightarrow> gresult gen" where
  "generate_branches F rec n pass CondV =
     gbind (emit F (Compare ICMP_NE CondV (Const_Int 1 0))) (\<lambda>cond.
     gbind current_function (\<lambda>f.
     gbind (create_block ''then'' f) (\<lambda>ThenBB. gbind (create_block ''else'' None) (\<lambda>ElseBB.
     gbind (create_block ''ifcont'' None) (\<lambda>MergeBB.
     gbind (emits F (Cond_Br cond ThenBB ElseBB)) (\<lambda>_.
     gbind (set_insert_point ThenBB) (\<lambda>_.
     gbind (child n 1) (\<lambda>scopeBody. gbind (generate_body rec scopeBody scopeBody pass) (\<lambda>r.
     case r of
       Inr y \<Rightarrow> gret y
     | Inl _ \<Rightarrow>
         gbind (emits F (Br MergeBB)) (\<lambda>_.
         gbind (insert_block f ElseBB) (\<lambda>_. gbind (set_insert_point ElseBB) (\<lambda>_.
         gbind (child n 2) (\<lambda>elseBody. gbind (generate_body rec n elseBody pass) (\<lambda>r.
         case r of
           Inr y \<Rightarrow> gret y
         | Inl _ \<Rightarrow>
             gbind (emits F (Br MergeBB)) (\<lambda>_.
             gbind (insert_block f MergeBB) (\<lambda>_. gbind (set_insert_point MergeBB) (\<lambda>_. gret Nullptr)))))))))))))))))"

definition generateIf_run :: "folder \<Rightarrow> generator \<Rightarrow> nat \<Rightarrow> nat \<Rightarrow> gresult gen" where
  "generateIf_run F rec n pass =
     gbind (child n 0) (\<lambda>condExpr. gbind (children condExpr) (\<lambda>cs.
     if cs = [] then failed condExpr ''Expected condition expression''
     else gbind (child condExpr 0) (\<lambda>c. gbind (has_generator c) (\<lambda>g.
       if \<not> g then no_generator c c
       else gbind (checked_value rec c pass) (\<lambda>CondV.
         case CondV of None \<Rightarrow> gret Nullptr | Some v \<Rightarrow> generate_branches F rec n pass v)))))"

section \<open>for\<close>

text \<open>The loop, once the first value is there. The step adds one to the value that the condition loaded.\<close>

definition generate_loop :: "folder \<Rightarrow> generator \<Rightarrow> nat \<Rightarrow> nat \<Rightarrow> string \<Rightarrow> nat \<Rightarrow> llvalue \<Rightarrow> gresult gen" where
  "generate_loop F rec n pass varName rangeNode StartVal =
     gbind current_function (\<lambda>f.
     gbind (create_block ''loopcond'' f) (\<lambda>LoopCondBB. gbind (create_block ''loop'' f) (\<lambda>LoopBB.
     gbind (create_block ''afterloop'' f) (\<lambda>AfterBB.
     gbind (CreateEntryBlockAlloca F f (Some (Int_Ty 32)) varName) (\<lambda>slot.
     gbind (emits F (Store StartVal slot)) (\<lambda>_. gbind (emits F (Br LoopCondBB)) (\<lambda>_.
     gbind (set_insert_point LoopCondBB) (\<lambda>_.
     gbind (child rangeNode 1) (\<lambda>rangeEnd. gbind (checked_value rec rangeEnd pass) (\<lambda>EndVal.
     gbind (emit F (Load (Int_Ty 32) slot)) (\<lambda>CurVar. gbind (follow EndVal) (\<lambda>stop.
     gbind (emit F (Compare ICMP_SLT CurVar stop)) (\<lambda>cond.
     gbind (emits F (Cond_Br cond LoopBB AfterBB)) (\<lambda>_.
     gbind (set_insert_point LoopBB) (\<lambda>_.
     gbind (set_named_value n varName \<lparr>vt_name = varName, vt_type = ''int32'', vt_val = slot\<rparr>) (\<lambda>_.
     gbind (child n 2) (\<lambda>scopeBody. gbind (generate_body rec scopeBody scopeBody pass) (\<lambda>r.
     case r of
       Inr y \<Rightarrow> gret y
     | Inl _ \<Rightarrow>
         gbind (emit F (Binary Add CurVar (Const_Int 32 1))) (\<lambda>NextVar.
         gbind (emits F (Store NextVar slot)) (\<lambda>_. gbind (emits F (Br LoopCondBB)) (\<lambda>_.
         gbind (set_insert_point AfterBB) (\<lambda>_. gret Nullptr))))))))))))))))))))))"

definition generateFor_run :: "folder \<Rightarrow> generator \<Rightarrow> nat \<Rightarrow> nat \<Rightarrow> gresult gen" where
  "generateFor_run F rec n pass =
     gbind (child n 0) (\<lambda>it. gbind (node it) (\<lambda>itn.
     gbind (if g_type itn = Iterator then gbind (child it 0) first_of else gret ''_iterator'') (\<lambda>varName.
     gbind (child n 1) (\<lambda>rangeNode. gbind (child rangeNode 0) (\<lambda>rangeStart. gbind (has_generator rangeStart) (\<lambda>g.
     if \<not> g then no_generator rangeStart rangeStart
     else gbind (checked_value rec rangeStart pass) (\<lambda>StartVal.
       case StartVal of None \<Rightarrow> gret Nullptr | Some v \<Rightarrow> generate_loop F rec n pass varName rangeNode v)))))))"

end
