(* ===== verification/Codegen_Definitions.thy ===== *)
theory Codegen_Definitions
  imports Codegen_Statements
begin

text \<open>
  The generation methods of definitions (\<^verbatim>\<open>src/src/codegen.cpp\<close>: \<open>generateStruct\<close>, \<open>generatePrototype\<close>,
  \<open>generateFunction\<close>, \<open>generateNothing\<close>), the table of methods, and the passes over a tree in the store
  (\<^verbatim>\<open>src/src/parser.cpp\<close>: \<open>generateOutputCode\<close>). The generator calls itself through the nodes; its first
  argument bounds the depth of the calls.
\<close>

section \<open>Prototypes\<close>

text \<open>The names of a function: plain and mangled, and whether it belongs to a struct.\<close>

definition function_names :: "nat \<Rightarrow> (string \<times> string \<times> bool) gen" where
  "function_names n =
     gbind (first_of n) (\<lambda>name. gbind (gets currentStructName) (\<lambda>cur.
     if name \<in> {''operator'', ''cast'', ''create'', ''destroy''}
     then gbind (child n 0) (\<lambda>c. gbind (child c 0) (\<lambda>d. gbind (token_at d) (\<lambda>t.
            let sym = tokenAsString (tk_second t); fnName = name @ ''.'' @ sym in gret (fnName, fnName @ ''.'' @ sym, False))))
     else case cur of
            s # _ \<Rightarrow> gret (s @ ''.'' @ name, s @ ''.'' @ name, True)
          | [] \<Rightarrow> gret (name, name, False)))"

text \<open>The return type: the loop descends while it reads \<open>*\<close>, and collects the text and the mangled name.\<close>

fun return_type_text :: "nat \<Rightarrow> nat \<Rightarrow> string \<Rightarrow> string \<Rightarrow> (nat \<times> string \<times> string) gen" where
  "return_type_text 0 n rType mangled = gfail Out_Of_Fuel"
| "return_type_text (Suc k) n rType mangled =
     gbind (child n 0) (\<lambda>c. gbind (first_of c) (\<lambda>f.
       let mangled = mangled @ (if f = ''*'' then ''.ptr'' else ''.'' @ f); rType = rType @ f in
       if f = ''*'' then return_type_text k c rType mangled else gret (c, rType, mangled)))"

text \<open>The modifiers of an argument's type: reference, exact, and the pointers, with the text so far.\<close>

fun type_modifiers :: "nat \<Rightarrow> nat \<Rightarrow> bool \<times> bool \<times> nat \<times> string \<times> string \<Rightarrow> (nat \<times> bool \<times> bool \<times> nat \<times> string \<times> string) gen" where
  "type_modifiers 0 n st = gfail Out_Of_Fuel"
| "type_modifiers (Suc k) n (ref, exact, level, typeStr, mangled) =
     gbind (first_of n) (\<lambda>f.
       if f = ''ref'' then gbind (child n 0) (\<lambda>c. type_modifiers k c (True, exact, level + 1, typeStr @ ''*'', mangled @ ''.ref''))
       else if f = ''exact'' then gbind (child n 0) (\<lambda>c. type_modifiers k c (ref, True, level, typeStr, mangled))
       else if f = ''*'' then gbind (child n 0) (\<lambda>c. type_modifiers k c (ref, exact, level + 1, typeStr @ ''*'', mangled @ ''.ptr''))
       else gret (n, ref, exact, level, typeStr, mangled))"

text \<open>What the prototype has gathered: the argument list, the list without the hidden arguments, their types and
  names, the mangled name, and whether \<open>...\<close> was met.\<close>

record gathered =
  ga_args :: "argType list"
  ga_user :: "argType list"
  ga_types :: "lltype option list"
  ga_names :: "string list"
  ga_mangled :: string
  ga_variadic :: bool

definition add_argument :: "argType \<Rightarrow> lltype option \<Rightarrow> string \<Rightarrow> gathered \<Rightarrow> gathered" where
  "add_argument a t name g = g\<lparr>ga_args := ga_args g @ [a], ga_types := ga_types g @ [t], ga_names := ga_names g @ [name]\<rparr>"

definition gather_argument :: "nat \<Rightarrow> generator \<Rightarrow> nat \<Rightarrow> nat \<Rightarrow> gathered \<Rightarrow> (gathered + gresult) gen" where
  "gather_argument k rec pass a g =
     gbind (children a) (\<lambda>cs.
     if cs = [] then gret (Inl g)
     else if ga_variadic g then gbind (failed a ''Invalid argument type given'') (\<lambda>r. gret (Inr r))
     else gbind (child a 0) (\<lambda>arg. gbind (node arg) (\<lambda>argn.
       if g_type argn = Argument_List then gret (Inl (g\<lparr>ga_variadic := True\<rparr>))
       else gbind (child arg 0) (\<lambda>tn. gbind (type_modifiers k tn (False, False, 0, [], ga_mangled g)) (\<lambda>(typeNode, ref, exact, level, typeStr, mangled).
         gbind (first_of typeNode) (\<lambda>f.
         gbind (getLLVMTypeFromString rec f 0 typeNode pass) (\<lambda>(ty0, _). gbind (pointer_levels level ty0) (\<lambda>ty.
         gbind (first_of arg) (\<lambda>name.
         let at = argType_of (typeStr @ f) (getASTNodeTypeFromString f) level ref exact; g = g\<lparr>ga_mangled := mangled @ ''.'' @ f\<rparr>
         in gret (Inl ((add_argument at ty name g)\<lparr>ga_user := ga_user g @ [at]\<rparr>)))))))))))"

text \<open>The type of the function is made of types that are there.\<close>

definition create_function :: "string \<Rightarrow> lltype option \<Rightarrow> gathered \<Rightarrow> bool \<Rightarrow> fn_handle gen" where
  "create_function name ret g inline =
     gbind (follow ret) (\<lambda>ret. gbind (gmap follow (ga_types g)) (\<lambda>types.
     gbind (gets (\<lambda>s. length (moduleFunctions (ir s)))) (\<lambda>f.
     gbind (gmodify (\<lambda>s. s\<lparr>ir := (ir s)\<lparr>moduleFunctions := moduleFunctions (ir s) @
       [\<lparr>linkName = name, retTy = ret, paramTys = types, paramNames = ga_names g, isVarArg = ga_variadic g, alwaysInline = inline\<rparr>]\<rparr>\<rparr>)) (\<lambda>_.
     gret f))))"

text \<open>The return type: none is \<open>void\<close>. A struct is returned through a hidden first argument.\<close>

definition prototype_return :: "nat \<Rightarrow> generator \<Rightarrow> nat \<Rightarrow> nat \<Rightarrow> string \<Rightarrow> (lltype option \<times> string \<times> string) gen" where
  "prototype_return k rec pass typeNode mangled =
     gbind (children typeNode) (\<lambda>cs.
     if cs = [] then gret (Some Void_Ty, [], mangled)
     else gbind (return_type_text k typeNode [] mangled) (\<lambda>(at, rType, mangled).
       gbind (getLLVMTypeFromString rec rType 0 at pass) (\<lambda>(ty, _). gret (ty, rType, mangled))))"

definition hidden_arguments :: "generator \<Rightarrow> nat \<Rightarrow> nat \<Rightarrow> lltype option \<Rightarrow> string \<Rightarrow> gathered \<Rightarrow> gathered gen" where
  "hidden_arguments rec n pass retType rType g0 =
     (let g = (case retType of
         Some (Struct_Ty s) \<Rightarrow>
           add_argument (argType_of (''*'' @ rType) (getASTNodeTypeFromString rType) 1 False True) (Some Pointer_Ty) ''sret'' g0
       | _ \<Rightarrow> g0)
      in gbind (gets currentStructName) (\<lambda>cur.
         case cur of
           [] \<Rightarrow> gret g
         | typeStr # _ \<Rightarrow>
             gbind (getLLVMTypeFromString rec typeStr 0 n pass) (\<lambda>(ty, _). gbind (pointer_levels 1 ty) (\<lambda>ty.
             gret (add_argument (argType_of typeStr Struct_Type 1 True False) ty ''this'' g)))))"

definition generatePrototype_run :: "nat \<Rightarrow> generator \<Rightarrow> nat \<Rightarrow> nat \<Rightarrow> gresult gen" where
  "generatePrototype_run k rec n pass =
     gbind (child n 2) (\<lambda>argsNode. gbind (child n 3) (\<lambda>modifiersNode.
     gbind (function_names n) (\<lambda>(fnName, mangled0, isStruct).
     gbind (child n 1) (\<lambda>typeNode.
     gbind (prototype_return k rec pass typeNode mangled0) (\<lambda>(retType, rType, mangled1).
     let structReturn = (case retType of Some t \<Rightarrow> isStructTy t | None \<Rightarrow> False);
         g0 = \<lparr>ga_args = [], ga_user = [], ga_types = [], ga_names = [], ga_mangled = mangled1, ga_variadic = False\<rparr> in
     gbind (hidden_arguments rec n pass retType rType g0) (\<lambda>g1.
     gbind (children argsNode) (\<lambda>as. gbind (gloop (gather_argument k rec pass) as g1) (\<lambda>r.
     case r of
       Inr y \<Rightarrow> gret y
     | Inl g \<Rightarrow>
         gbind (children modifiersNode) (\<lambda>ms. gbind (gmap first_of ms) (\<lambda>modifiers.
         gbind (set_node n (\<lambda>nd. if ''#replaceable'' \<in> set modifiers then nd\<lparr>g_replaceable := True\<rparr> else nd)) (\<lambda>_.
         gbind (gets (\<lambda>s. getExactFunctionFromID (functionIDs s) fnName (ga_user g) False)) (\<lambda>found.
         case found of
           Found i \<Rightarrow> gbind (function_id i) (\<lambda>fid. gret (case fnValue fid of Some f \<Rightarrow> Val (Function_Ptr f) | None \<Rightarrow> Nullptr))
         | _ \<Rightarrow>
             gbind (node n) (\<lambda>nd.
             gbind (create_function (if g_isExtern nd then fnName else ga_mangled g) (if structReturn then Some Void_Ty else retType) g
                      (''#inline'' \<in> set modifiers)) (\<lambda>f.
             gbind (gmodify (\<lambda>s. s\<lparr>functionIDs := functionIDs s @
               [functionID_of fnName (ga_mangled g) rType (ga_args g) (ga_user g) (Some f) (ga_variadic g) isStruct structReturn]\<rparr>)) (\<lambda>_.
             gret (Val (Function_Ptr f)))))))))))))))))"

section \<open>Functions\<close>

text \<open>The entry of an argument in \<open>namedValues\<close>: a copy, or the argument itself when it is a pointer.\<close>

definition enter_argument :: "folder \<Rightarrow> nat \<Rightarrow> fn_handle \<Rightarrow> functionID \<Rightarrow> nat \<times> lltype \<times> string \<Rightarrow> unit \<Rightarrow> (unit + gresult) gen" where
  "enter_argument F n f fid = (\<lambda>(i, ty, name) u.
     if length (arguments fid) \<le> i
     then gbind (failed n ''Mismatch in number of arguments'') (\<lambda>r. gret (Inr r))
     else let a = arguments fid ! i; arg = Argument f i ty in
       if pointerLevel a = 0
       then gbind (CreateEntryBlockAlloca F (Some f) (Some ty) name) (\<lambda>slot.
            gbind (emits F (Store arg slot)) (\<lambda>_.
            gbind (set_named_value n name \<lparr>vt_name = name, vt_type = typeString a, vt_val = slot\<rparr>) (\<lambda>_. gret (Inl ()))))
       else gbind (set_named_value n name \<lparr>vt_name = name, vt_type = stars (pointerLevel a - 1) @ typeString a, vt_val = arg\<rparr>)
            (\<lambda>_. gret (Inl ())))"

text \<open>The default return: \<open>ConstantInt::get\<close> wants an integer type.\<close>

definition default_return :: "folder \<Rightarrow> fn_handle \<Rightarrow> unit gen" where
  "default_return F f =
     gbind (function_info f) (\<lambda>fi.
       case retTy fi of
         Void_Ty \<Rightarrow> emits F (Ret None)
       | Int_Ty w \<Rightarrow> emits F (Ret (Some (Const_Int w 0)))
       | _ \<Rightarrow> ub)"

definition function_empty :: "fn_handle \<Rightarrow> bool gen" where
  "function_empty f = gets (\<lambda>s. list_all (\<lambda>b. bb_parent b \<noteq> Some f) (blocks (ir s)))"

text \<open>What follows in the entry block: the arguments, the body and the default return.\<close>

definition generate_function_code :: "folder \<Rightarrow> generator \<Rightarrow> nat \<Rightarrow> nat \<Rightarrow> fn_handle \<Rightarrow> functionID \<Rightarrow> gresult gen" where
  "generate_function_code F rec n pass f fid =
     gbind (function_info f) (\<lambda>fi.
     gbind (gloop (enter_argument F n f fid) (map (\<lambda>i. (i, paramTys fi ! i, paramNames fi ! i)) [0..<length (paramTys fi)]) ()) (\<lambda>r.
     case r of
       Inr y \<Rightarrow> gret y
     | Inl _ \<Rightarrow>
         gbind (gets (\<lambda>s. filter (\<lambda>c. g_type (nodeStore s c) = Scope_Body) (g_children (nodeStore s n)))) (\<lambda>bodies.
         if bodies = [] then ub
         else gbind (generate_body rec (last bodies) (last bodies) pass) (\<lambda>r.
           case r of
             Inr y \<Rightarrow> gret y
           | Inl _ \<Rightarrow> gbind (default_return F f) (\<lambda>_. gret (Val (Function_Ptr f)))))))"

definition generate_function_body :: "folder \<Rightarrow> generator \<Rightarrow> nat \<Rightarrow> nat \<Rightarrow> fn_handle \<Rightarrow> gresult gen" where
  "generate_function_body F rec n pass f =
     gbind (gets (\<lambda>s. getFunctionIDFromFunctionPointer (functionIDs s) (Some f))) (\<lambda>found. gbind (glift found) (\<lambda>i.
     gbind (function_id i) (\<lambda>fid.
     gbind (create_block ''entry'' (Some f)) (\<lambda>entry. gbind (set_insert_point entry) (\<lambda>_.
     generate_function_code F rec n pass f fid)))))"

definition generateFunction_run :: "folder \<Rightarrow> nat \<Rightarrow> generator \<Rightarrow> nat \<Rightarrow> nat \<Rightarrow> gresult gen" where
  "generateFunction_run F k rec n pass =
     gbind (generatePrototype_run k rec n pass) (\<lambda>r.
     case r of
       Val (Function_Ptr f) \<Rightarrow>
         gbind (function_empty f) (\<lambda>empty. gbind (node n) (\<lambda>nd.
         if \<not> empty \<and> \<not> g_replaceable nd then failed n ''Function cannot be redefined, requires unique identity''
         else if pass \<le> 1 then gret r
         else generate_function_body F rec n pass f))
     | _ \<Rightarrow> gret Nullptr)"

section \<open>Structs\<close>

record struct_fields =
  sf_members :: "argType list"
  sf_types :: "lltype option list"
  sf_indexes :: "(string \<times> nat) list"
  sf_functions :: "nat list"

text \<open>One field: member variables in the first round (after pass 0), member functions in the second (in
  pass 2).\<close>

definition struct_member :: "nat \<Rightarrow> generator \<Rightarrow> nat \<Rightarrow> nat \<Rightarrow> struct_fields \<Rightarrow> (struct_fields + gresult) gen" where
  "struct_member k rec pass c sf =
     gbind (children c) (\<lambda>cs.
     if cs = [] then gbind (failed c ''Member declaration must have type'') (\<lambda>r. gret (Inr r))
     else gbind (first_of c) (\<lambda>memberName. gbind (child c 0) (\<lambda>tn. gbind (pointed_type k tn 0) (\<lambda>(typeNode, level).
       gbind (first_of typeNode) (\<lambda>memberType.
       gbind (getLLVMTypeFromString rec memberType 0 typeNode pass) (\<lambda>(ty0, _). gbind (pointer_levels level ty0) (\<lambda>ty.
       gret (Inl (sf\<lparr>sf_types := sf_types sf @ [ty], sf_indexes := (memberName, length (sf_members sf) mod 2 ^ 16) # sf_indexes sf,
         sf_members := sf_members sf @ [argType_of memberType (getASTNodeTypeFromString memberType) level False False]\<rparr>)))))))))"

definition struct_function :: "generator \<Rightarrow> nat \<Rightarrow> nat \<Rightarrow> struct_fields \<Rightarrow> (struct_fields + gresult) gen" where
  "struct_function rec pass c sf =
     gbind (checked_value rec c pass) (\<lambda>v.
     gbind (follow (case v of None \<Rightarrow> Some None | Some (Function_Ptr f) \<Rightarrow> Some (Some f) | _ \<Rightarrow> None)) (\<lambda>f.
     gbind (gets (\<lambda>s. getFunctionIDFromFunctionPointer (functionIDs s) f)) (\<lambda>found. gbind (glift found) (\<lambda>i.
     gret (Inl (sf\<lparr>sf_functions := sf_functions sf @ [i]\<rparr>))))))"

definition struct_field :: "nat \<Rightarrow> generator \<Rightarrow> nat \<Rightarrow> nat \<times> nat \<Rightarrow> struct_fields \<Rightarrow> (struct_fields + gresult) gen" where
  "struct_field k rec pass = (\<lambda>(generatingType, c) sf.
     gbind (node c) (\<lambda>cn.
       if g_type cn = Identifier_Node \<and> generatingType = 0 \<and> pass > 0 then struct_member k rec pass c sf
       else if g_type cn = Compiler_Define_Function \<and> generatingType = 1 \<and> pass > 1 then struct_function rec pass c sf
       else gret (Inl sf)))"

definition pop_struct_name :: "unit gen" where
  "pop_struct_name = gmodify (\<lambda>s. s\<lparr>currentStructName := tl (currentStructName s)\<rparr>)"

text \<open>In pass 2 the entry of the struct is updated, before that it is made anew, with a new type.\<close>

definition update_struct :: "string \<Rightarrow> struct_fields \<Rightarrow> gresult gen" where
  "update_struct structName sf =
     gbind (struct_named structName) (\<lambda>sd. gbind (follow (structVal sd)) (\<lambda>k. gbind (gmap follow (sf_types sf)) (\<lambda>types.
     gbind (gmodify (\<lambda>s. s\<lparr>structDefinitions := (structName, sd\<lparr>members := sf_members sf, memberFunctions := sf_functions sf,
         memberNameIndexes := sf_indexes sf\<rparr>) # filter (\<lambda>(n, _). n \<noteq> structName) (structDefinitions s),
       ir := (ir s)\<lparr>structBodies := (structBodies (ir s))[k := (fst (structBodies (ir s) ! k), types)]\<rparr>\<rparr>)) (\<lambda>_.
     gret Nullptr))))"

definition create_struct :: "string \<Rightarrow> nat \<Rightarrow> struct_fields \<Rightarrow> gresult gen" where
  "create_struct structName tk sf =
     gbind (gmap follow (sf_types sf)) (\<lambda>types. gbind (gets (\<lambda>s. length (structBodies (ir s)))) (\<lambda>k.
     gbind (gmodify (\<lambda>s. s\<lparr>ir := (ir s)\<lparr>structBodies := structBodies (ir s) @ [(''struct.'' @ structName, types)]\<rparr>\<rparr>)) (\<lambda>_.
     gbind pop_struct_name (\<lambda>_.
     gbind (gmodify (\<lambda>s. s\<lparr>structDefinitions := (structName, structType_of structName tk (Some k) (sf_members sf) (sf_functions sf) (sf_indexes sf))
       # filter (\<lambda>(n, _). n \<noteq> structName) (structDefinitions s)\<rparr>)) (\<lambda>_.
     gret (Ty (Struct_Ty k)))))))"

definition generateStruct_run :: "nat \<Rightarrow> generator \<Rightarrow> nat \<Rightarrow> nat \<Rightarrow> gresult gen" where
  "generateStruct_run k rec n pass =
     gbind (node n) (\<lambda>nd. gbind (first_of n) (\<lambda>structName.
     gbind (gets (\<lambda>s. map_of (structDefinitions s) structName)) (\<lambda>def.
     if (case def of Some sd \<Rightarrow> st_token sd \<noteq> g_token nd | None \<Rightarrow> False) then failed n ''Struct cannot be redefined''
     else
       gbind (gmodify (\<lambda>s. s\<lparr>currentStructName := structName # currentStructName s\<rparr>)) (\<lambda>_.
       gbind (child n 0) (\<lambda>body. gbind (children body) (\<lambda>cs.
       gbind (gloop (struct_field k rec pass) (map (Pair 0) cs @ map (Pair 1) cs)
                \<lparr>sf_members = [], sf_types = [], sf_indexes = [], sf_functions = []\<rparr>) (\<lambda>r.
       case r of
         Inr y \<Rightarrow> gret y
       | Inl sf \<Rightarrow>
           if pass > 1 then gbind pop_struct_name (\<lambda>_. update_struct structName sf)
           else create_struct structName (g_token nd) sf)))))))"

section \<open>The generator\<close>

definition generateNothing_run :: "gresult gen" where
  "generateNothing_run = gret Nullptr"

text \<open>The parameters of the compiler's environment: the builder and \<open>std::stod\<close>.\<close>

record environment =
  builder :: folder
  parse_double :: "string \<Rightarrow> unit outcome"

definition run_method :: "environment \<Rightarrow> nat \<Rightarrow> generator \<Rightarrow> codegen_method \<Rightarrow> generator" where
  "run_method E k rec method n pass =
     (let F = builder E in
      case method of
        No_Codegen \<Rightarrow> ub
      | generateConstant \<Rightarrow> generateConstant_run (parse_double E) n
      | generateVariableExpression \<Rightarrow> generateVariableExpression_run F k rec n pass
      | generateReturn \<Rightarrow> generateReturn_run F rec n pass
      | generateExpression \<Rightarrow> generateExpression_run rec n pass
      | generateExpressionStatement \<Rightarrow> generateExpressionStatement_run F k rec n pass
      | generateIterator \<Rightarrow> generateIterator_run F n
      | generateUnaryExpression \<Rightarrow> generateUnaryExpression_run F rec n pass
      | generateBinaryExpression \<Rightarrow> generateBinaryExpression_run F rec n pass
      | generatePipePlaceholder \<Rightarrow> generatePipePlaceholder_run n
      | generateAccessOperation \<Rightarrow> generateAccessOperation_run F rec n pass
      | generateMemberAccess \<Rightarrow> generateMemberAccess_run F rec n pass
      | generateScopeBody \<Rightarrow> generateScopeBody_run rec n pass
      | generateIf \<Rightarrow> generateIf_run F rec n pass
      | generateStruct \<Rightarrow> generateStruct_run k rec n pass
      | generateFor \<Rightarrow> generateFor_run F rec n pass
      | generatePrototype \<Rightarrow> generatePrototype_run k rec n pass
      | generateFunction \<Rightarrow> generateFunction_run F k rec n pass
      | generateCast \<Rightarrow> generateCast_run F rec n pass
      | generateTypeInstance \<Rightarrow> generateTypeInstance_run F rec n pass
      | generateCallExpression \<Rightarrow> generateCallExpression_run F rec n pass
      | generateNothing \<Rightarrow> generateNothing_run)"

fun generate :: "environment \<Rightarrow> nat \<Rightarrow> generator" where
  "generate E 0 n pass = gfail Out_Of_Fuel"
| "generate E (Suc k) n pass =
     gbind (node n) (\<lambda>nd. run_method E (Suc k) (generate E k) (g_codegen nd) n pass)"

text \<open>\<open>generateOutputCode\<close> on the store, for the nodes below a root, and \<open>removeUnusedPrototypes\<close>, which takes
  the functions that no call has used out of the module.\<close>

fun output_code :: "environment \<Rightarrow> nat \<Rightarrow> nat \<Rightarrow> nat \<Rightarrow> unit gen" where
  "output_code E 0 pass n = gfail Out_Of_Fuel"
| "output_code E (Suc k) pass n =
     gbind (node n) (\<lambda>nd.
       if g_type nd = Scope_Body then gbind (gmap (output_code E k pass) (g_children nd)) (\<lambda>_. gret ())
       else if (g_type nd = Compiler_Define_Struct
             \<or> g_type nd \<in> {Compiler_Define_Cast, Compiler_Define_Function, Compile_Time_Directive} \<and> pass \<noteq> 0)
           \<and> g_codegen nd \<noteq> No_Codegen
       then gbind (generate E (Suc k) n pass) (\<lambda>_. gret ())
       else gret ())"

definition removeUnusedPrototypes :: "unit gen" where
  "removeUnusedPrototypes =
     gbind (gets (filter (\<lambda>f. fid_name f \<noteq> ''main'' \<and> uses f = 0) \<circ> functionIDs)) (\<lambda>unused.
     gbind (gmap (\<lambda>f. follow (fnValue f)) unused) (\<lambda>fs.
     gmodify (\<lambda>s. s\<lparr>ir := (ir s)\<lparr>erasedFunctions := erasedFunctions (ir s) @ fs\<rparr>\<rparr>)))"

text \<open>The passes of \<open>main\<close>.\<close>

definition generate_module :: "environment \<Rightarrow> nat \<Rightarrow> nat \<Rightarrow> unit gen" where
  "generate_module E k root =
     gbind (output_code E k 0 root) (\<lambda>_. gbind (output_code E k 1 root) (\<lambda>_. gbind (output_code E k 2 root) (\<lambda>_.
     removeUnusedPrototypes)))"

end
