(* ===== verification/Codegen_Logic.thy ===== *)
theory Codegen_Logic
  imports Codegen_Definitions
begin

text \<open>
  A logic for the methods of the generator. What is proved of all of them together is an invariant of the
  state, a relation between the state before and after, and the failures that are possible: \<open>ok I R E m\<close>. The
  locales list what is asked of the three for the assignments the methods make, in groups:
  \<^item> \<open>core\<close>: nodes, tokens, reports, instructions other than branches, and the tables;
  \<^item> \<open>control\<close>: blocks, the insertion point and branches, with the statements that use them;
  \<^item> \<open>stacks\<close>: the stacks of struct names and of piped values, with the methods that use them.
  \<open>generator_logic\<close> asks for the statements and methods of the last two groups as wholes, since a relation may
  hold of them and not of their steps; it gives the result for the generator. The number \<open>rank\<close> of a node is
  above that of its children, and bounds the depth of calls.
\<close>

section \<open>The judgement\<close>

definition ok :: "(gstate \<Rightarrow> bool) \<Rightarrow> (gstate \<Rightarrow> gstate \<Rightarrow> bool) \<Rightarrow> (failure \<Rightarrow> bool) \<Rightarrow> 'a gen \<Rightarrow> bool" where
  "ok I R E m \<longleftrightarrow> (\<forall>s. I s \<longrightarrow> (case m s of Inl e \<Rightarrow> E e | Inr (x, s') \<Rightarrow> I s' \<and> R s s'))"

lemma okI:
  "(\<And>s e. I s \<Longrightarrow> m s = Inl e \<Longrightarrow> E e) \<Longrightarrow> (\<And>s x s'. I s \<Longrightarrow> m s = Inr (x, s') \<Longrightarrow> I s' \<and> R s s') \<Longrightarrow> ok I R E m"
  by (auto simp: ok_def split: sum.split prod.split)

lemma ok_Inr: "ok I R E m \<Longrightarrow> I s \<Longrightarrow> m s = Inr (x, s') \<Longrightarrow> I s' \<and> R s s'"
  by (auto simp: ok_def)

lemma ok_Inl: "ok I R E m \<Longrightarrow> I s \<Longrightarrow> m s = Inl e \<Longrightarrow> E e"
  by (auto simp: ok_def)

text \<open>An assignment.\<close>

definition step :: "(gstate \<Rightarrow> bool) \<Rightarrow> (gstate \<Rightarrow> gstate \<Rightarrow> bool) \<Rightarrow> gstate \<Rightarrow> gstate \<Rightarrow> bool" where
  "step I R s s' \<longleftrightarrow> (I s \<longrightarrow> I s' \<and> R s s')"

lemma ok_modify: "(\<And>s. step I R s (f s)) \<Longrightarrow> ok I R E (gmodify f)"
  by (simp add: ok_def step_def gmodify_def)

lemma ok_if: "(b \<Longrightarrow> ok I R E m) \<Longrightarrow> (\<not> b \<Longrightarrow> ok I R E m') \<Longrightarrow> ok I R E (if b then m else m')"
  by simp

lemma ok_let: "ok I R E (f x) \<Longrightarrow> ok I R E (Let x f)"
  by simp

lemma ok_option:
  "(x = None \<Longrightarrow> ok I R E m) \<Longrightarrow> (\<And>v. x = Some v \<Longrightarrow> ok I R E (f v)) \<Longrightarrow> ok I R E (case x of None \<Rightarrow> m | Some v \<Rightarrow> f v)"
  by (cases x) auto

lemma ok_sum:
  "(\<And>v. x = Inl v \<Longrightarrow> ok I R E (f v)) \<Longrightarrow> (\<And>v. x = Inr v \<Longrightarrow> ok I R E (g v)) \<Longrightarrow> ok I R E (case x of Inl v \<Rightarrow> f v | Inr v \<Rightarrow> g v)"
  by (cases x) auto

lemma ok_prod: "(\<And>a b. x = (a, b) \<Longrightarrow> ok I R E (f a b)) \<Longrightarrow> ok I R E (case x of (a, b) \<Rightarrow> f a b)"
  by (cases x) auto

lemma ok_list:
  "(x = [] \<Longrightarrow> ok I R E m) \<Longrightarrow> (\<And>a as. x = a # as \<Longrightarrow> ok I R E (f a as)) \<Longrightarrow> ok I R E (case x of [] \<Rightarrow> m | a # as \<Rightarrow> f a as)"
  by (cases x) auto

lemma ok_gresult:
  "(x = Nullptr \<Longrightarrow> ok I R E m) \<Longrightarrow> (\<And>v. x = Val v \<Longrightarrow> ok I R E (f v)) \<Longrightarrow> (\<And>t. x = Ty t \<Longrightarrow> ok I R E (g t)) \<Longrightarrow>
   ok I R E (case x of Nullptr \<Rightarrow> m | Val v \<Rightarrow> f v | Ty t \<Rightarrow> g t)"
  by (cases x) auto

lemma ok_lookup:
  "(\<And>i. x = Found i \<Longrightarrow> ok I R E (f i)) \<Longrightarrow> ok I R E m \<Longrightarrow> ok I R E m' \<Longrightarrow>
   ok I R E (case x of Found i \<Rightarrow> f i | Needs_Exact \<Rightarrow> m | Not_Found \<Rightarrow> m')"
  by (cases x) auto

lemma ok_llvalue:
  "(\<And>n t. ok I R E (f1 n t)) \<Longrightarrow> (\<And>n t. ok I R E (f2 n t)) \<Longrightarrow> (\<And>w i. ok I R E (f3 w i)) \<Longrightarrow> (\<And>x. ok I R E (f4 x)) \<Longrightarrow>
   (\<And>x. ok I R E (f5 x)) \<Longrightarrow> (\<And>f n t. ok I R E (f6 f n t)) \<Longrightarrow> (\<And>f. ok I R E (f7 f)) \<Longrightarrow>
   ok I R E (case x of Instr n t \<Rightarrow> f1 n t | Stack_Slot n t \<Rightarrow> f2 n t | Const_Int w i \<Rightarrow> f3 w i | Const_Double d \<Rightarrow> f4 d
     | Const_String d \<Rightarrow> f5 d | Argument f n t \<Rightarrow> f6 f n t | Function_Ptr f \<Rightarrow> f7 f)"
  by (cases x) auto

lemma ok_lltype:
  "ok I R E m1 \<Longrightarrow> (\<And>w. ok I R E (m2 w)) \<Longrightarrow> ok I R E m3 \<Longrightarrow> ok I R E m4 \<Longrightarrow> ok I R E m5 \<Longrightarrow> ok I R E m6 \<Longrightarrow>
   (\<And>k. ok I R E (m7 k)) \<Longrightarrow> (\<And>k t. ok I R E (m8 k t)) \<Longrightarrow>
   ok I R E (case x of Void_Ty \<Rightarrow> m1 | Int_Ty w \<Rightarrow> m2 w | Half_Ty \<Rightarrow> m3 | Float_Ty \<Rightarrow> m4 | Double_Ty \<Rightarrow> m5 | Pointer_Ty \<Rightarrow> m6
     | Struct_Ty k \<Rightarrow> m7 k | Array_Ty k t \<Rightarrow> m8 k t)"
  by (cases x) auto

lemmas ok_cases = ok_if ok_let ok_option ok_sum ok_prod ok_list ok_gresult ok_lookup ok_llvalue ok_lltype

text \<open>The instructions that end a block, and those that go to another one.\<close>

fun terminator :: "'v instruction \<Rightarrow> bool" where
  "terminator (Ret v) \<longleftrightarrow> True"
| "terminator (Br b) \<longleftrightarrow> True"
| "terminator (Cond_Br v b c) \<longleftrightarrow> True"
| "terminator _ \<longleftrightarrow> False"

fun branch :: "'v instruction \<Rightarrow> bool" where
  "branch (Br b) \<longleftrightarrow> True"
| "branch (Cond_Br v b c) \<longleftrightarrow> True"
| "branch _ \<longleftrightarrow> False"

lemma branch_terminator: "\<not> terminator i \<Longrightarrow> \<not> branch i"
  by (cases i) auto

abbreviation append_instruction :: "llvalue instruction \<Rightarrow> module_ir \<Rightarrow> module_ir" where
  "append_instruction i m \<equiv> m\<lparr>emitted := emitted m @ [(insertBlock m, i)]\<rparr>"

text \<open>An assignment to members of a node that do not belong to the tree.\<close>

definition attribute :: "(gnode \<Rightarrow> gnode) \<Rightarrow> bool" where
  "attribute f \<longleftrightarrow> (\<forall>nd. g_parent (f nd) = g_parent nd \<and> g_children (f nd) = g_children nd \<and> g_type (f nd) = g_type nd
     \<and> g_token (f nd) = g_token nd \<and> g_depth (f nd) = g_depth nd \<and> g_isExtern (f nd) = g_isExtern nd \<and> g_codegen (f nd) = g_codegen nd)"

section \<open>What the builder computes\<close>

text \<open>The conversions and operators of \<open>Llvm_Values\<close> ask the builder for instructions that compute, at the
  insertion point, and fail only by a report or by undefined behaviour.\<close>

definition computes :: "module_ir \<Rightarrow> module_ir \<Rightarrow> bool" where
  "computes m m' \<longleftrightarrow> (\<exists>is. list_all (\<lambda>i. \<not> terminator i) is \<and> m' = m\<lparr>emitted := emitted m @ map (Pair (insertBlock m)) is\<rparr>)"

lemma computes_refl [simp]: "computes m m"
  by (auto simp: computes_def intro!: exI [of _ "[]"])

lemma computes_trans: "computes m m' \<Longrightarrow> computes m' m'' \<Longrightarrow> computes m m''"
proof -
  assume "computes m m'" "computes m' m''"
  then obtain "is" js where "list_all (\<lambda>i. \<not> terminator i) is" "m' = m\<lparr>emitted := emitted m @ map (Pair (insertBlock m)) is\<rparr>"
    "list_all (\<lambda>i. \<not> terminator i) js" "m'' = m'\<lparr>emitted := emitted m' @ map (Pair (insertBlock m')) js\<rparr>"
    by (auto simp: computes_def)
  then show ?thesis by (auto simp: computes_def intro!: exI [of _ "is @ js"])
qed

lemma computes_append: "\<not> terminator i \<Longrightarrow> computes m (append_instruction i m)"
  by (auto simp: computes_def intro!: exI [of _ "[i]"])

lemma computes_build: "\<not> terminator i \<Longrightarrow> build (ir_builder F) i m = (v, m') \<Longrightarrow> computes m m'"
  using computes_append [of i m] by (auto simp: ir_builder_def place_def split: option.splits if_splits)

definition harmless :: "('a \<times> module_ir) outcome \<Rightarrow> module_ir \<Rightarrow> bool" where
  "harmless r m \<longleftrightarrow> (case r of Inl e \<Rightarrow> e \<noteq> Out_Of_Fuel | Inr (x, m') \<Rightarrow> computes m m')"

lemma harmless_Inr: "harmless r m \<Longrightarrow> r = Inr (x, m') \<Longrightarrow> computes m m'"
  and harmless_Inl: "harmless r m \<Longrightarrow> r = Inl e \<Longrightarrow> e \<noteq> Out_Of_Fuel"
  by (auto simp: harmless_def)

lemma harmless_no_value: "harmless (no_value t m) m"
  by (auto simp: harmless_def no_value_def report_at_def)

lemma harmless_built: "\<not> terminator i \<Longrightarrow> harmless (built (ir_builder F) i m) m"
  by (cases "build (ir_builder F) i m") (auto simp: harmless_def built_def dest: computes_build)

lemma harmless_castValue: "harmless (castValue (ir_builder F) v d ss ts t b m) m"
proof -
  have "harmless (let (w, m') = build (ir_builder F) (Convert c v dest) m in Inr (Some w, m')) m" for c dest
    using harmless_built [of "Convert c v dest" F m] by (simp add: built_def split_beta)
  moreover have "harmless (rbind (report_at t) (\<lambda>_. Inr (None :: llvalue option, m))) m" by (auto simp: harmless_def report_at_def)
  moreover have "harmless (Inr (Some v, m)) m" "harmless (Inl Undefined_Behaviour :: (llvalue option \<times> module_ir) outcome) m"
    by (simp_all add: harmless_def)
  ultimately show ?thesis
    unfolding castValue_def by (simp split: option.split)
qed

lemma harmless_binary_by_category: "harmless (binary_by_category (ir_builder F) ty t l r m) m"
  unfolding binary_by_category_def generateIntegerBinaryOp_def generateFloatBinaryOp_def generatePointerBinaryOp_def
  by (auto split: ValueCategory.split option.split intro!: harmless_no_value harmless_built)

lemma castToHighestAccuracy_harmless:
  "castToHighestAccuracy (ir_builder F) sd l r t signs m = Inr (l', r', signs', err, m') \<Longrightarrow> computes m m'"
  "castToHighestAccuracy (ir_builder F) sd l r t signs m = Inl e \<Longrightarrow> e \<noteq> Out_Of_Fuel"
  unfolding castToHighestAccuracy_def right_to_left_def Let_def split_beta
  by (auto simp: rbind_eq_Inr rbind_eq_Inl report_at_def split: if_splits
      dest: harmless_Inr [OF harmless_castValue] harmless_Inl [OF harmless_castValue])

lemma binary_operation_harmless:
  "binary_operation (ir_builder F) sd ty t l r signs m = Inr (v, signs', err, m') \<Longrightarrow> computes m m'"
  "binary_operation (ir_builder F) sd ty t l r signs m = Inl e \<Longrightarrow> e \<noteq> Out_Of_Fuel"
  unfolding binary_operation_def
  by (auto simp: rbind_eq_Inr rbind_eq_Inl report_at_def split: if_splits option.splits
      dest!: castToHighestAccuracy_harmless harmless_Inr [OF harmless_binary_by_category] harmless_Inl [OF harmless_binary_by_category]
        harmless_Inr [OF harmless_no_value] harmless_Inl [OF harmless_no_value] intro: computes_trans)

section \<open>What is asked of an invariant, a relation and the failures\<close>

locale judgement =
  fixes I :: "gstate \<Rightarrow> bool" and R :: "gstate \<Rightarrow> gstate \<Rightarrow> bool" and E :: "failure \<Rightarrow> bool"
  assumes relation_refl: "R s s"
    and relation_trans: "R s t \<Longrightarrow> R t u \<Longrightarrow> R s u"
    and failures: "e \<noteq> Out_Of_Fuel \<Longrightarrow> E e"
begin

lemma ok_gret: "ok I R E (gret x)"
  by (simp add: ok_def gret_def relation_refl)

lemma ok_gets: "ok I R E (gets f)"
  by (simp add: ok_def gets_def relation_refl)

lemma ok_glift: "(\<And>e. m = Inl e \<Longrightarrow> e \<noteq> Out_Of_Fuel) \<Longrightarrow> ok I R E (glift m)"
  by (cases m) (simp_all add: ok_def glift_def relation_refl failures)

lemma ok_ub: "ok I R E ub" and ok_exit: "ok I R E (gfail (Exited w))"
  by (simp_all add: ok_def gfail_def failures)

lemma ok_follow: "ok I R E (follow p)"
  by (cases p) (simp_all add: follow_def ok_gret ok_ub)

text \<open>In a bind the second part may use what the first returns.\<close>

lemma ok_bind_result:
  assumes m: "ok I R E m" and P: "\<And>s x s'. I s \<Longrightarrow> m s = Inr (x, s') \<Longrightarrow> P x" and f: "\<And>x. P x \<Longrightarrow> ok I R E (f x)"
  shows "ok I R E (gbind m f)"
proof (rule okI)
  fix s e assume s: "I s" and "gbind m f s = Inl e"
  then consider "m s = Inl e" | x t where "m s = Inr (x, t)" "f x t = Inl e" by (auto simp: gbind_def rbind_eq_Inl)
  then show "E e"
  proof cases
    case 1
    then show ?thesis using ok_Inl [OF m s] by simp
  next
    case (2 x t)
    then show ?thesis using ok_Inr [OF m s 2(1)] ok_Inl [OF f [OF P [OF s 2(1)]]] by blast
  qed
next
  fix s y u assume s: "I s" and "gbind m f s = Inr (y, u)"
  then obtain x t where x: "m s = Inr (x, t)" "f x t = Inr (y, u)" by (auto simp: gbind_Inr)
  have t: "I t" "R s t" using ok_Inr [OF m s x(1)] by auto
  then show "I u \<and> R s u" using ok_Inr [OF f [OF P [OF s x(1)]] t(1) x(2)] relation_trans by blast
qed

lemma ok_bind: "ok I R E m \<Longrightarrow> (\<And>x. ok I R E (f x)) \<Longrightarrow> ok I R E (gbind m f)"
  by (rule ok_bind_result [where P = "\<lambda>_. True"]) simp_all

lemma ok_gmap: "(\<And>x. x \<in> set xs \<Longrightarrow> ok I R E (f x)) \<Longrightarrow> ok I R E (gmap f xs)"
  by (induction xs) (auto intro!: ok_bind ok_gret)

lemma ok_gloop: "(\<And>x acc. x \<in> set xs \<Longrightarrow> ok I R E (f x acc)) \<Longrightarrow> ok I R E (gloop f xs acc)"
  by (induction xs arbitrary: acc) (auto intro!: ok_bind ok_gret ok_sum)

lemmas ok_basic = ok_gret ok_gets ok_ub ok_exit ok_follow

lemma step_trans: "step I R s t \<Longrightarrow> step I R t u \<Longrightarrow> step I R s u"
  by (auto simp: step_def intro: relation_trans)

end

section \<open>Expressions\<close>

locale core = judgement +
  fixes rank :: "nat \<Rightarrow> nat"
  assumes child_below: "I s \<Longrightarrow> c \<in> set (g_children (nodeStore s n)) \<Longrightarrow> E Out_Of_Fuel \<or> rank c < rank n"
    and parent_above: "I s \<Longrightarrow> g_depth (nodeStore s n) \<noteq> 0 \<Longrightarrow> g_parent (nodeStore s n) = Some p \<Longrightarrow>
      E Out_Of_Fuel \<or> g_depth (nodeStore s p) < g_depth (nodeStore s n)"
    and no_sources: "I s \<Longrightarrow> map_of (structDefinitions s) name = Some sd \<Longrightarrow> sourceNode sd = Some k \<Longrightarrow> E Out_Of_Fuel"
    and set_attribute: "attribute f \<Longrightarrow> step I R s (s\<lparr>nodeStore := (nodeStore s)(n := f (nodeStore s n))\<rparr>)"
    and set_tokens: "step I R s (s\<lparr>tokenStore := tks\<rparr>)"
    and set_report: "step I R s (s\<lparr>diagnostics := diagnostics s @ [t]\<rparr>)"
    and set_error: "step I R s (s\<lparr>diagnostics := diagnostics s @ [t], wasError := True\<rparr>)"
    and set_instruction: "\<not> branch i \<Longrightarrow> step I R s (s\<lparr>ir := append_instruction i (ir s)\<rparr>)"
    and set_signs: "step I R s (s\<lparr>typeSigns := signs\<rparr>)"
    and set_unresolved: "step I R s (s\<lparr>unresolvedTypes := names\<rparr>)"
    and set_strings: "step I R s (s\<lparr>globalStrings := strs\<rparr>)"
    and set_member_call: "step I R s (s\<lparr>isCallMemberFunction := b\<rparr>)"
    and set_element_types: "step I R s (s\<lparr>lastRetrievedElementType := tys\<rparr>)"
    and set_uses: "step I R s (s\<lparr>functionIDs := (functionIDs s)[j := (functionIDs s ! j)\<lparr>uses := u\<rparr>]\<rparr>)"
    and add_function_id: "step I R s (s\<lparr>functionIDs := functionIDs s @ [fid]\<rparr>)"
    and add_function: "step I R s (s\<lparr>ir := (ir s)\<lparr>moduleFunctions := moduleFunctions (ir s) @ [fn]\<rparr>\<rparr>)"
begin

definition below :: "nat \<Rightarrow> nat \<Rightarrow> bool" where
  "below c n \<longleftrightarrow> E Out_Of_Fuel \<or> rank c < rank n"

definition within :: "nat \<Rightarrow> nat \<Rightarrow> bool" where
  "within n k \<longleftrightarrow> E Out_Of_Fuel \<or> rank n < k"

lemma below_trans: "below a b \<Longrightarrow> below b c \<Longrightarrow> below a c"
  by (auto simp: below_def)

lemma below_within: "below c n \<Longrightarrow> within n k \<Longrightarrow> within c k"
  by (auto simp: below_def within_def)

lemma below_within_Suc: "below c n \<Longrightarrow> within n (Suc k) \<Longrightarrow> within c k"
  by (auto simp: below_def within_def)

lemma ok_bind_children: "(\<And>cs. list_all (\<lambda>c. below c n) cs \<Longrightarrow> ok I R E (f cs)) \<Longrightarrow> ok I R E (gbind (children n) f)"
  by (rule ok_bind_result [where P = "list_all (\<lambda>c. below c n)"])
    (auto simp: children_def gets_def below_def list_all_iff ok_def relation_refl dest: child_below)

lemma ok_bind_child: "(\<And>c. below c n \<Longrightarrow> ok I R E (f c)) \<Longrightarrow> ok I R E (gbind (child n i) f)"
  unfolding child_def gbind_assoc
  by (rule ok_bind_children) (auto intro: ok_cases ok_basic simp: list_all_iff)

lemma ok_node: "ok I R E (node n)" and ok_first_of: "ok I R E (first_of n)" and ok_token_at: "ok I R E (token_at n)"
  and ok_children: "ok I R E (children n)" and ok_type_string: "ok I R E (type_string t)"
  and ok_function_id: "ok I R E (function_id i)" and ok_function_info: "ok I R E (function_info f)"
  by (simp_all add: node_def first_of_def token_at_def children_def type_string_def function_id_def function_info_def ok_gets)

lemma ok_child: "ok I R E (child n i)"
  unfolding child_def by (intro ok_bind ok_children ok_cases ok_basic)

lemma ok_set_node: "attribute f \<Longrightarrow> ok I R E (set_node n f)"
  unfolding set_node_def by (intro ok_modify set_attribute)

lemma ok_set_named_value: "ok I R E (set_named_value n name v)"
  unfolding set_named_value_def by (rule ok_set_node) (simp add: attribute_def)

lemma ok_set_first: "ok I R E (set_first n f)"
  unfolding set_first_def by (intro ok_modify set_tokens)

lemma ok_emit: "\<not> branch i \<Longrightarrow> ok I R E (emit F i)"
  using set_instruction [of i]
  by (auto simp: ok_def emit_def ir_builder_def place_def step_def relation_refl split: option.split)

lemma ok_emits: "\<not> branch i \<Longrightarrow> ok I R E (emits F i)"
  unfolding emits_def by (intro ok_bind ok_emit ok_gret)

lemma ok_reported: "ok I R E (reported t)"
  unfolding reported_def by (intro ok_modify set_report)

lemma ok_error_at: "ok I R E (error_at t)"
  using set_error [of _ t] by (auto simp: ok_def error_at_def reported_def gbind_def gmodify_def step_def)

lemma report_at_failure: "report_at t = Inl e \<Longrightarrow> e \<noteq> Out_Of_Fuel"
  by (auto simp: report_at_def split: if_splits)

lemma ok_report: "ok I R E (report n msg)" and ok_report_error: "ok I R E (report_error n msg)"
  unfolding report_def report_error_def
  by (intro ok_bind ok_token_at ok_glift ok_reported ok_error_at report_at_failure; assumption)+

lemma ok_failed: "ok I R E (failed n msg)"
  unfolding failed_def by (intro ok_bind ok_report_error ok_gret)

lemma ok_no_generator: "ok I R E (no_generator at n)"
  unfolding no_generator_def by (intro ok_bind ok_node ok_failed)

lemma ok_has_generator: "ok I R E (has_generator n)"
  unfolding has_generator_def by (intro ok_bind ok_node ok_gret)

lemma ok_exit_on_error: "ok I R E exit_on_error"
  unfolding exit_on_error_def by (intro ok_bind ok_cases ok_basic)

lemma ok_as_value: "ok I R E (as_value r)" and ok_as_type: "ok I R E (as_type r)"
  unfolding as_value_def as_type_def by (intro ok_cases ok_basic)+

lemma ok_current_function: "ok I R E current_function"
  unfolding current_function_def by (intro ok_bind ok_basic)

lemma ok_alloca: "ok I R E (CreateEntryBlockAlloca F f t name)"
  unfolding CreateEntryBlockAlloca_def by (intro ok_bind ok_basic ok_emit) simp

lemma ok_allocated_type: "ok I R E (allocated_type v)"
  unfolding allocated_type_def by (intro ok_cases ok_basic)

lemma ok_pointer_levels: "ok I R E (pointer_levels k t)"
  unfolding pointer_levels_def by (intro ok_cases ok_bind ok_basic)

lemma ok_sign_of: "ok I R E (sign_of name)"
  unfolding sign_of_def by (intro ok_bind ok_basic ok_cases ok_modify set_signs)

lemma ok_resolved: "ok I R E (resolved at r)"
  unfolding resolved_def by (intro ok_cases ok_bind ok_report_error ok_basic)

lemma ok_function_of: "ok I R E (function_of f)"
  unfolding function_of_def by (rule ok_follow)

lemma ok_use_function: "ok I R E (use_function i)"
  unfolding use_function_def by (intro ok_modify set_uses)

lemma ok_struct_named: "ok I R E (struct_named name)"
  unfolding struct_named_def by (intro ok_bind ok_basic)

lemma ok_push_element_type: "ok I R E (push_element_type t)"
  unfolding push_element_type_def by (intro ok_modify set_element_types)

lemma ok_set_member_call: "ok I R E (gmodify (\<lambda>s. s\<lparr>isCallMemberFunction := b\<rparr>))"
  by (intro ok_modify set_member_call)

lemma ok_pop_element_type: "ok I R E pop_element_type"
  unfolding pop_element_type_def by (intro ok_bind ok_cases ok_basic ok_modify set_element_types)

lemmas ok_access = ok_basic ok_node ok_first_of ok_token_at ok_children ok_child ok_type_string ok_function_id ok_function_info ok_set_named_value
  ok_set_first ok_report ok_failed ok_no_generator ok_has_generator ok_exit_on_error ok_as_value ok_as_type ok_current_function
  ok_alloca ok_allocated_type ok_pointer_levels ok_sign_of ok_resolved ok_function_of ok_use_function ok_struct_named
  ok_push_element_type ok_pop_element_type ok_set_member_call ok_error_at ok_report_error

subsection \<open>Calls of other methods\<close>

definition calls_ok :: "generator \<Rightarrow> nat \<Rightarrow> bool" where
  "calls_ok rec n \<longleftrightarrow> (\<forall>c p. below c n \<longrightarrow> ok I R E (rec c p))"

lemma calls_okD: "calls_ok rec n \<Longrightarrow> below c n \<Longrightarrow> ok I R E (rec c p)"
  by (simp add: calls_ok_def)

lemma calls_ok_below: "calls_ok rec n \<Longrightarrow> below c n \<Longrightarrow> calls_ok rec c"
  by (auto simp: calls_ok_def intro: below_trans)

lemma ok_call_node: "calls_ok rec n \<Longrightarrow> below c n \<Longrightarrow> ok I R E (call_node rec c pass)"
  unfolding call_node_def by (intro ok_bind ok_node ok_cases ok_basic calls_okD)

lemma ok_value_node: "calls_ok rec n \<Longrightarrow> below c n \<Longrightarrow> ok I R E (value_node rec c pass)"
  unfolding value_node_def by (intro ok_bind ok_call_node ok_as_value)

lemma ok_checked_value: "calls_ok rec n \<Longrightarrow> below c n \<Longrightarrow> ok I R E (checked_value rec c pass)"
  unfolding checked_value_def by (intro ok_bind ok_value_node ok_exit_on_error ok_gret)

lemma ok_type_from_string:
  assumes "calls_ok rec n"
  shows "ok I R E (getLLVMTypeFromString rec name offset at pass)"
proof -
  let ?found = "\<lambda>s. find_type (structDefinitions s) (currentStructName s) (fst (strip_stars name))"
  have generate: "E Out_Of_Fuel" if "I s" "?found s = Generate k" for s k
    using that no_sources by (auto simp: find_type_def split: option.splits if_splits)
  have "ok I R E (gbind (gets ?found) f)" if "\<And>x. \<forall>k. x = Generate k \<longrightarrow> E Out_Of_Fuel \<Longrightarrow> ok I R E (f x)" for f :: "_ \<Rightarrow> 'a gen"
    using that by (intro ok_bind_result [where P = "\<lambda>x. \<forall>k. x = Generate k \<longrightarrow> E Out_Of_Fuel"] ok_gets)
      (auto simp: gets_def dest: generate)
  note found = this
  have pointers: "ok I R E (if levels \<le> 0 then gret (aType, True) else gbind (follow aType) (\<lambda>ty. gret (Some (pointers_to levels ty), True)))"
    for levels aType by (intro ok_cases ok_bind ok_basic)
  show ?thesis
    unfolding getLLVMTypeFromString_def split_beta Let_def
  proof (rule found)
    fix x :: named_type assume x: "\<forall>k. x = Generate k \<longrightarrow> E Out_Of_Fuel"
    have "ok I R E (call_node rec k pass)" if "x = Generate k" for k
      using ok_call_node [OF assms] x that by (simp add: below_def)
    then show "ok I R E (case x of Type ty \<Rightarrow> if int (snd (strip_stars name) mod 2 ^ 16) + offset \<le> 0 then gret (Some ty, True)
          else gbind (follow (Some ty)) (\<lambda>ty'. gret (Some (pointers_to (int (snd (strip_stars name) mod 2 ^ 16) + offset) ty'), True))
        | Generate k \<Rightarrow> gbind (call_node rec k pass) (\<lambda>r. gbind exit_on_error (\<lambda>_. gbind (as_type r)
            (\<lambda>aType. if int (snd (strip_stars name) mod 2 ^ 16) + offset \<le> 0 then gret (aType, True)
              else gbind (follow aType) (\<lambda>ty. gret (Some (pointers_to (int (snd (strip_stars name) mod 2 ^ 16) + offset) ty), True)))))
        | Null_Source \<Rightarrow> ub
        | Nested_In_Self \<Rightarrow> gbind (report_error at ''Cannot nest struct in self'') (\<lambda>_. gret (None, False))
        | Unresolved name \<Rightarrow> gbind (gmodify (\<lambda>s. s\<lparr>unresolvedTypes := name # unresolvedTypes s\<rparr>)) (\<lambda>_. gret (None, False)))"
      by (cases x; simp only: named_type.case; intro ok_bind pointers ok_access ok_modify set_unresolved; simp)
  qed
qed

lemma ok_bind_type:
  "calls_ok rec n \<Longrightarrow> (\<And>x. ok I R E (f x)) \<Longrightarrow> ok I R E (gbind (getLLVMTypeFromString rec name offset at pass) f)"
  by (intro ok_bind ok_type_from_string)

end

end
