(* ===== verification/Codegen_Frames.thy ===== *)
theory Codegen_Frames
  imports Codegen_Logic
begin

text \<open>
  The rules of the logic for every generation method, by the groups of \<open>Codegen_Logic\<close>, and for the generator as
  a whole. Each follows the text of the method.
\<close>

section \<open>Literals\<close>

lemma hex_run_failure: "hex_run m v d cs = Inl e \<Longrightarrow> e = Undefined_Behaviour"
  by (induction m v d cs rule: hex_run.induct) (auto simp: Let_def split: if_splits)

lemma escape_sequence_failure: "escape_sequence c cs = Inl e \<Longrightarrow> e \<noteq> Out_Of_Fuel"
  by (auto simp: escape_sequence_def Let_def rbind_eq_Inl utf8_def split: option.splits if_splits prod.splits dest: hex_run_failure)

lemma unescape_failure: "unescape t result cs = Inl e \<Longrightarrow> e \<noteq> Out_Of_Fuel"
proof (induction t result cs rule: unescape.induct)
  case (2 t result c cs)
  show ?case
  proof (cases "c = CHR 0x5C")
    case True
    show ?thesis
    proof (cases cs)
      case Nil
      with True 2(3) show ?thesis by (auto simp: unescape.simps(2) rbind_eq_Inl report_at_def split: if_splits)
    next
      case (Cons x rest)
      then consider "escape_sequence x rest = Inl e"
        | bytes rest' where "escape_sequence x rest = Inr (bytes, rest')" "unescape t (result @ bytes) rest' = Inl e"
        using True 2(3) by (auto simp: unescape.simps(2) rbind_eq_Inl)
      then show ?thesis using 2(2) True Cons by cases (auto dest: escape_sequence_failure)
    qed
  next
    case False
    with 2 show ?thesis by (simp add: unescape.simps(2))
  qed
qed (simp add: unescape.simps)

context core
begin

section \<open>Conversions and operations\<close>

lemma step_computes: "computes (ir s) m \<Longrightarrow> step I R s (s\<lparr>ir := m\<rparr>)"
proof -
  have "step I R s (s\<lparr>ir := (ir s)\<lparr>emitted := emitted (ir s) @ map (Pair (insertBlock (ir s))) is\<rparr>\<rparr>)"
    if "list_all (\<lambda>i. \<not> terminator i) is" for "is"
    using that
  proof (induction "is" rule: rev_induct)
    case Nil
    then show ?case by (simp add: step_def relation_refl)
  next
    case (snoc i js)
    let ?t = "s\<lparr>ir := (ir s)\<lparr>emitted := emitted (ir s) @ map (Pair (insertBlock (ir s))) js\<rparr>\<rparr>"
    have "\<not> branch i" using snoc.prems by (simp add: branch_terminator)
    then have "step I R s ?t" and "step I R ?t (?t\<lparr>ir := append_instruction i (ir ?t)\<rparr>)"
      using snoc set_instruction [of i ?t] by simp_all
    then have "step I R s (?t\<lparr>ir := append_instruction i (ir ?t)\<rparr>)" by (rule step_trans)
    then show ?case by simp
  qed
  then show "computes (ir s) m \<Longrightarrow> step I R s (s\<lparr>ir := m\<rparr>)" by (auto simp: computes_def)
qed

lemma step_reports: "step I R s (s\<lparr>diagnostics := diagnostics s @ ts\<rparr>)"
proof (induction ts rule: rev_induct)
  case Nil
  then show ?case by (simp add: step_def relation_refl)
next
  case (snoc t ts)
  have "step I R (s\<lparr>diagnostics := diagnostics s @ ts\<rparr>)
      (s\<lparr>diagnostics := diagnostics s @ ts, diagnostics := (diagnostics s @ ts) @ [t]\<rparr>)"
    using set_report [of "s\<lparr>diagnostics := diagnostics s @ ts\<rparr>" t] by simp
  with snoc step_trans show ?case by fastforce
qed

lemma ok_cast_value: "ok I R E (cast_value F v ty ss ts at b)"
  unfolding cast_value_def
proof (intro ok_bind ok_token_at okI)
  let ?c = "\<lambda>t s. castValue (ir_builder F) v ty ss ts t b (ir s)"
  fix t s e assume "rbind (?c t s) (\<lambda>(w, m). let s = s\<lparr>ir := m\<rparr> in Inr (w, if w = None then s\<lparr>diagnostics := diagnostics s @ [t]\<rparr> else s)) = Inl e"
  then have "?c t s = Inl e" by (auto simp: rbind_eq_Inl Let_def)
  then show "E e" using harmless_Inl [OF harmless_castValue] failures by blast
next
  let ?c = "\<lambda>t s. castValue (ir_builder F) v ty ss ts t b (ir s)"
  fix t s x s' assume s: "I s"
    and "rbind (?c t s) (\<lambda>(w, m). let s = s\<lparr>ir := m\<rparr> in Inr (w, if w = None then s\<lparr>diagnostics := diagnostics s @ [t]\<rparr> else s)) = Inr (x, s')"
  then obtain m where m: "?c t s = Inr (x, m)"
      "s' = (if x = None then s\<lparr>ir := m, diagnostics := diagnostics s @ [t]\<rparr> else s\<lparr>ir := m\<rparr>)"
    by (auto simp: rbind_eq_Inr Let_def)
  have "step I R s (s\<lparr>ir := m\<rparr>)" using harmless_Inr [OF harmless_castValue m(1)] by (rule step_computes)
  moreover have "step I R (s\<lparr>ir := m\<rparr>) (s\<lparr>ir := m, diagnostics := diagnostics s @ [t]\<rparr>)"
    using set_report [of "s\<lparr>ir := m\<rparr>" t] by simp
  ultimately have "step I R s s'" using m(2) step_trans by (auto split: if_splits)
  then show "I s' \<and> R s s'" using s by (simp add: step_def)
qed

lemma ok_builtin_binary: "ok I R E (builtin_binary F n L R')"
  unfolding builtin_binary_def
proof (intro ok_bind ok_node ok_token_at okI)
  let ?b = "\<lambda>ty t s. binary_operation (ir_builder F) (structDefinitions s) ty t L R' (typeSigns s) (ir s)"
  let ?f = "\<lambda>t s (v, signs, err, m). let s = s\<lparr>ir := m, typeSigns := signs, wasError := (wasError s \<or> err)\<rparr>
    in Inr (of_value v, s\<lparr>diagnostics := diagnostics s @ (if err then [t, t] else if v = None then [t] else [])\<rparr>)"
  {
    fix nd :: gnode and t s e assume "rbind (?b (g_type nd) t s) (?f t s) = Inl e"
    then have "?b (g_type nd) t s = Inl e" by (auto simp: rbind_eq_Inl Let_def)
    then show "E e" using binary_operation_harmless(2) failures by blast
  next
    fix nd :: gnode and t s x s' assume s: "I s" and "rbind (?b (g_type nd) t s) (?f t s) = Inr (x, s')"
    then obtain v signs err m where m: "?b (g_type nd) t s = Inr (v, signs, err, m)"
        "s' = s\<lparr>ir := m, typeSigns := signs, wasError := (wasError s \<or> err),
          diagnostics := diagnostics s @ (if err then [t, t] else if v = None then [t] else [])\<rparr>"
      by (fastforce simp: rbind_eq_Inr Let_def)
    let ?t = "s\<lparr>ir := m, typeSigns := signs\<rparr>"
    have t: "step I R s ?t"
      using step_trans [OF step_computes set_signs, of s m signs] binary_operation_harmless(1) [OF m(1)] by simp
    have "step I R ?t s'"
    proof (cases err)
      case True
      have "step I R ?t (?t\<lparr>diagnostics := diagnostics s @ [t], wasError := True\<rparr>)" using set_error [of ?t t] by simp
      moreover have "step I R (?t\<lparr>diagnostics := diagnostics s @ [t], wasError := True\<rparr>) s'"
        using set_report [of "?t\<lparr>diagnostics := diagnostics s @ [t], wasError := True\<rparr>" t] True m(2) by simp
      ultimately show ?thesis by (rule step_trans)
    next
      case False
      then have "s' = ?t\<lparr>diagnostics := diagnostics ?t @ (if v = None then [t] else [])\<rparr>" using m(2) by simp
      then show ?thesis using step_reports [of ?t] by simp
    qed
    with t have "step I R s s'" by (rule step_trans)
    then show "I s' \<and> R s s'" using s by (simp add: step_def)
  }
qed

lemmas ok_binds = ok_bind_child ok_bind_children ok_bind_type ok_bind
lemmas ok_work = ok_emit ok_emits ok_set_node ok_cast_value ok_builtin_binary ok_checked_value ok_value_node ok_call_node ok_gmap ok_gloop

section \<open>The methods of expressions\<close>

lemma ok_unescaped: "ok I R E (unescaped n)"
proof -
  have "e \<noteq> Out_Of_Fuel" if "without_quotes t = Inl e" for t e using that by (auto simp: without_quotes_def split: if_splits)
  moreover have "e \<noteq> Out_Of_Fuel" if "unescapeString t u = Inl e" for t u e using that unescape_failure by (auto simp: unescapeString_def)
  ultimately show ?thesis unfolding unescaped_def by (intro ok_bind ok_cases ok_glift ok_access)
qed

lemma ok_glift_failure: "(\<And>e. m = Inl e \<Longrightarrow> E e) \<Longrightarrow> ok I R E (glift m)"
  by (cases m) (simp_all add: ok_def glift_def relation_refl)

lemma ok_generateConstant:
  assumes "\<And>x e. stod x = Inl e \<Longrightarrow> E e"
  shows "ok I R E (generateConstant_run stod n)"
proof -
  have "E e" if "stoi t = Inl e" for t e using that failures by (auto simp: stoi_def Let_def split: if_splits)
  then show ?thesis
    unfolding generateConstant_run_def
    by (intro ok_bind ok_cases ok_glift_failure ok_access ok_unescaped ok_modify set_strings) (auto dest: assms)
qed

lemma ok_pointed_type: "within n k \<Longrightarrow> ok I R E (pointed_type k n level)"
proof (induction k arbitrary: n level)
  case 0
  then show ?case by (auto simp: ok_def gfail_def within_def)
next
  case (Suc k)
  then show ?case unfolding pointed_type.simps by (intro ok_binds ok_cases ok_access) (auto intro: below_within_Suc)
qed

text \<open>The climb ends: a node that is not at depth 0 is deeper than its parent. It changes nothing.\<close>

lemma named_in_result: "\<exists>v. named_in cs childNode identifier s = Inr (v, s)"
  by (induction cs) (auto simp: gret_def gbind_def node_def gets_def split: option.split)

lemma find_up_result:
  assumes "I s" and "E Out_Of_Fuel \<or> 0 < k \<and> (\<forall>m. n = Some m \<longrightarrow> g_depth (nodeStore s m) < k)"
  shows "case find_up k n childNode identifier s of Inl e \<Rightarrow> E e | Inr (x, s') \<Rightarrow> s' = s"
  using assms(2)
proof (induction k arbitrary: n childNode)
  case 0
  then show ?case by (cases n) (auto simp: gfail_def)
next
  case (Suc k)
  show ?case
  proof (cases n)
    case None
    then show ?thesis by (simp add: follow_def gfail_def gbind_def failures)
  next
    case (Some m)
    let ?nd = "nodeStore s m"
    obtain v where v: "named_in (g_children ?nd) childNode identifier s = Inr (v, s)" using named_in_result by blast
    have up: "case find_up k (g_parent ?nd) (Some m) identifier s of Inl e \<Rightarrow> E e | Inr (x, s') \<Rightarrow> s' = s" if "g_depth ?nd \<noteq> 0"
      using parent_above [OF assms(1) that] Suc.prems Some that by (intro Suc.IH) auto
    show ?thesis
      using v up Some
      by (auto simp: follow_def gret_def gbind_def node_def gets_def split: option.split)
  qed
qed

lemma ok_findNamedValue: "ok I R E (findNamedValue n childNode identifier)"
proof (cases n)
  case None
  then show ?thesis by (simp add: findNamedValue_def follow_def ok_ub)
next
  case (Some m)
  show ?thesis
    unfolding ok_def
  proof (intro allI impI)
    fix s assume s: "I s"
    have "case find_up (Suc (g_depth (nodeStore s m))) n childNode identifier s of Inl e \<Rightarrow> E e | Inr (x, s') \<Rightarrow> s' = s"
      using Some by (intro find_up_result s) simp
    then show "case findNamedValue n childNode identifier s of Inl e \<Rightarrow> E e | Inr (x, s') \<Rightarrow> I s' \<and> R s s'"
      using Some s relation_refl
      by (auto simp: findNamedValue_def follow_def gbind_def gret_def node_def gets_def split: sum.splits prod.splits simp del: find_up.simps)
  qed
qed

lemmas ok_lookups = ok_findNamedValue ok_pointed_type ok_unescaped

lemma ok_cast_to_declared: "ok I R E (cast_to_declared F typeName signName v ty at)"
  unfolding cast_to_declared_def by (intro ok_binds ok_cases ok_access ok_work)

lemma ok_declare_variable: "calls_ok rec n \<Longrightarrow> within n k \<Longrightarrow> ok I R E (declare_variable F k rec n pass)"
  unfolding declare_variable_def
  by (intro ok_binds ok_cases ok_access ok_work ok_lookups ok_cast_to_declared) (auto simp: attribute_def intro: below_within)

lemma ok_generateVariableExpression: "calls_ok rec n \<Longrightarrow> within n k \<Longrightarrow> ok I R E (generateVariableExpression_run F k rec n pass)"
  unfolding generateVariableExpression_run_def
  by (intro ok_binds ok_cases ok_access ok_work ok_lookups ok_declare_variable) (auto simp: attribute_def)

lemma ok_generateUnaryExpression: "calls_ok rec n \<Longrightarrow> ok I R E (generateUnaryExpression_run F rec n pass)"
  unfolding generateUnaryExpression_run_def
  by (intro ok_binds ok_cases ok_access ok_work ok_lookups) simp_all

lemma ok_operator_name: "ok I R E (operator_name n)"
  unfolding operator_name_def by (intro ok_bind ok_access)

lemma ok_call_function: "ok I R E (call_function F f vs)"
  unfolding call_function_def by (intro ok_bind ok_access ok_emit) simp

lemma ok_checkForOperatorOverload: "ok I R E (checkForOperatorOverload n)"
  unfolding checkForOperatorOverload_def by (intro ok_bind ok_access ok_operator_name)

lemma ok_generateOperatorOverloadCall: "ok I R E (generateOperatorOverloadCall F n L R')"
  unfolding generateOperatorOverloadCall_def by (intro ok_bind ok_cases ok_access ok_operator_name ok_call_function)

text \<open>The pipe is asked for as a whole.\<close>

lemma ok_generateBinaryExpression:
  assumes "\<And>v m. ok I R E m \<Longrightarrow> ok I R E (with_pipe_value v (m :: llvalue option gen))" and "calls_ok rec n"
  shows "ok I R E (generateBinaryExpression_run F rec n pass)"
  unfolding generateBinaryExpression_run_def
  by (intro ok_binds ok_cases ok_access ok_work ok_checkForOperatorOverload ok_generateOperatorOverloadCall assms(1))
    (use assms(2) in simp_all)

lemma ok_generatePipePlaceholder: "ok I R E (generatePipePlaceholder_run n)"
  unfolding generatePipePlaceholder_run_def by (intro ok_bind ok_cases ok_access)

lemma ok_argument_of: "ok I R E (argument_of t exact)"
  unfolding argument_of_def by (intro ok_bind ok_access)

lemma ok_builtin_access: "ok I R E (builtin_access F n l t L R')"
  unfolding builtin_access_def by (intro ok_bind ok_cases ok_access ok_work) simp_all

lemma ok_generateAccessOperation: "calls_ok rec n \<Longrightarrow> ok I R E (generateAccessOperation_run F rec n pass)"
  unfolding generateAccessOperation_run_def
  by (intro ok_binds ok_cases ok_access ok_work ok_argument_of ok_call_function ok_builtin_access) (simp_all add: attribute_def)

section \<open>Calls and members\<close>

lemma ok_bind_argument_nodes:
  "(\<And>as. list_all (\<lambda>a. below a n) as \<Longrightarrow> ok I R E (f as)) \<Longrightarrow> ok I R E (gbind (argument_nodes n) f)"
proof (rule ok_bind_result [where P = "list_all (\<lambda>a. below a n)"])
  show "ok I R E (argument_nodes n)" unfolding argument_nodes_def by (intro ok_bind ok_access)
  show "list_all (\<lambda>a. below a n) as" if "I s" "argument_nodes n s = Inr (as, s')" for s as s'
    using that child_below [OF that(1)]
    by (auto simp: argument_nodes_def children_def gets_def gbind_def below_def list_all_iff)
qed

lemma ok_argument_type: "calls_ok rec n \<Longrightarrow> below a n \<Longrightarrow> ok I R E (argument_type rec pass a)"
  unfolding argument_type_def by (intro ok_bind ok_checked_value ok_access ok_argument_of)

lemma ok_argument_types: "calls_ok rec n \<Longrightarrow> list_all (\<lambda>a. below a n) as \<Longrightarrow> ok I R E (gmap (argument_type rec pass) as)"
  by (intro ok_gmap ok_argument_type) (auto simp: list_all_iff)

lemma ok_is_plain_variable: "ok I R E (is_plain_variable a)"
  unfolding is_plain_variable_def by (rule ok_gets)

lemma ok_pass_argument: "calls_ok rec n \<Longrightarrow> below a n \<Longrightarrow> ok I R E (pass_argument rec pass at params offset (i, probe, a) vs)"
  unfolding pass_argument_def prod.case
  by (intro ok_bind ok_cases ok_access ok_is_plain_variable ok_work) (simp_all add: attribute_def)

lemma ok_pass_arguments:
  assumes "calls_ok rec n" and "list_all (\<lambda>a. below a n) as"
  shows "ok I R E (gloop (pass_argument rec pass at params offset) (map (\<lambda>i. (i, probe i, as ! i)) [0..<length as]) vs)"
proof (rule ok_gloop)
  fix x acc assume "x \<in> set (map (\<lambda>i. (i, probe i, as ! i)) [0..<length as])"
  then obtain i where "x = (i, probe i, as ! i)" "i < length as" by auto
  then show "ok I R E (pass_argument rec pass at params offset x acc)"
    using assms by (auto intro!: ok_pass_argument simp: list_all_length)
qed

lemma ok_emit_call: "ok I R E (emit_call F f vs)"
  unfolding emit_call_def by (intro ok_bind ok_access ok_call_function)

lemma ok_struct_return_space: "ok I R E (struct_return_space F n fid)"
  unfolding struct_return_space_def by (intro ok_bind ok_cases ok_access ok_work) simp_all

lemma ok_finish_call: "ok I R E (finish_call F n fid f sret vs)"
  unfolding finish_call_def by (intro ok_bind ok_cases ok_access ok_work ok_emit_call) simp_all

lemma list_below_trans: "list_all (\<lambda>a. below a m) as \<Longrightarrow> below m n \<Longrightarrow> list_all (\<lambda>a. below a n) as"
  by (auto simp: list_all_iff intro: below_trans)

lemma ok_generateCallExpression: "calls_ok rec n \<Longrightarrow> ok I R E (generateCallExpression_run F rec n pass)"
  unfolding generateCallExpression_run_def
  by (intro ok_bind_argument_nodes ok_binds ok_cases ok_access ok_struct_return_space ok_finish_call ok_argument_types ok_pass_arguments)
    (auto intro: list_below_trans calls_ok_below)

lemma ok_member_variable: "calls_ok rec n \<Longrightarrow> ok I R E (member_variable F rec n pass c sd basePtr)"
  unfolding member_variable_def
  by (intro ok_binds ok_cases ok_access ok_work) (simp_all add: attribute_def)

lemma ok_member_function: "calls_ok rec n \<Longrightarrow> below c n \<Longrightarrow> ok I R E (member_function F rec n pass c sd basePtr)"
  unfolding member_function_def
  by (intro ok_bind_argument_nodes ok_binds ok_cases ok_argument_types ok_pass_arguments ok_access ok_set_node ok_emit_call)
    (auto simp: attribute_def intro: list_below_trans below_trans calls_ok_below)

lemma ok_member_of: "calls_ok rec n \<Longrightarrow> ok I R E (member_of F rec n pass sd basePtr)"
  unfolding member_of_def by (intro ok_binds ok_cases ok_access ok_member_variable ok_member_function)

text \<open>An entry of the table of structs has no source node, where that matters.\<close>

lemma ok_bind_definition:
  "(\<And>def. \<forall>sd k. def = Some sd \<longrightarrow> sourceNode sd = Some k \<longrightarrow> E Out_Of_Fuel \<Longrightarrow> ok I R E (f def)) \<Longrightarrow>
   ok I R E (gbind (gets (\<lambda>s. map_of (structDefinitions s) name)) f)"
  by (rule ok_bind_result [where P = "\<lambda>def. \<forall>sd k. def = Some sd \<longrightarrow> sourceNode sd = Some k \<longrightarrow> E Out_Of_Fuel"])
    (rule ok_gets, auto simp: gets_def dest: no_sources)

lemma ok_generate_struct_type:
  assumes "calls_ok rec n" and "\<And>k. sourceNode sd = Some k \<Longrightarrow> E Out_Of_Fuel"
  shows "ok I R E (generate_struct_type rec sd pass)"
proof (cases "sourceNode sd")
  case None
  then show ?thesis
    unfolding generate_struct_type_def None follow_def option.case gbind_gfail by (intro ok_bind ok_cases ok_access)
next
  case (Some k)
  then have "ok I R E (call_node rec k pass)" using ok_call_node [OF assms(1)] assms(2) by (simp add: below_def)
  then show ?thesis
    unfolding generate_struct_type_def Some follow_def option.case gbind_gret by (intro ok_bind ok_cases ok_access)
qed

lemma ok_member_of_variable: "calls_ok rec n \<Longrightarrow> ok I R E (member_of_variable F rec n pass l basePtr)"
  unfolding member_of_variable_def
  by (intro ok_bind_definition ok_bind ok_cases ok_generate_struct_type ok_member_of ok_access ok_lookups) auto

lemma ok_member_of_element: "calls_ok rec n \<Longrightarrow> ok I R E (member_of_element F rec n pass basePtr)"
  unfolding member_of_element_def by (intro ok_bind ok_cases ok_access ok_member_of)

lemma ok_generateMemberAccess: "calls_ok rec n \<Longrightarrow> ok I R E (generateMemberAccess_run F rec n pass)"
  unfolding generateMemberAccess_run_def
  by (intro ok_binds ok_cases ok_access ok_work ok_member_of_variable ok_member_of_element) (simp_all add: attribute_def)

lemma ok_generateCast: "calls_ok rec n \<Longrightarrow> ok I R E (generateCast_run F rec n pass)"
  unfolding generateCast_run_def
  by (intro ok_binds ok_cases ok_access ok_work ok_lookups) simp_all

lemma ok_generateTypeInstance: "calls_ok rec n \<Longrightarrow> ok I R E (generateTypeInstance_run F rec n pass)"
  unfolding generateTypeInstance_run_def
  by (intro ok_bind_definition ok_binds ok_cases ok_generate_struct_type ok_access ok_work) auto

section \<open>Statements\<close>

lemma ok_generateExpression: "calls_ok rec n \<Longrightarrow> ok I R E (generateExpression_run rec n pass)"
  unfolding generateExpression_run_def by (intro ok_binds ok_cases ok_access ok_work)

lemma ok_assignment_address: "calls_ok rec n \<Longrightarrow> below l n \<Longrightarrow> ok I R E (assignment_address rec n l pass)"
  unfolding assignment_address_def by (intro ok_binds ok_cases ok_access ok_work) (simp_all add: attribute_def)

lemma ok_declared_type: "calls_ok rec n \<Longrightarrow> below l n \<Longrightarrow> within n k \<Longrightarrow> ok I R E (declared_type k rec l pass)"
  unfolding declared_type_def
  by (intro ok_binds ok_cases ok_access ok_lookups) (auto intro: below_within below_trans)

lemma ok_assignment_variable: "ok I R E (assignment_variable F f n l ty typeNode)"
  unfolding assignment_variable_def by (intro ok_bind ok_cases ok_access ok_lookups)

lemma ok_generateExpressionStatement:
  "calls_ok rec n \<Longrightarrow> within n k \<Longrightarrow> ok I R E (generateExpressionStatement_run F k rec n pass)"
  unfolding generateExpressionStatement_run_def
  by (intro ok_binds ok_cases ok_assignment_address ok_declared_type ok_cast_to_declared ok_assignment_variable ok_access ok_work) simp_all

lemma ok_generateIterator: "ok I R E (generateIterator_run F n)"
  unfolding generateIterator_run_def by (intro ok_bind ok_access ok_work) simp

lemma ok_body_step: "calls_ok rec n \<Longrightarrow> below c n \<Longrightarrow> ok I R E (body_step rec pass c u)"
  unfolding body_step_def by (intro ok_bind ok_cases ok_access ok_checked_value)

lemma ok_generateScopeBody: "calls_ok rec n \<Longrightarrow> ok I R E (generateScopeBody_run rec n pass)"
  unfolding generateScopeBody_run_def
  by (intro ok_bind_children ok_bind ok_cases ok_access ok_gloop ok_body_step) (auto simp: list_all_iff)

lemma ok_generate_body: "calls_ok rec n \<Longrightarrow> below b n \<Longrightarrow> ok I R E (generate_body rec at b pass)"
  unfolding generate_body_def by (intro ok_bind ok_cases ok_access ok_checked_value)

lemma ok_generateIf:
  assumes "\<And>v. ok I R E (generate_branches F rec n pass v)" and "calls_ok rec n"
  shows "ok I R E (generateIf_run F rec n pass)"
  unfolding generateIf_run_def
  by (intro ok_bind_child ok_bind ok_cases ok_access ok_checked_value assms(1)) (use assms(2) in \<open>auto intro: below_trans calls_ok_below\<close>)

lemma ok_generateFor:
  assumes "\<And>name range v. below range n \<Longrightarrow> ok I R E (generate_loop F rec n pass name range v)" and "calls_ok rec n"
  shows "ok I R E (generateFor_run F rec n pass)"
  unfolding generateFor_run_def
  by (intro ok_bind_child ok_bind ok_cases ok_access ok_checked_value assms(1)) (use assms(2) in \<open>auto intro: below_trans calls_ok_below\<close>)

lemma getFunctionIDFromFunctionPointer_failure: "getFunctionIDFromFunctionPointer fs f = Inl e \<Longrightarrow> e \<noteq> Out_Of_Fuel"
  by (auto simp: getFunctionIDFromFunctionPointer_def split: option.splits)

text \<open>The lookup of a function by its handle stops the program when there is none.\<close>

lemma ok_bind_function_pointer:
  assumes "\<And>i. ok I R E (g i)"
  shows "ok I R E (gbind (gets (\<lambda>s. getFunctionIDFromFunctionPointer (functionIDs s) f)) (\<lambda>found. gbind (glift found) g))"
  by (rule ok_bind_result [where P = "\<lambda>found. \<forall>e. found = Inl e \<longrightarrow> e \<noteq> Out_Of_Fuel"])
    (rule ok_gets, auto simp: gets_def intro: ok_bind ok_glift assms dest: getFunctionIDFromFunctionPointer_failure)

lemma ok_generateReturn: "calls_ok rec n \<Longrightarrow> ok I R E (generateReturn_run F rec n pass)"
  unfolding generateReturn_run_def
  by (intro ok_bind_function_pointer ok_bind_child ok_bind ok_cases ok_access ok_checked_value ok_emits) simp_all

section \<open>Prototypes and functions\<close>

lemma ok_function_names: "ok I R E (function_names n)"
  unfolding function_names_def by (intro ok_bind ok_cases ok_access)

lemma ok_return_type_text: "within n k \<Longrightarrow> ok I R E (return_type_text k n rType mangled)"
proof (induction k arbitrary: n rType mangled)
  case 0
  then show ?case by (auto simp: ok_def gfail_def within_def)
next
  case (Suc k)
  then show ?case unfolding return_type_text.simps by (intro ok_binds ok_cases ok_access) (auto intro: below_within_Suc)
qed

lemma ok_type_modifiers: "within n k \<Longrightarrow> ok I R E (type_modifiers k n st)"
proof (induction k arbitrary: n st)
  case 0
  then show ?case by (auto simp: ok_def gfail_def within_def)
next
  case (Suc k)
  have "ok I R E (type_modifiers (Suc k) n (ref, exact, level, typeStr, mangled))" for ref exact level typeStr mangled
    unfolding type_modifiers.simps
    by (intro ok_binds ok_cases ok_access) (auto intro: Suc.IH below_within_Suc [OF _ Suc.prems])
  then show ?case by (cases st) auto
qed

lemma ok_gather_argument:
  "calls_ok rec n \<Longrightarrow> below a n \<Longrightarrow> within n k \<Longrightarrow> ok I R E (gather_argument k rec pass a g)"
  unfolding gather_argument_def
  by (intro ok_binds ok_cases ok_type_modifiers ok_access) (auto intro: below_within below_trans)

lemma ok_create_function: "ok I R E (create_function name ret g inline)"
  unfolding create_function_def by (intro ok_bind ok_gmap ok_access ok_modify add_function)

lemma ok_prototype_return:
  "calls_ok rec n \<Longrightarrow> below t n \<Longrightarrow> within n k \<Longrightarrow> ok I R E (prototype_return k rec pass t mangled)"
  unfolding prototype_return_def
  by (intro ok_bind_children ok_bind_type ok_bind ok_cases ok_return_type_text ok_access) (auto intro: below_within)

lemma ok_hidden_arguments: "calls_ok rec n \<Longrightarrow> ok I R E (hidden_arguments rec n pass retType rType g)"
  unfolding hidden_arguments_def
  by (intro ok_bind_type ok_bind ok_let ok_list ok_prod ok_access)

lemma ok_generatePrototype: "calls_ok rec n \<Longrightarrow> within n k \<Longrightarrow> ok I R E (generatePrototype_run k rec n pass)"
  unfolding generatePrototype_run_def
  by (intro ok_bind_child ok_bind_children ok_bind ok_cases ok_gloop ok_gmap ok_gather_argument ok_prototype_return ok_hidden_arguments
      ok_function_names ok_create_function ok_set_node ok_modify add_function_id ok_access)
    (auto simp: attribute_def list_all_iff intro: below_trans)

lemma ok_function_empty: "ok I R E (function_empty f)"
  unfolding function_empty_def by (rule ok_gets)

lemma ok_generateFunction:
  assumes "\<And>f. ok I R E (generate_function_body F rec n pass f)" and "calls_ok rec n" and "within n k"
  shows "ok I R E (generateFunction_run F k rec n pass)"
  unfolding generateFunction_run_def
  by (intro ok_bind ok_cases ok_generatePrototype ok_function_empty ok_access assms)

lemma ok_enter_argument: "ok I R E (enter_argument F n f fid x u)"
  unfolding enter_argument_def
  by (cases x) (simp only: prod.case, intro ok_bind ok_cases ok_access ok_emits, simp_all)

lemma ok_default_return: "ok I R E (default_return F f)"
  unfolding default_return_def by (intro ok_bind ok_cases ok_access ok_emits) simp_all

section \<open>Structs\<close>

lemma ok_struct_member: "calls_ok rec n \<Longrightarrow> below c n \<Longrightarrow> within n k \<Longrightarrow> ok I R E (struct_member k rec pass c sf)"
  unfolding struct_member_def
  by (intro ok_binds ok_cases ok_pointed_type ok_access) (auto intro: below_within below_trans)

lemma ok_struct_function: "calls_ok rec n \<Longrightarrow> below c n \<Longrightarrow> ok I R E (struct_function rec pass c sf)"
  unfolding struct_function_def
  by (intro ok_bind_function_pointer ok_bind ok_access ok_checked_value)

lemma ok_struct_field: "calls_ok rec n \<Longrightarrow> below c n \<Longrightarrow> within n k \<Longrightarrow> ok I R E (struct_field k rec pass (r, c) sf)"
  unfolding struct_field_def prod.case
  by (intro ok_bind ok_cases ok_struct_member ok_struct_function ok_access)

end

end
