(* ===== verification/Codegen_Contracts.thy ===== *)
theory Codegen_Contracts
  imports Codegen_Frames
begin

text \<open>
  The contracts for blocks and for the stacks, the statements that use them, and the result for the generator:
  what holds of every assignment of every method holds of \<open>generate\<close> and of the passes over a tree.
\<close>

section \<open>Failing with a report\<close>

lemma report_error_sets: "report_error n msg s = Inr (u, s') \<Longrightarrow> wasError s'"
  by (auto simp: report_error_def error_at_def gbind_Inr gmodify_def)

lemma failed_sets: "failed n msg s = Inr (r, s') \<Longrightarrow> wasError s'"
  by (auto simp: failed_def gbind_Inr gret_def dest: report_error_sets)

lemma gloop_returns:
  assumes "\<And>x acc s y s'. f x acc s = Inr (Inr y, s') \<Longrightarrow> P s'" and "gloop f xs acc s = Inr (Inr y, s')"
  shows "P s'"
  using assms(2)
proof (induction xs arbitrary: acc s)
  case Nil
  then show ?case by (simp add: gret_def)
next
  case (Cons x xs)
  then obtain r t where r: "f x acc s = Inr (r, t)" "(case r of Inl acc \<Rightarrow> gloop f xs acc | Inr y \<Rightarrow> gret (Inr y)) t = Inr (Inr y, s')"
    by (auto simp: gbind_Inr)
  then show ?case using Cons.IH assms(1) by (cases r) (auto simp: gret_def)
qed

text \<open>What is shown for a relation holds for a weaker one.\<close>

lemma ok_weaken: "ok I R E m \<Longrightarrow> (\<And>s s'. R s s' \<Longrightarrow> R' s s') \<Longrightarrow> ok I R' E m"
  by (auto simp: ok_def split: sum.split)

section \<open>Blocks\<close>

locale control = core +
  assumes set_branch: "branch i \<Longrightarrow> step I R s (s\<lparr>ir := append_instruction i (ir s)\<rparr>)"
    and add_block: "step I R s (s\<lparr>ir := (ir s)\<lparr>blocks := blocks (ir s) @ [bb]\<rparr>\<rparr>)"
    and place_block: "step I R s (s\<lparr>ir := (ir s)\<lparr>blocks := (blocks (ir s))[j := (blocks (ir s) ! j)\<lparr>bb_parent := fh\<rparr>]\<rparr>\<rparr>)"
    and set_insertion: "step I R s (s\<lparr>ir := (ir s)\<lparr>insertBlock := ib\<rparr>\<rparr>)"
begin

lemma set_any_instruction: "step I R s (s\<lparr>ir := append_instruction i (ir s)\<rparr>)"
  using set_instruction [of i s] set_branch [of i s] by blast

lemma ok_emit_any: "ok I R E (emit F i)"
  using set_any_instruction [of _ i]
  by (auto simp: ok_def emit_def ir_builder_def place_def step_def relation_refl split: option.split)

lemma ok_emits_any: "ok I R E (emits F i)"
  unfolding emits_def by (intro ok_bind ok_emit_any ok_gret)

lemma ok_create_block: "ok I R E (create_block name f)"
  unfolding create_block_def by (intro ok_bind ok_access ok_modify add_block)

lemma ok_set_insert_point: "ok I R E (set_insert_point b)"
  unfolding set_insert_point_def by (intro ok_modify set_insertion)

lemma ok_insert_block: "ok I R E (insert_block f b)"
  unfolding insert_block_def by (intro ok_bind ok_access ok_modify place_block)

lemmas ok_blocks = ok_create_block ok_set_insert_point ok_insert_block ok_emit_any ok_emits_any

lemma ok_generate_branches: "calls_ok rec n \<Longrightarrow> ok I R E (generate_branches F rec n pass v)"
  unfolding generate_branches_def
  by (intro ok_bind_child ok_bind ok_cases ok_access ok_blocks ok_generate_body)

lemma ok_generate_loop: "calls_ok rec n \<Longrightarrow> below rn n \<Longrightarrow> ok I R E (generate_loop F rec n pass name rn v)"
  unfolding generate_loop_def
  by (intro ok_bind_child ok_bind ok_cases ok_access ok_blocks ok_checked_value ok_generate_body) (auto intro: below_trans calls_ok_below)

text \<open>The body of a function is the last of its scope bodies.\<close>

lemma ok_bind_bodies:
  "(\<And>bs. list_all (\<lambda>b. below b n) bs \<Longrightarrow> ok I R E (f bs)) \<Longrightarrow>
   ok I R E (gbind (gets (\<lambda>s. filter (\<lambda>c. g_type (nodeStore s c) = Scope_Body) (g_children (nodeStore s n)))) f)"
  by (rule ok_bind_result [where P = "list_all (\<lambda>b. below b n)"])
    (rule ok_gets, auto simp: gets_def below_def list_all_iff dest: child_below)

lemma ok_generate_function_code: "calls_ok rec n \<Longrightarrow> ok I R E (generate_function_code F rec n pass f fid)"
  unfolding generate_function_code_def
  by (intro ok_bind_bodies ok_bind ok_cases ok_gloop ok_enter_argument ok_default_return ok_access ok_generate_body) (auto simp: list_all_iff)

lemma ok_generate_function_body: "calls_ok rec n \<Longrightarrow> ok I R E (generate_function_body F rec n pass f)"
  unfolding generate_function_body_def
  by (intro ok_bind_function_pointer ok_bind ok_access ok_blocks ok_generate_function_code)

end

section \<open>The table of structs\<close>

locale structs = core +
  assumes add_body: "step I R s (s\<lparr>ir := (ir s)\<lparr>structBodies := structBodies (ir s) @ [sb]\<rparr>\<rparr>)"
    and enter_struct: "step I R s (s\<lparr>structDefinitions := (nm, structType_of nm tk (Some h) mT mF mI)
      # filter (\<lambda>(x, _). x \<noteq> nm) (structDefinitions s)\<rparr>)"
    and renew_struct: "map_of (structDefinitions s) nm = Some sd \<Longrightarrow>
      step I R s (s\<lparr>structDefinitions := (nm, sd\<lparr>members := mT, memberFunctions := mF, memberNameIndexes := mI\<rparr>)
          # filter (\<lambda>(x, _). x \<noteq> nm) (structDefinitions s),
        ir := (ir s)\<lparr>structBodies := bds\<rparr>\<rparr>)"
begin

text \<open>The entry that is updated is the one that was looked up: nothing comes between.\<close>

lemma gmap_follow: "gmap follow xs s = Inr (ys, s') \<Longrightarrow> s' = s"
  by (induction xs arbitrary: ys) (auto simp: gbind_Inr gret_def follow_def gfail_def split: option.splits)

lemma gmap_follow_failure: "gmap follow xs s = Inl e \<Longrightarrow> e = Undefined_Behaviour"
  by (induction xs) (auto simp: gbind_def gret_def follow_def gfail_def rbind_eq_Inl split: option.splits)

lemma ok_update_struct: "ok I R E (update_struct name sf)"
proof (rule okI)
  fix s e assume "update_struct name sf s = Inl e"
  then have "e = Undefined_Behaviour"
    by (auto simp: update_struct_def struct_named_def gbind_def gets_def gmodify_def gret_def gfail_def follow_def rbind_eq_Inl
        dest: gmap_follow_failure split: option.splits)
  then show "E e" by (simp add: failures)
next
  fix s x s' assume s: "I s" and "update_struct name sf s = Inr (x, s')"
  then obtain sd h tys where sd: "map_of (structDefinitions s) name = Some sd" and
    s': "s' = s\<lparr>structDefinitions := (name, sd\<lparr>members := sf_members sf, memberFunctions := sf_functions sf, memberNameIndexes := sf_indexes sf\<rparr>)
        # filter (\<lambda>(x, _). x \<noteq> name) (structDefinitions s),
      ir := (ir s)\<lparr>structBodies := (structBodies (ir s))[h := (fst (structBodies (ir s) ! h), tys)]\<rparr>\<rparr>"
    by (auto simp: update_struct_def struct_named_def gbind_Inr gets_def gmodify_def gret_def gfail_def follow_def dest!: gmap_follow
        split: option.splits)
  show "I s' \<and> R s s'" using renew_struct [OF sd] s unfolding s' step_def by blast
qed

end

section \<open>Stacks\<close>

locale stacks = structs +
  assumes set_pipe: "step I R s (s\<lparr>pipeOperationValue := pv\<rparr>)"
    and set_struct_names: "step I R s (s\<lparr>currentStructName := cur\<rparr>)"
begin

lemma ok_with_pipe_value: "ok I R E m \<Longrightarrow> ok I R E (with_pipe_value v m)"
  unfolding with_pipe_value_def by (intro ok_bind ok_gret ok_modify set_pipe)

lemma ok_pop_struct_name: "ok I R E pop_struct_name"
  unfolding pop_struct_name_def by (intro ok_modify set_struct_names)

lemma ok_create_struct: "ok I R E (create_struct name tk sf)"
  unfolding create_struct_def by (intro ok_bind ok_gmap ok_access ok_pop_struct_name ok_modify add_body enter_struct)

lemma ok_generateStruct: "calls_ok rec n \<Longrightarrow> within n k \<Longrightarrow> ok I R E (generateStruct_run k rec n pass)"
  unfolding generateStruct_run_def
  by (intro ok_bind_child ok_bind_children ok_bind ok_cases ok_access ok_modify set_struct_names ok_gloop ok_pop_struct_name
      ok_update_struct ok_create_struct) (auto simp: list_all_iff intro!: ok_struct_field intro: below_trans)

end

section \<open>The generator\<close>

locale generator_logic = core +
  assumes branches: "calls_ok rec n \<Longrightarrow> ok I R E (generate_branches F rec n pass cv)"
    and loop: "calls_ok rec n \<Longrightarrow> below rn n \<Longrightarrow> ok I R E (generate_loop F rec n pass name rn cv)"
    and function_body: "calls_ok rec n \<Longrightarrow> ok I R E (generate_function_body F rec n pass f)"
    and pipe: "ok I R E m \<Longrightarrow> ok I R E (with_pipe_value v (m :: llvalue option gen))"
    and struct: "calls_ok rec n \<Longrightarrow> within n k \<Longrightarrow> ok I R E (generateStruct_run k rec n pass)"
begin

lemma ok_run_method:
  assumes "\<And>x e. parse_double Env x = Inl e \<Longrightarrow> E e" and "calls_ok rec n" and "within n k"
  shows "ok I R E (run_method Env k rec cm n pass)"
  unfolding run_method_def Let_def generateNothing_run_def
  by (cases cm; simp only: codegen_method.case)
    (intro ok_ub ok_gret ok_generateConstant ok_generateVariableExpression ok_generateReturn ok_generateExpression
      ok_generateExpressionStatement ok_generateIterator ok_generateUnaryExpression ok_generateBinaryExpression
      ok_generatePipePlaceholder ok_generateAccessOperation ok_generateMemberAccess ok_generateScopeBody ok_generateIf ok_generateFor
      ok_generatePrototype ok_generateFunction ok_generateCast ok_generateTypeInstance ok_generateCallExpression
      branches loop function_body pipe struct assms; assumption?)+

lemma ok_generate:
  assumes "\<And>x e. parse_double Env x = Inl e \<Longrightarrow> E e"
  shows "within n k \<Longrightarrow> ok I R E (generate Env k n pass)"
proof (induction k arbitrary: n pass)
  case 0
  then show ?case by (auto simp: ok_def gfail_def within_def)
next
  case (Suc k)
  have "calls_ok (generate Env k) n"
    using Suc by (auto simp: calls_ok_def intro: below_within_Suc)
  then show ?case
    using ok_run_method [OF assms _ Suc.prems] by (simp add: ok_bind ok_node)
qed

text \<open>The passes: the parts of a program at its top level.\<close>

lemma ok_bind_node:
  "(\<And>nd. list_all (\<lambda>c. below c n) (g_children nd) \<Longrightarrow> ok I R E (f nd)) \<Longrightarrow> ok I R E (gbind (node n) f)"
  by (rule ok_bind_result [where P = "\<lambda>nd. list_all (\<lambda>c. below c n) (g_children nd)"])
    (rule ok_node, auto simp: node_def gets_def below_def list_all_iff dest: child_below)

lemma ok_output_code:
  assumes "\<And>x e. parse_double Env x = Inl e \<Longrightarrow> E e"
  shows "within n k \<Longrightarrow> ok I R E (output_code Env k pass n)"
proof (induction k arbitrary: n)
  case 0
  then show ?case by (auto simp: ok_def gfail_def within_def)
next
  case (Suc k)
  show ?case
    unfolding output_code.simps
    by (intro ok_bind_node ok_bind ok_cases ok_gmap ok_basic ok_generate assms Suc.prems)
      (auto simp: list_all_iff intro: Suc.IH below_within_Suc [OF _ Suc.prems])
qed

lemma ok_passes:
  assumes "\<And>x e. parse_double Env x = Inl e \<Longrightarrow> E e" and "within root k"
    and "ok I R E removeUnusedPrototypes"
  shows "ok I R E (generate_module Env k root)"
  unfolding generate_module_def by (intro ok_bind ok_output_code assms)

text \<open>Erasing functions is not for every relation.\<close>

lemma ok_removeUnusedPrototypes:
  assumes "\<And>s fs. step I R s (s\<lparr>ir := (ir s)\<lparr>erasedFunctions := fs\<rparr>\<rparr>)"
  shows "ok I R E removeUnusedPrototypes"
  unfolding removeUnusedPrototypes_def by (intro ok_bind ok_basic ok_gmap ok_modify assms)

end

text \<open>Relations that hold of the steps.\<close>

locale generator_steps = control + stacks

sublocale generator_steps \<subseteq> generator_logic
proof unfold_locales
qed (intro ok_generate_branches ok_generate_loop ok_generate_function_body ok_with_pipe_value ok_generateStruct; assumption)+

end
