(* ===== verification/Codegen_Trees.thy ===== *)
theory Codegen_Trees
  imports Codegen_Definitions Unify
begin

text \<open>
  The tree that the parser returns, put into a store: the nodes are numbered in the order of a walk from the
  root, each with its parent and the depth that \<open>assignParentNodes\<close> gives (the root keeps the depth 0 it was
  made with). The cells are those of \<open>Unify\<close>; what the generator starts from is read from such a store.
  At the end two small programs, run through all the passes.
\<close>

section \<open>Placing a tree\<close>

fun node_count :: "ast \<Rightarrow> nat" where
  "node_count (Node a cs ls) = Suc (sum_list (map node_count cs))"

text \<open>The addresses of subtrees that are placed one after the other.\<close>

fun addresses :: "nat \<Rightarrow> ast list \<Rightarrow> nat list" where
  "addresses n [] = []"
| "addresses n (t # ts) = n # addresses (n + node_count t) ts"

definition place_cell :: "ninfo \<Rightarrow> nat option \<Rightarrow> nat \<Rightarrow> ast list \<Rightarrow> nat list \<Rightarrow> cell" where
  "place_cell a p d ls kids = \<lparr>cinfo = a\<lparr>node_depth := d\<rparr>, cleaves = ls, ckids = kids, cparent = p\<rparr>"

fun place_tree :: "nat option \<Rightarrow> nat \<Rightarrow> nat \<Rightarrow> ast \<Rightarrow> cell list"
  and place_trees :: "nat option \<Rightarrow> nat \<Rightarrow> nat \<Rightarrow> ast list \<Rightarrow> cell list" where
  "place_tree p d n (Node a cs ls) =
     place_cell a p d ls (addresses (Suc n) cs) # place_trees (Some n) (Suc d) (Suc n) cs"
| "place_trees p d n [] = []"
| "place_trees p d n (t # ts) = place_tree p d n t @ place_trees p d (n + node_count t) ts"

text \<open>Nothing lies beyond the cells of the tree.\<close>

definition heap_of :: "ast \<Rightarrow> heap" where
  "heap_of t = (let cells = place_tree None 0 0 t in (\<lambda>n. if n < length cells then cells ! n else place_cell info0 None 0 [] []))"

section \<open>The state at the start\<close>

definition node_of_cell :: "nat \<Rightarrow> cell \<Rightarrow> gnode" where
  "node_of_cell n c =
     (let a = cinfo c in
      \<lparr>g_parent = cparent c, g_children = ckids c, g_type = nodeType a, g_token = n, g_depth = node_depth a, g_isRef = isRef a,
       g_isExtern = isExtern a, g_lvalue = lvalue a, g_replaceable = False, g_baseType = None, g_namedValues = [],
       g_codegen = codegen a\<rparr>)"

definition empty_ir :: module_ir where
  "empty_ir = \<lparr>emitted = [], insertBlock = None, blocks = [], moduleFunctions = [], structBodies = [], erasedFunctions = []\<rparr>"

definition load_heap :: "heap \<Rightarrow> gstate" where
  "load_heap h =
     \<lparr>nodeStore = (\<lambda>n. node_of_cell n (h n)), tokenStore = (\<lambda>n. node_token (cinfo (h n))),
      ir = empty_ir, functionIDs = [], structDefinitions = [], currentStructName = [], unresolvedTypes = [],
      lastRetrievedElementType = [], pipeOperationValue = [], typeSigns = typeSigns_start, globalStrings = [],
      isCallMemberFunction = False, wasError = False, diagnostics = []\<rparr>"

definition load_tree :: "ast \<Rightarrow> gstate" where
  "load_tree t = load_heap (heap_of t)"

section \<open>Sample programs\<close>

text \<open>\<open>main :: () { if (true) { } }\<close>, and a struct with a member that has no type.\<close>

definition sample_node :: "ASTNodeType \<Rightarrow> codegen_method \<Rightarrow> string \<Rightarrow> ast list \<Rightarrow> ast" where
  "sample_node ty method s cs =
     Node (info0\<lparr>nodeType := ty, codegen := method, node_token := tokenDataType6 s Identifier 1 0 (Str 0) (Str 0)\<rparr>) cs []"

definition sample_env :: environment where
  "sample_env = \<lparr>builder = \<lparr>fold_instruction = (\<lambda>_. None), castable = (\<lambda>_ _. False)\<rparr>, parse_double = (\<lambda>_. Inr ())\<rparr>"

definition sample_program :: ast where
  "sample_program = sample_node Scope_Body generateScopeBody [] [
     sample_node Compiler_Define_Function generateFunction ''main''
       [sample_node Nothing_Node No_Codegen [] [], sample_node Nothing_Node No_Codegen [] [],
        sample_node Argument_List No_Codegen [] [], sample_node Nothing_Node No_Codegen [] [],
        sample_node Scope_Body generateScopeBody []
          [sample_node If_Statement_Node generateIf ''if''
             [sample_node Expression_Paren_Term generateExpression [] [sample_node Boolean_Node generateConstant ''true'' []],
              sample_node Scope_Body generateScopeBody [] [],
              sample_node Scope_Body generateScopeBody [] []]]]]"

definition failing_program :: ast where
  "failing_program = sample_node Scope_Body generateScopeBody [] [
     sample_node Compiler_Define_Struct generateStruct ''vec''
       [sample_node Scope_Body generateScopeBody [] [sample_node Identifier_Node No_Codegen ''x'' []]]]"

lemma sample_program_runs:
  "case generate_module sample_env 13 0 (load_tree sample_program) of Inl e \<Rightarrow> False
   | Inr (u, s) \<Rightarrow> \<not> wasError s \<and> length (blocks (ir s)) = 4 \<and> length (emitted (ir s)) = 5 \<and> length (functionIDs s) = 1"
  by code_simp

lemma failing_program_runs:
  "case generate_module sample_env 6 0 (load_tree failing_program) of Inl e \<Rightarrow> False
   | Inr (u, s) \<Rightarrow> wasError s \<and> length (diagnostics s) = 2 \<and> length (currentStructName s) = 2"
  by code_simp

definition sample_final :: gstate where
  "sample_final = (case generate_module sample_env 13 0 (load_tree sample_program) of Inr (u, s) \<Rightarrow> s | Inl e \<Rightarrow> load_tree sample_program)"

lemma sample_run: "generate_module sample_env 13 0 (load_tree sample_program) = Inr ((), sample_final)"
  and sample_no_error: "\<not> wasError sample_final" and sample_blocks: "length (blocks (ir sample_final)) = 4"
  using sample_program_runs by (auto simp: sample_final_def split: sum.splits)

definition failing_final :: gstate where
  "failing_final = (case generate_module sample_env 6 0 (load_tree failing_program) of Inr (u, s) \<Rightarrow> s | Inl e \<Rightarrow> load_tree failing_program)"

lemma failing_run: "generate_module sample_env 6 0 (load_tree failing_program) = Inr ((), failing_final)"
  and failing_error: "wasError failing_final" and failing_names: "length (currentStructName failing_final) = 2"
  using failing_program_runs by (auto simp: failing_final_def split: sum.splits)

lemma load_tree_starts: "\<not> wasError (load_tree t)" "currentStructName (load_tree t) = []" "pipeOperationValue (load_tree t) = []"
    "diagnostics (load_tree t) = []" "blocks (ir (load_tree t)) = []" "functionIDs (load_tree t) = []"
  by (simp_all add: load_tree_def load_heap_def empty_ir_def)


end
