(* ===== verification/Codegen_Store.thy ===== *)
theory Codegen_Store
  imports Codegen_Trees
begin

text \<open>
  The shape of the store from which the generator starts, that of a placed tree or what \<open>unifyNodes\<close> has left of
  it: children lie behind their parents, and every node is deeper than its parent.
\<close>

section \<open>A tree in the store\<close>

text \<open>Nodes that were placed from address \<open>n\<close> on, below a node \<open>p\<close> at depth \<open>d - 1\<close>.\<close>

definition placed :: "nat option \<Rightarrow> nat \<Rightarrow> nat \<Rightarrow> cell list \<Rightarrow> bool" where
  "placed p d n cells \<longleftrightarrow> (\<forall>i < length cells.
     list_all (\<lambda>c. n + i < c \<and> c < n + length cells) (ckids (cells ! i))
     \<and> (cparent (cells ! i) = p \<and> node_depth (cinfo (cells ! i)) = d
        \<or> (\<exists>j < i. cparent (cells ! i) = Some (n + j) \<and> node_depth (cinfo (cells ! i)) = Suc (node_depth (cinfo (cells ! j))))))"

lemma placed_append:
  assumes "placed p d n xs" and "placed p d (n + length xs) ys"
  shows "placed p d n (xs @ ys)"
  unfolding placed_def
proof (intro allI impI)
  fix i assume i: "i < length (xs @ ys)"
  show "list_all (\<lambda>c. n + i < c \<and> c < n + length (xs @ ys)) (ckids ((xs @ ys) ! i))
     \<and> (cparent ((xs @ ys) ! i) = p \<and> node_depth (cinfo ((xs @ ys) ! i)) = d
        \<or> (\<exists>j < i. cparent ((xs @ ys) ! i) = Some (n + j) \<and> node_depth (cinfo ((xs @ ys) ! i)) = Suc (node_depth (cinfo ((xs @ ys) ! j)))))"
  proof (cases "i < length xs")
    case True
    with assms(1) show ?thesis by (fastforce simp: placed_def nth_append list_all_iff)
  next
    case False
    then obtain k where k: "i = length xs + k" "k < length ys" using i by (metis add_diff_inverse_nat length_append nat_add_left_cancel_less)
    then have y: "list_all (\<lambda>c. n + length xs + k < c \<and> c < n + length xs + length ys) (ckids (ys ! k))"
        "cparent (ys ! k) = p \<and> node_depth (cinfo (ys ! k)) = d
         \<or> (\<exists>j < k. cparent (ys ! k) = Some (n + length xs + j) \<and> node_depth (cinfo (ys ! k)) = Suc (node_depth (cinfo (ys ! j))))"
      using assms(2) by (auto simp: placed_def)
    from y(2) have "cparent (ys ! k) = p \<and> node_depth (cinfo (ys ! k)) = d
         \<or> (\<exists>j < i. cparent (ys ! k) = Some (n + j) \<and> node_depth (cinfo (ys ! k)) = Suc (node_depth (cinfo ((xs @ ys) ! j))))"
      using k by (elim disjE exE conjE) (simp, rule disjI2, rule_tac x = "length xs + j" in exI, simp add: nth_append)
    with y(1) k show ?thesis by (auto simp: nth_append list_all_iff)
  qed
qed

lemma placed_Cons:
  assumes "placed (Some n) (Suc d) (Suc n) cells" and "list_all (\<lambda>c. n < c \<and> c \<le> n + length cells) kids"
  shows "placed p d n (place_cell a p d ls kids # cells)"
  unfolding placed_def
proof (intro allI impI)
  let ?cells = "place_cell a p d ls kids # cells"
  fix i assume i: "i < length ?cells"
  show "list_all (\<lambda>c. n + i < c \<and> c < n + length ?cells) (ckids (?cells ! i))
     \<and> (cparent (?cells ! i) = p \<and> node_depth (cinfo (?cells ! i)) = d
        \<or> (\<exists>j < i. cparent (?cells ! i) = Some (n + j) \<and> node_depth (cinfo (?cells ! i)) = Suc (node_depth (cinfo (?cells ! j)))))"
  proof (cases i)
    case 0
    then show ?thesis using assms(2) by (auto simp: place_cell_def list_all_iff)
  next
    case (Suc k)
    let ?c = "cells ! k"
    have k: "list_all (\<lambda>c. Suc n + k < c \<and> c < Suc n + length cells) (ckids ?c)"
        "cparent ?c = Some n \<and> node_depth (cinfo ?c) = Suc d
         \<or> (\<exists>j < k. cparent ?c = Some (Suc n + j) \<and> node_depth (cinfo ?c) = Suc (node_depth (cinfo (cells ! j))))"
      using assms(1) i Suc by (auto simp: placed_def)
    from k(2) have "\<exists>j < i. cparent ?c = Some (n + j) \<and> node_depth (cinfo ?c) = Suc (node_depth (cinfo (?cells ! j)))"
    proof (elim disjE exE conjE)
      assume "cparent ?c = Some n" "node_depth (cinfo ?c) = Suc d"
      then show ?thesis using Suc by (intro exI [of _ 0]) (simp add: place_cell_def)
    next
      fix j assume "j < k" "cparent ?c = Some (Suc n + j)" "node_depth (cinfo ?c) = Suc (node_depth (cinfo (cells ! j)))"
      then show ?thesis using Suc by (intro exI [of _ "Suc j"]) simp
    qed
    with k(1) Suc show ?thesis by (auto simp: list_all_iff)
  qed
qed

lemma addresses_within: "c \<in> set (addresses n ts) \<Longrightarrow> n \<le> c \<and> c < n + sum_list (map node_count ts)"
proof (induction ts arbitrary: n)
  case (Cons t ts)
  have "0 < node_count t" by (cases t) simp
  with Cons show ?case by fastforce
qed simp

lemma place_tree_placed:
  "length (place_tree p d n t) = node_count t \<and> placed p d n (place_tree p d n t)"
  "length (place_trees p d n ts) = sum_list (map node_count ts) \<and> placed p d n (place_trees p d n ts)"
proof (induction p d n t and p d n ts rule: place_tree_place_trees.induct)
  case (1 p d n a cs ls)
  then show ?case by (auto intro!: placed_Cons simp: list_all_iff dest!: addresses_within)
next
  case (2 p d n)
  then show ?case by (simp add: placed_def)
next
  case (3 p d n t ts)
  then show ?case by (auto intro!: placed_append)
qed

section \<open>What \<open>unifyNodes\<close> keeps\<close>

definition linked :: "nat \<Rightarrow> heap \<Rightarrow> bool" where
  "linked N h \<longleftrightarrow> (\<forall>n. list_all (\<lambda>c. n < c \<and> c < N) (ckids (h n))
     \<and> (\<forall>p. cparent (h n) = Some p \<longrightarrow> p < n \<and> n < N \<and> node_depth (cinfo (h p)) < node_depth (cinfo (h n))))"

lemma linked_kid: "linked N h \<Longrightarrow> c \<in> set (ckids (h n)) \<Longrightarrow> n < c \<and> c < N"
  by (auto simp: linked_def list_all_iff)

lemma linked_parent:
  "linked N h \<Longrightarrow> cparent (h n) = Some p \<Longrightarrow> p < n \<and> n < N \<and> node_depth (cinfo (h p)) < node_depth (cinfo (h n))"
  by (simp add: linked_def)

lemma heap_of_linked: "linked (node_count t) (heap_of t)"
proof -
  let ?cells = "place_tree None 0 0 t"
  have len: "length ?cells = node_count t" and cells: "placed None 0 0 ?cells" using place_tree_placed(1) by auto
  have "list_all (\<lambda>c. n < c \<and> c < node_count t) (ckids (heap_of t n))
     \<and> (\<forall>p. cparent (heap_of t n) = Some p \<longrightarrow>
        p < n \<and> n < node_count t \<and> node_depth (cinfo (heap_of t p)) < node_depth (cinfo (heap_of t n)))" for n
  proof (cases "n < node_count t")
    case True
    then have "list_all (\<lambda>c. n < c \<and> c < node_count t) (ckids (?cells ! n))"
        "cparent (?cells ! n) = None
         \<or> (\<exists>j < n. cparent (?cells ! n) = Some j \<and> node_depth (cinfo (?cells ! n)) = Suc (node_depth (cinfo (?cells ! j))))"
      using cells len by (auto simp: placed_def)
    with True len show ?thesis by (auto simp: heap_of_def Let_def)
  next
    case False
    with len show ?thesis by (simp add: heap_of_def Let_def place_cell_def)
  qed
  then show ?thesis by (simp add: linked_def)
qed

lemma linked_lift_node: 
  assumes "linked N h"
  shows "linked N (lift_node h n)"
proof (cases "cparent (h n)")
  case None
  then show ?thesis using assms by (simp add: lift_node_def)
next
  case (Some p)
  note p = linked_parent [OF assms Some]
  have kids: "list_all (\<lambda>c. q < c \<and> c < N) (map (\<lambda>m. if m = p then n else m) (ckids (h q)))" for q
    using linked_kid [OF assms, of _ q] p by (fastforce simp: list_all_iff)
  show ?thesis
  proof (cases "cparent (h p)")
    case None
    then show ?thesis using assms Some by (simp add: lift_node_def Let_def linked_def)
  next
    case q: (Some q)
    have "q \<noteq> n" "q < n" "node_depth (cinfo (h q)) < node_depth (cinfo (h n))"
      using linked_parent [OF assms q] p by auto
    then show ?thesis
      using assms Some q kids
      by (auto simp: lift_node_def Let_def linked_def)
  qed
qed

lemma linked_unifyNodes:
  "linked N h \<Longrightarrow> unifyNodes k h s = Some h' \<Longrightarrow> linked N h'"
  "linked N h \<Longrightarrow> unify_loop k h s i = Some h' \<Longrightarrow> linked N h'"
proof (induction k h s and k h s i arbitrary: h' and h' rule: unifyNodes_unify_loop.induct)
  case (2 k h s)
  then show ?case using linked_lift_node by simp
next
  case (4 k h s i)
  show ?case
  proof (cases "i < length (ckids (h (deref h s)))")
    case True
    with 4(4) obtain m where m: "unifyNodes k h (Kid_Slot (deref h s) i) = Some m" "unify_loop k m s (i + 1) = Some h'"
      by (auto split: option.splits)
    then show ?thesis using 4(2) [OF True m(1) 4(1) [OF True 4(3) m(1)]] by simp
  next
    case False
    with 4(3,4) show ?thesis by simp
  qed
qed simp_all

end
