(* ===== verification/Codegen_Safety.thy ===== *)
theory Codegen_Safety
  imports Codegen_Contracts Codegen_Store "HOL-Library.Sublist"
begin

text \<open>
  What holds of every run of the generator, each by an interpretation of the contracts of
  \<open>Codegen_Contracts\<close>: it comes to an end, it leaves the tree as it is, it only adds to what it has made, and
  every error has been reported.
\<close>

section \<open>The generator comes to an end\<close>

text \<open>What an assignment to an attribute leaves.\<close>

definition skeleton :: "gnode \<Rightarrow> nat option \<times> nat list \<times> nat \<times> ASTNodeType \<times> nat \<times> bool \<times> codegen_method" where
  "skeleton nd = (g_parent nd, g_children nd, g_depth nd, g_type nd, g_token nd, g_isExtern nd, g_codegen nd)"

definition same_tree :: "gstate \<Rightarrow> gstate \<Rightarrow> bool" where
  "same_tree s s' \<longleftrightarrow> (\<forall>n. skeleton (nodeStore s' n) = skeleton (nodeStore s n))"

lemma same_tree_nodes: "nodeStore s' = nodeStore s \<Longrightarrow> same_tree s s'"
  by (simp add: same_tree_def)

lemma same_tree_attribute: "attribute f \<Longrightarrow> same_tree s (s\<lparr>nodeStore := (nodeStore s)(n := f (nodeStore s n))\<rparr>)"
  by (auto simp: same_tree_def attribute_def skeleton_def)

text \<open>Children are ranked below their parents, and every node that is not at depth 0 is deeper than its parent. No
  struct waits for its node to be generated.\<close>

definition ranked :: "(nat \<Rightarrow> nat) \<Rightarrow> gstate \<Rightarrow> bool" where
  "ranked r s \<longleftrightarrow>
     (\<forall>n. list_all (\<lambda>c. r c < r n) (g_children (nodeStore s n))
        \<and> (g_depth (nodeStore s n) = 0 \<or> pred_option (\<lambda>p. g_depth (nodeStore s p) < g_depth (nodeStore s n)) (g_parent (nodeStore s n))))
     \<and> list_all (\<lambda>(name, sd). sourceNode sd = None) (structDefinitions s)"

lemma ranked_struct:
  "ranked r s \<Longrightarrow> sourceNode sd = None \<Longrightarrow> ranked r (s\<lparr>structDefinitions := (nm, sd) # filter (\<lambda>(x, _). x \<noteq> nm) (structDefinitions s)\<rparr>)"
  by (auto simp: ranked_def list_all_iff)

lemma ranked_source: "ranked r s \<Longrightarrow> map_of (structDefinitions s) nm = Some sd \<Longrightarrow> sourceNode sd = None"
  by (auto simp: ranked_def list_all_iff dest: map_of_SomeD)

lemma ranked_cong:
  assumes "same_tree s s'" and "structDefinitions s' = structDefinitions s"
  shows "ranked r s \<Longrightarrow> ranked r s'"
proof -
  have "g_parent (nodeStore s' n) = g_parent (nodeStore s n)" "g_children (nodeStore s' n) = g_children (nodeStore s n)"
    "g_depth (nodeStore s' n) = g_depth (nodeStore s n)" for n
    using assms(1) by (auto simp: same_tree_def skeleton_def)
  then show "ranked r s \<Longrightarrow> ranked r s'" using assms(2) by (simp add: ranked_def)
qed

lemma step_ranked: "same_tree s s' \<Longrightarrow> structDefinitions s' = structDefinitions s \<Longrightarrow> step (ranked r) (\<lambda>s s'. True) s s'"
  using ranked_cong by (auto simp: step_def)

interpretation ending: generator_steps "ranked r" "\<lambda>s s'. True" "\<lambda>e. e \<noteq> Out_Of_Fuel" r for r
proof unfold_locales
  fix s :: gstate and nm and sd :: structType and mT mF mI bds
  assume sd: "map_of (structDefinitions s) nm = Some sd"
  have "ranked r (s\<lparr>structDefinitions := (nm, sd\<lparr>members := mT, memberFunctions := mF, memberNameIndexes := mI\<rparr>)
      # filter (\<lambda>(x, _). x \<noteq> nm) (structDefinitions s), ir := (ir s)\<lparr>structBodies := bds\<rparr>\<rparr>)" if "ranked r s"
    using ranked_struct [OF that] ranked_source [OF that sd] by (simp add: ranked_def)
  then show "step (ranked r) (\<lambda>s s'. True) s (s\<lparr>structDefinitions := (nm, sd\<lparr>members := mT, memberFunctions := mF, memberNameIndexes := mI\<rparr>)
      # filter (\<lambda>(x, _). x \<noteq> nm) (structDefinitions s), ir := (ir s)\<lparr>structBodies := bds\<rparr>\<rparr>)"
    by (simp add: step_def)
next
  show "step (ranked r) (\<lambda>s s'. True) s (s\<lparr>structDefinitions := (nm, structType_of nm tk (Some h) mT mF mI)
      # filter (\<lambda>(x, _). x \<noteq> nm) (structDefinitions s)\<rparr>)" for s :: gstate and nm tk h mT mF mI
    by (simp add: step_def ranked_struct structType_of_def)
next
  show "g_depth (nodeStore s n) \<noteq> 0 \<Longrightarrow> g_parent (nodeStore s n) = Some p \<Longrightarrow>
      Out_Of_Fuel \<noteq> Out_Of_Fuel \<or> g_depth (nodeStore s p) < g_depth (nodeStore s n)" if "ranked r s" for s n p
    using that unfolding ranked_def by (metis option.pred_inject(2))
next
  show "map_of (structDefinitions s) nm = Some sd \<Longrightarrow> sourceNode sd = Some k \<Longrightarrow> Out_Of_Fuel \<noteq> Out_Of_Fuel" if "ranked r s" for s nm sd k
    using ranked_source [OF that] by simp
next
  show "attribute f \<Longrightarrow> step (ranked r) (\<lambda>s s'. True) s (s\<lparr>nodeStore := (nodeStore s)(n := f (nodeStore s n))\<rparr>)" for f s n
    by (simp add: step_ranked same_tree_attribute)
qed (auto intro!: step_ranked same_tree_nodes simp: ranked_def list_all_iff)

lemma load_heap_ranked:
  assumes "linked N h"
  shows "ranked (\<lambda>n. N - n) (load_heap h)"
proof -
  have "pred_option (\<lambda>p. node_depth (cinfo (h p)) < node_depth (cinfo (h n))) (cparent (h n))" for n
    using linked_parent [OF assms, of n] by (cases "cparent (h n)") auto
  moreover have "list_all (\<lambda>c. N - c < N - n) (ckids (h n))" for n
    using linked_kid [OF assms, of _ n] by (fastforce simp: list_all_iff)
  ultimately show ?thesis by (simp add: ranked_def load_heap_def node_of_cell_def Let_def)
qed

lemma generator_ends_linked:
  assumes "\<And>x. parse_double Env x \<noteq> Inl Out_Of_Fuel" and "linked N h" and "N < k"
  shows "generate_module Env k 0 (load_heap h) \<noteq> Inl Out_Of_Fuel"
proof -
  have "ok (ranked r) (\<lambda>s s'. True) (\<lambda>e. e \<noteq> Out_Of_Fuel) removeUnusedPrototypes" for r
    by (intro ending.ok_removeUnusedPrototypes step_ranked same_tree_nodes) simp_all
  then have "ok (ranked (\<lambda>n. N - n)) (\<lambda>s s'. True) (\<lambda>e. e \<noteq> Out_Of_Fuel) (generate_module Env k 0)"
    using assms by (intro ending.ok_passes) (auto simp: ending.within_def)
  then show ?thesis using ok_Inl load_heap_ranked [OF assms(2)] by blast
qed

text \<open>
  C6. The generator always comes to an end: on the tree of a program, with a bound above the number of its nodes on
  the depth of calls and of climbs, the three passes and the removal of unused functions return or stop the program,
  whatever the builder folds. No bound is reached.
\<close>

theorem generator_ends:
  assumes "\<And>x. parse_double Env x \<noteq> Inl Out_Of_Fuel" and "node_count t < k"
  shows "generate_module Env k 0 (load_tree t) \<noteq> Inl Out_Of_Fuel"
  unfolding load_tree_def by (rule generator_ends_linked [OF assms(1) heap_of_linked assms(2)])

lemma generator_ends_witness: "generate_module sample_env 13 0 (load_tree sample_program) \<noteq> Inl Out_Of_Fuel"
  by (rule generator_ends) (simp_all add: sample_env_def sample_program_def sample_node_def)

section \<open>The tree stays as it is\<close>

interpretation tree: generator_steps "\<lambda>s. True" same_tree "\<lambda>e. True" "\<lambda>n. 0"
  by unfold_locales (auto simp: step_def intro: same_tree_attribute same_tree_nodes, auto simp: same_tree_def)

lemma same_tree_ok: "ok (\<lambda>s. True) same_tree (\<lambda>e. True) (generate_module Env k root)"
  by (intro tree.ok_passes tree.ok_removeUnusedPrototypes) (auto simp: tree.within_def step_def same_tree_nodes)



section \<open>What has been made stays\<close>

text \<open>Functions keep their identities, all but the count of their uses. Instructions, blocks and functions of the
  module are added at the end, and so are reports. An error comes with a report.\<close>

definition identity :: "functionID \<Rightarrow> functionID" where
  "identity f = f\<lparr>uses := 0\<rparr>"

definition grows :: "gstate \<Rightarrow> gstate \<Rightarrow> bool" where
  "grows s s' \<longleftrightarrow>
     prefix (map identity (functionIDs s)) (map identity (functionIDs s'))
     \<and> prefix (moduleFunctions (ir s)) (moduleFunctions (ir s'))
     \<and> prefix (map bb_name (blocks (ir s))) (map bb_name (blocks (ir s')))
     \<and> prefix (emitted (ir s)) (emitted (ir s'))
     \<and> prefix (diagnostics s) (diagnostics s')
     \<and> (wasError s \<le> wasError s')
     \<and> (wasError s = wasError s' \<or> length (diagnostics s) < length (diagnostics s'))"

lemma grows_refl: "grows s s"
  by (simp add: grows_def)

lemma grows_trans: "grows s t \<Longrightarrow> grows t u \<Longrightarrow> grows s u"
  unfolding grows_def by (elim conjE, intro conjI; (rule prefix_order.trans; assumption)?) (auto dest: prefix_length_le)

lemma identity_update: "map identity (fs[j := (fs ! j)\<lparr>uses := u\<rparr>]) = map identity fs"
  by (rule nth_equalityI; cases "j < length fs") (auto simp: identity_def nth_list_update)

lemma name_update: "map bb_name (bs[j := (bs ! j)\<lparr>bb_parent := f\<rparr>]) = map bb_name bs"
  by (rule nth_equalityI; cases "j < length bs") (auto simp: nth_list_update)

interpretation growing: generator_steps "\<lambda>s. True" grows "\<lambda>e. True" "\<lambda>n. 0"
proof unfold_locales
  show "grows s s" for s by (rule grows_refl)
  show "grows s t \<Longrightarrow> grows t u \<Longrightarrow> grows s u" for s t u by (rule grows_trans)
qed (simp_all add: step_def grows_def identity_update name_update)

lemma grows_ok: "ok (\<lambda>s. True) grows (\<lambda>e. True) (generate_module Env k root)"
  by (intro growing.ok_passes growing.ok_removeUnusedPrototypes) (auto simp: growing.within_def step_def grows_def)



text \<open>
  C13. Every error is reported: reports are never lost, and when the passes end with \<open>wasError\<close> set there is a report
  that was not there before.
\<close>

theorem errors_reported:
  assumes "generate_module Env k root s = Inr (u, s')" and "\<not> wasError s"
  shows "prefix (diagnostics s) (diagnostics s') \<and> (wasError s' \<longrightarrow> diagnostics s' \<noteq> diagnostics s)"
  using ok_Inr [OF grows_ok _ assms(1)] assms(2) by (auto simp: grows_def)

lemma errors_reported_witness: "wasError failing_final \<and> diagnostics failing_final \<noteq> []"
  using errors_reported [OF failing_run] failing_error by (simp add: load_tree_starts)

section \<open>The stacks are balanced\<close>

text \<open>A method that reports no error leaves the stacks as it found them. After an error the name of a struct may
  stay on its stack: \<open>generateStruct\<close> returns without taking it off.\<close>

definition balanced :: "gstate \<Rightarrow> gstate \<Rightarrow> bool" where
  "balanced s s' \<longleftrightarrow> (wasError s \<le> wasError s')
     \<and> (wasError s' \<or> currentStructName s' = currentStructName s \<and> pipeOperationValue s' = pipeOperationValue s)"

interpretation balance: control "\<lambda>s. True" balanced "\<lambda>e. True" "\<lambda>n. 0"
  by unfold_locales (auto simp: balanced_def step_def)

interpretation balance: structs "\<lambda>s. True" balanced "\<lambda>e. True" "\<lambda>n. 0"
  by unfold_locales (auto simp: balanced_def step_def)

lemma balanced_pipe:
  assumes "ok (\<lambda>s. True) balanced (\<lambda>e. True) m"
  shows "ok (\<lambda>s. True) balanced (\<lambda>e. True) (with_pipe_value v m)"
proof (rule okI)
  fix s x s' assume "with_pipe_value v m s = Inr (x, s')"
  then obtain t where "m (s\<lparr>pipeOperationValue := v # pipeOperationValue s\<rparr>) = Inr (x, t)"
      "s' = t\<lparr>pipeOperationValue := tl (pipeOperationValue t)\<rparr>"
    by (auto simp: with_pipe_value_def gbind_Inr gmodify_def gret_def)
  then show "True \<and> balanced s s'" using ok_Inr [OF assms] by (fastforce simp: balanced_def)
qed simp

text \<open>A field that ends the method has reported an error.\<close>

lemma struct_field_returns: "struct_field k rec pass x sf s = Inr (Inr y, s') \<Longrightarrow> wasError s'"
  by (cases x) (auto simp: struct_field_def struct_member_def struct_function_def gbind_Inr gret_def split: if_splits dest!: failed_sets)

lemma struct_fields_return: "gloop (struct_field k rec pass) xs sf s = Inr (Inr y, s') \<Longrightarrow> wasError s'"
  by (rule gloop_returns [where P = wasError]) (rule struct_field_returns)

lemma balanced_struct:
  assumes "balance.calls_ok rec n" and "balance.within n k"
  shows "ok (\<lambda>s. True) balanced (\<lambda>e. True) (generateStruct_run k rec n pass)"
proof (rule okI)
  fix s x s' assume run: "generateStruct_run k rec n pass s = Inr (x, s')"
  let ?name = "tk_first (tokenStore s (g_token (nodeStore s n)))" and ?tk = "g_token (nodeStore s n)"
  let ?s1 = "s\<lparr>currentStructName := ?name # currentStructName s\<rparr>"
  let ?fields = "gbind (child n 0) (\<lambda>body. gbind (children body) (\<lambda>cs.
       gloop (struct_field k rec pass) (map (Pair 0) cs @ map (Pair 1) cs) \<lparr>sf_members = [], sf_types = [], sf_indexes = [], sf_functions = []\<rparr>))"
  let ?finish = "\<lambda>sf. if pass > 1 then gbind pop_struct_name (\<lambda>_. update_struct ?name sf) else create_struct ?name ?tk sf"
  have fields: "ok (\<lambda>s. True) balanced (\<lambda>e. True) ?fields"
    by (intro balance.ok_bind_child balance.ok_bind_children balance.ok_gloop)
      (auto simp: list_all_iff intro!: balance.ok_struct_field assms intro: balance.below_trans)
  have finish: "balanced s s'" if "?fields ?s1 = Inr (Inl sf, t)" "?finish sf t = Inr (x, s')" for sf t
  proof -
    have t: "balanced ?s1 t" using ok_Inr [OF fields _ that(1)] by simp
    let ?u = "t\<lparr>currentStructName := tl (currentStructName t)\<rparr>"
    have u: "balanced s ?u" using t by (auto simp: balanced_def)
    have "balanced ?u s'"
    proof (cases "pass > 1")
      case True
      then have "update_struct ?name sf ?u = Inr (x, s')" using that(2) by (simp add: pop_struct_name_def gbind_def gmodify_def)
      then show ?thesis using ok_Inr [OF balance.ok_update_struct] by blast
    next
      case False
      with that(2) show ?thesis
        by (auto simp: create_struct_def pop_struct_name_def gbind_Inr gmodify_def gets_def gret_def balanced_def dest!: balance.gmap_follow)
    qed
    with u show ?thesis by (rule balance.relation_trans)
  qed
  consider "failed n ''Struct cannot be redefined'' s = Inr (x, s')"
    | r t where "?fields ?s1 = Inr (r, t)" "(case r of Inr y \<Rightarrow> gret y | Inl sf \<Rightarrow> ?finish sf) t = Inr (x, s')"
    using run
    by (auto simp: generateStruct_run_def gbind_Inr node_def first_of_def gets_def gmodify_def simp del: One_nat_def split: if_splits)
  then have "balanced s s'"
  proof cases
    case 1
    then show ?thesis using failed_sets by (simp add: balanced_def)
  next
    case (2 r t)
    then show ?thesis
      using struct_fields_return finish by (cases r) (auto simp: balanced_def gbind_Inr gret_def)
  qed
  then show "True \<and> balanced s s'" by simp
qed simp

interpretation balance: generator_logic "\<lambda>s. True" balanced "\<lambda>e. True" "\<lambda>n. 0"
proof unfold_locales
qed (intro balance.ok_generate_branches balance.ok_generate_loop balance.ok_generate_function_body balanced_pipe balanced_struct; assumption)+

text \<open>
  C14. The stacks are balanced: when the passes end without an error, the stack of the structs that are being generated
  and the stack of piped values are what they were.
\<close>

theorem stacks_balanced:
  assumes "generate_module Env k root s = Inr (u, s')" and "\<not> wasError s'"
  shows "currentStructName s' = currentStructName s \<and> pipeOperationValue s' = pipeOperationValue s"
proof -
  have "ok (\<lambda>s. True) balanced (\<lambda>e. True) (generate_module Env k root)"
    by (intro balance.ok_passes balance.ok_removeUnusedPrototypes) (auto simp: balance.within_def step_def balanced_def)
  then show ?thesis using ok_Inr assms by (fastforce simp: balanced_def)
qed

lemma stacks_balanced_witness: "currentStructName sample_final = [] \<and> pipeOperationValue sample_final = []"
  using stacks_balanced [OF sample_run sample_no_error] by (simp add: load_tree_starts)

text \<open>With an error they need not be: each pass over the struct leaves its name behind.\<close>

lemma stack_left_after_error: "wasError failing_final \<and> length (currentStructName failing_final) = 2"
  using failing_error failing_names by simp

end
