(* ===== verification/Codegen_Blocks.thy ===== *)
theory Codegen_Blocks
  imports Codegen_Contracts Codegen_Trees
begin

text \<open>
  The blocks of a function: every block that the generator makes for a function ends in a terminator
  (\<open>ret\<close> or a branch), through any nesting of \<open>if\<close> and \<open>for\<close>.
\<close>

section \<open>Open blocks\<close>

text \<open>The instructions of a block in order. The space of a variable is made at the start of the entry block,
  wherever the insertion point is.\<close>

fun in_entry :: "'v instruction \<Rightarrow> bool" where
  "in_entry (Entry_Alloca f t name) \<longleftrightarrow> True"
| "in_entry _ \<longleftrightarrow> False"

definition block_code :: "nat \<Rightarrow> module_ir \<Rightarrow> llvalue instruction list" where
  "block_code b m = map snd (filter (\<lambda>(b', i). b' = Some b \<and> \<not> in_entry i) (emitted m))"

definition ended :: "nat \<Rightarrow> module_ir \<Rightarrow> bool" where
  "ended b m \<longleftrightarrow> (case rev (block_code b m) of [] \<Rightarrow> False | i # _ \<Rightarrow> terminator i)"

text \<open>The blocks that are not ended, the insertion point, and the number of functions that were begun.\<close>

definition unended :: "gstate \<Rightarrow> nat set" where
  "unended s = {b. b < length (blocks (ir s)) \<and> \<not> ended b (ir s)}"

definition insertion :: "gstate \<Rightarrow> nat set" where
  "insertion s = set_option (insertBlock (ir s))"

definition entries :: "gstate \<Rightarrow> nat" where
  "entries s = count_list (map bb_name (blocks (ir s))) ''entry''"

definition advances :: "gstate \<Rightarrow> gstate \<Rightarrow> bool" where
  "advances s s' \<longleftrightarrow> wasError s \<le> wasError s' \<and> entries s \<le> entries s'"

text \<open>After an error, and where another function was begun in between, nothing is said.\<close>

definition given_up :: "gstate \<Rightarrow> gstate \<Rightarrow> bool" where
  "given_up s s' \<longleftrightarrow> wasError s' \<or> entries s < entries s'"

definition structured :: "gstate \<Rightarrow> gstate \<Rightarrow> bool" where
  "structured s s' \<longleftrightarrow> advances s s' \<and> (given_up s s' \<or> unended s' \<subseteq> (unended s - insertion s) \<union> insertion s')"

lemma structured_advances: "structured s s' \<Longrightarrow> advances s s'"
  by (simp add: structured_def)

lemma structured_refl: "structured s s"
  by (auto simp: structured_def advances_def)

lemma structured_trans: "structured s t \<Longrightarrow> structured t u \<Longrightarrow> structured s u"
  by (auto simp: structured_def advances_def given_up_def)

text \<open>The parts of the state that blocks do not depend on.\<close>

lemma structured_same:
  "emitted (ir s') = emitted (ir s) \<Longrightarrow> blocks (ir s') = blocks (ir s) \<Longrightarrow> insertBlock (ir s') = insertBlock (ir s) \<Longrightarrow>
   wasError s \<le> wasError s' \<Longrightarrow> structured s s'"
  by (auto simp: structured_def advances_def unended_def insertion_def entries_def ended_def block_code_def)

lemma block_code_append:
  "block_code b (append_instruction i m) = block_code b m @ (if insertBlock m = Some b \<and> \<not> in_entry i then [i] else [])"
  by (simp add: block_code_def)

lemma ended_elsewhere: "insertBlock m \<noteq> Some b \<Longrightarrow> ended b (append_instruction i m) = ended b m"
  by (simp add: ended_def block_code_append)

lemma terminator_ends: "terminator i \<Longrightarrow> insertBlock m = Some b \<Longrightarrow> ended b (append_instruction i m)"
  using block_code_append [of b m i] by (cases i) (simp_all add: ended_def)

lemma terminator_keeps: "terminator i \<Longrightarrow> ended b m \<or> insertBlock m = Some b \<Longrightarrow> ended b (append_instruction i m)"
  using terminator_ends [of i m b] ended_elsewhere [of m b i] by blast

lemma structured_instruction: "structured s (s\<lparr>ir := append_instruction i (ir s)\<rparr>)"
  by (auto simp: structured_def advances_def unended_def insertion_def entries_def ended_elsewhere dest: ended_elsewhere)

interpretation blocks: stacks "\<lambda>s. True" structured "\<lambda>e. True" "\<lambda>n. 0"
proof unfold_locales
  show "structured s s" for s by (rule structured_refl)
  show "structured s t \<Longrightarrow> structured t u \<Longrightarrow> structured s u" for s t u by (rule structured_trans)
qed (auto simp: step_def intro!: structured_same structured_instruction)

section \<open>Counting\<close>

text \<open>Errors and begun functions are never taken back, in any method.\<close>

lemma entries_update: "map bb_name (bs[j := (bs ! j)\<lparr>bb_parent := f\<rparr>]) = map bb_name bs"
  by (rule nth_equalityI; cases "j < length bs") (auto simp: nth_list_update)

interpretation counting: generator_steps "\<lambda>s. True" advances "\<lambda>e. True" "\<lambda>n. 0"
  by unfold_locales (auto simp: step_def advances_def entries_def entries_update)

section \<open>Branches and loops\<close>

text \<open>What holds on the way, from a state \<open>s0\<close> on: the blocks of \<open>S\<close> have been made and wait for their code. Before
  a terminator the block at the insertion point is open too.\<close>

definition pending :: "gstate \<Rightarrow> nat set \<Rightarrow> gstate \<Rightarrow> bool" where
  "pending s0 S s \<longleftrightarrow> advances s0 s \<and> (given_up s0 s \<or> unended s - insertion s \<subseteq> (unended s0 - insertion s0) \<union> S)"

definition settled :: "gstate \<Rightarrow> nat set \<Rightarrow> gstate \<Rightarrow> bool" where
  "settled s0 S s \<longleftrightarrow> advances s0 s \<and> (given_up s0 s \<or> unended s \<subseteq> (unended s0 - insertion s0) \<union> S)"

lemma pending_start: "pending s {} s"
  by (auto simp: pending_def advances_def)

lemma pending_end: "pending s {} s' \<Longrightarrow> structured s s'"
  by (auto simp: pending_def structured_def)

lemma pending_structured: "pending s0 S s \<Longrightarrow> structured s s' \<Longrightarrow> pending s0 S s'"
  by (auto simp: pending_def structured_def advances_def given_up_def)

text \<open>A run of a method, from what holds before to what holds after.\<close>

definition runs :: "(gstate \<Rightarrow> bool) \<Rightarrow> 'a gen \<Rightarrow> ('a \<Rightarrow> gstate \<Rightarrow> bool) \<Rightarrow> bool" where
  "runs P m Q \<longleftrightarrow> (\<forall>s. P s \<longrightarrow> (case m s of Inl e \<Rightarrow> True | Inr (x, s') \<Rightarrow> Q x s'))"

lemma runs_intro: "(\<And>s x s'. P s \<Longrightarrow> m s = Inr (x, s') \<Longrightarrow> Q x s') \<Longrightarrow> runs P m Q"
  by (auto simp: runs_def split: sum.split)

lemma runsD: "runs P m Q \<Longrightarrow> P s \<Longrightarrow> m s = Inr (x, s') \<Longrightarrow> Q x s'"
  by (auto simp: runs_def)

lemma runs_bind: "runs P m Q \<Longrightarrow> (\<And>x. runs (Q x) (f x) Q') \<Longrightarrow> runs P (gbind m f) Q'"
  by (rule runs_intro) (auto simp: gbind_Inr dest: runsD)

lemma runs_gret: "(\<And>s. P s \<Longrightarrow> Q x s) \<Longrightarrow> runs P (gret x) Q"
  by (rule runs_intro) (auto simp: gret_def)

lemma runs_ub: "runs P ub Q"
  by (simp add: runs_def gfail_def)

lemma runs_ok: "ok (\<lambda>s. True) structured (\<lambda>e. True) m \<Longrightarrow> runs (pending s0 S) m (\<lambda>_. pending s0 S)"
  by (rule runs_intro) (auto dest: ok_Inr intro: pending_structured)

lemma runs_bind_ok:
  "ok (\<lambda>s. True) structured (\<lambda>e. True) m \<Longrightarrow> (\<And>x. runs (pending s0 S) (f x) Q) \<Longrightarrow> runs (pending s0 S) (gbind m f) Q"
  by (rule runs_bind [OF runs_ok])

lemma emits_terminator:
  assumes "terminator i" and "emits F i s = Inr (x, s')"
  shows "unended s' \<subseteq> unended s - insertion s" and "blocks (ir s') = blocks (ir s)" and "wasError s' = wasError s"
proof -
  have s': "s' = s\<lparr>ir := append_instruction i (ir s)\<rparr>"
    using assms by (cases i) (auto simp: emits_def emit_def ir_builder_def place_def gbind_Inr gret_def)
  have "b \<notin> unended s' \<or> b \<in> unended s - insertion s" for b
    using terminator_keeps [OF assms(1), of b "ir s"] unfolding s' unended_def insertion_def by auto
  then show "unended s' \<subseteq> unended s - insertion s" by blast
  show "blocks (ir s') = blocks (ir s)" and "wasError s' = wasError s" by (simp_all add: s')
qed

lemma runs_end: "terminator i \<Longrightarrow> runs (pending s0 S) (emits F i) (\<lambda>_. settled s0 S)"
proof (rule runs_intro)
  fix s x s' assume "terminator i" "emits F i s = Inr (x, s')"
  note emits_terminator [OF this]
  then show "settled s0 S s'" if "pending s0 S s"
    using that by (auto simp: pending_def settled_def advances_def given_up_def entries_def)
qed

lemma runs_bind_end:
  "terminator i \<Longrightarrow> (\<And>x. runs (settled s0 S) (f x) Q) \<Longrightarrow> runs (pending s0 S) (gbind (emits F i) f) Q"
  by (rule runs_bind [OF runs_end])

text \<open>A new block waits; its address is that of the next.\<close>

lemma runs_bind_create:
  assumes "name \<noteq> ''entry''" and "\<And>b. runs (pending s0 (insert b S)) (f b) Q"
  shows "runs (pending s0 S) (gbind (create_block name fn) f) Q"
proof (rule runs_bind [OF runs_intro assms(2)])
  show "pending s0 (insert b S) s'" if "pending s0 S s" "create_block name fn s = Inr (b, s')" for s b s'
    using that assms(1)
    by (fastforce simp: create_block_def gbind_Inr gets_def gmodify_def gret_def pending_def advances_def given_up_def entries_def unended_def
        insertion_def ended_def block_code_def less_Suc_eq)
qed

lemma runs_bind_point:
  assumes "\<And>x. runs (pending s0 (S - {b})) (f x) Q"
  shows "runs (settled s0 S) (gbind (set_insert_point b) f) Q"
proof (rule runs_bind [OF runs_intro assms])
  show "pending s0 (S - {b}) s'" if "settled s0 S s" "set_insert_point b s = Inr (x, s')" for s x s'
    using that by (fastforce simp: set_insert_point_def gmodify_def settled_def pending_def advances_def given_up_def entries_def unended_def
        insertion_def ended_def block_code_def)
qed

lemma insert_block_structured:
  "insert_block f b s = Inr (x, s') \<Longrightarrow> unended s' = unended s \<and> insertion s' = insertion s \<and> entries s' = entries s \<and> wasError s' = wasError s"
  by (cases f) (auto simp: insert_block_def follow_def gfail_def gret_def gmodify_def gbind_def unended_def insertion_def ended_def
      block_code_def entries_def entries_update)

lemma runs_bind_insert:
  assumes "\<And>x. runs (settled s0 S) (f x) Q"
  shows "runs (settled s0 S) (gbind (insert_block fn b) f) Q"
  by (rule runs_bind [OF runs_intro assms]) (auto dest!: insert_block_structured simp: settled_def advances_def given_up_def)

text \<open>A body that ends the method has reported an error.\<close>

lemma generate_body_returns: "generate_body rec at b pass s = Inr (Inr y, s') \<Longrightarrow> wasError s'"
  by (auto simp: generate_body_def no_generator_def gbind_Inr gret_def split: if_splits dest: failed_sets)

lemma runs_bind_return:
  assumes "ok (\<lambda>s. True) structured (\<lambda>e. True) m" and "\<And>s y s'. m s = Inr (Inr y, s') \<Longrightarrow> wasError s'"
    and "\<And>y s. pending s0 S s \<Longrightarrow> wasError s \<Longrightarrow> Q y s" and "\<And>u. runs (pending s0 S) (f u) Q"
  shows "runs (pending s0 S) (gbind m (\<lambda>r. case r of Inr y \<Rightarrow> gret y | Inl u \<Rightarrow> f u)) Q"
proof (rule runs_bind [OF runs_intro, where Q = "\<lambda>r s'. pending s0 S s' \<and> (\<forall>y. r = Inr y \<longrightarrow> wasError s')"])
  show "pending s0 S s' \<and> (\<forall>y. r = Inr y \<longrightarrow> wasError s')" if "pending s0 S s" "m s = Inr (r, s')" for s r s'
    using that assms(2) ok_Inr [OF assms(1) _ that(2)] by (auto intro: pending_structured)
next
  fix r
  show "runs (\<lambda>s'. pending s0 S s' \<and> (\<forall>y. r = Inr y \<longrightarrow> wasError s')) (case r of Inr y \<Rightarrow> gret y | Inl u \<Rightarrow> f u) Q"
  proof (cases r)
    case (Inl u)
    then show ?thesis using assms(4) by (auto intro: runs_intro dest: runsD)
  next
    case (Inr y)
    then show ?thesis using assms(3) by (auto intro!: runs_intro simp: gret_def)
  qed
qed

lemma runs_bind_body:
  assumes "ok (\<lambda>s. True) structured (\<lambda>e. True) (generate_body rec at b pass)"
    and "\<And>u. runs (pending s0 S) (f u) (\<lambda>_. structured s0)"
  shows "runs (pending s0 S) (gbind (generate_body rec at b pass) (\<lambda>r. case r of Inr y \<Rightarrow> gret y | Inl u \<Rightarrow> f u)) (\<lambda>_. structured s0)"
  by (rule runs_bind_return [OF assms(1) generate_body_returns _ assms(2)])
    (auto simp: pending_def structured_def given_up_def)

lemma runs_done: "S \<subseteq> {} \<Longrightarrow> runs (pending s0 S) (gret x) (\<lambda>_. structured s0)"
  by (rule runs_intro) (auto simp: gret_def intro: pending_end)

lemmas runs_bind_branch =
  runs_bind_end [of "Br b" for b, unfolded terminator.simps, OF TrueI]
  runs_bind_end [of "Cond_Br v b c" for v b c, unfolded terminator.simps, OF TrueI]

lemmas runs_binds = runs_bind_branch runs_bind_create runs_bind_point runs_bind_insert runs_bind_body runs_bind_ok runs_done

lemma ok_structured: "(\<And>s0. runs (pending s0 {}) m (\<lambda>_. structured s0)) \<Longrightarrow> ok (\<lambda>s. True) structured (\<lambda>e. True) m"
  by (rule okI) (auto dest: runsD intro: pending_start)

lemma structured_branches:
  assumes "blocks.calls_ok rec n"
  shows "ok (\<lambda>s. True) structured (\<lambda>e. True) (generate_branches F rec n pass v)"
  unfolding generate_branches_def
  by (rule ok_structured, intro runs_binds blocks.ok_emit blocks.ok_current_function blocks.ok_child blocks.ok_generate_body [OF assms])
    (auto simp: blocks.below_def)

lemma structured_loop:
  assumes "blocks.calls_ok rec n"
  shows "ok (\<lambda>s. True) structured (\<lambda>e. True) (generate_loop F rec n pass name rn v)"
  unfolding generate_loop_def
  by (rule ok_structured, intro runs_binds blocks.ok_access blocks.ok_checked_value [OF assms] blocks.ok_emit blocks.ok_emits
      blocks.ok_generate_body [OF assms])
    (auto simp: blocks.below_def)

section \<open>Functions\<close>

lemma calls_counting: "blocks.calls_ok rec n \<Longrightarrow> counting.calls_ok rec n"
  unfolding blocks.calls_ok_def counting.calls_ok_def blocks.below_def counting.below_def
  by (blast intro: ok_weaken [where R = structured and R' = advances] structured_advances)

text \<open>The default return ends the last block.\<close>

lemma runs_default_return: "runs (pending s0 S) (default_return F f) (\<lambda>_. settled s0 S)"
proof -
  have ends: "runs (pending s0 S) (emits F (Ret v)) (\<lambda>_. settled s0 S)" for v
    by (rule runs_end) simp
  show ?thesis
    unfolding default_return_def
    by (intro runs_bind_ok blocks.ok_function_info, split lltype.split) (auto intro: ends runs_ub)
qed

lemma enter_argument_returns: "enter_argument F n f fid x u s = Inr (Inr y, s') \<Longrightarrow> wasError s'"
  by (cases x) (auto simp: enter_argument_def gbind_Inr gret_def Let_def split: if_splits dest: failed_sets)

lemma enter_arguments_return: "gloop (enter_argument F n f fid) xs u s = Inr (Inr y, s') \<Longrightarrow> wasError s'"
  by (rule gloop_returns [where P = wasError]) (rule enter_argument_returns)

lemma settled_after_error: "pending s0 S s \<Longrightarrow> wasError s \<Longrightarrow> settled s0 S s"
  by (simp add: pending_def settled_def given_up_def)

lemma runs_function_code:
  assumes "blocks.calls_ok rec n"
  shows "runs (pending s0 S) (generate_function_code F rec n pass f fid) (\<lambda>_. settled s0 S)"
proof -
  have body: "runs (pending s0 S) (gbind (generate_body rec b b pass) (\<lambda>r. case r of Inr y \<Rightarrow> gret y
      | Inl _ \<Rightarrow> gbind (default_return F f) (\<lambda>_. gret (Val (Function_Ptr f))))) (\<lambda>_. settled s0 S)" for b
    by (rule runs_bind_return [OF _ generate_body_returns settled_after_error])
      (auto intro!: blocks.ok_generate_body [OF assms] runs_bind [OF runs_default_return] runs_gret simp: blocks.below_def)
  show ?thesis
    unfolding generate_function_code_def
  proof (rule runs_bind_ok [OF blocks.ok_function_info], rule runs_bind_return [OF _ enter_arguments_return settled_after_error])
    fix fi show "ok (\<lambda>s. True) structured (\<lambda>e. True)
        (gloop (enter_argument F n f fid) (map (\<lambda>i. (i, paramTys fi ! i, paramNames fi ! i)) [0..<length (paramTys fi)]) ())"
      by (intro blocks.ok_gloop blocks.ok_enter_argument)
  next
    show "runs (pending s0 S) (gbind (gets (\<lambda>s. filter (\<lambda>c. g_type (nodeStore s c) = Scope_Body) (g_children (nodeStore s n)))) (\<lambda>bodies.
         if bodies = [] then ub
         else gbind (generate_body rec (last bodies) (last bodies) pass) (\<lambda>r.
           case r of
             Inr y \<Rightarrow> gret y
           | Inl _ \<Rightarrow> gbind (default_return F f) (\<lambda>_. gret (Val (Function_Ptr f)))))) (\<lambda>_. settled s0 S)"
      by (intro runs_bind_ok blocks.ok_gets) (auto intro: body runs_ub)
  qed
qed

text \<open>The entry block of a function is new, and the insertion point moves there.\<close>

lemma function_body_blocks:
  assumes "blocks.calls_ok rec n" and "generate_function_body F rec n pass f s = Inr (x, s')"
  shows "wasError s \<le> wasError s'" and "entries s < entries s'"
    and "wasError s' \<or> Suc (entries s) < entries s' \<or> unended s' \<subseteq> unended s"
proof -
  obtain fid t where t: "generate_function_code F rec n pass f fid t = Inr (x, s')" and
    "t = s\<lparr>ir := (ir s)\<lparr>blocks := blocks (ir s) @ [\<lparr>bb_name = ''entry'', bb_parent = Some f\<rparr>], insertBlock := Some (length (blocks (ir s)))\<rparr>\<rparr>"
    using assms(2)
    by (auto simp: generate_function_body_def create_block_def set_insert_point_def function_id_def glift_def gbind_Inr gets_def gmodify_def
        gret_def rbind_eq_Inr)
  then have "wasError t = wasError s" "entries t = Suc (entries s)" "unended t - insertion t \<subseteq> unended s"
    by (auto simp: entries_def unended_def insertion_def ended_def block_code_def less_Suc_eq)
  moreover have "settled t {} s'"
    using runsD [OF runs_function_code [OF assms(1)] pending_start t] .
  ultimately show "wasError s \<le> wasError s'" and "entries s < entries s'"
    and "wasError s' \<or> Suc (entries s) < entries s' \<or> unended s' \<subseteq> unended s"
    by (auto simp: settled_def advances_def given_up_def)
qed

lemma structured_function_body:
  assumes "blocks.calls_ok rec n"
  shows "ok (\<lambda>s. True) structured (\<lambda>e. True) (generate_function_body F rec n pass f)"
proof (rule okI)
  fix s x s' assume "generate_function_body F rec n pass f s = Inr (x, s')"
  from function_body_blocks(1,2) [OF assms this] show "True \<and> structured s s'"
    by (simp add: structured_def advances_def given_up_def)
qed simp

interpretation blocks: generator_logic "\<lambda>s. True" structured "\<lambda>e. True" "\<lambda>n. 0"
proof unfold_locales
qed (intro structured_branches structured_loop structured_function_body blocks.ok_with_pipe_value blocks.ok_generateStruct; assumption)+

text \<open>
  C2. Every block ends in a terminator: when the generator has emitted the body of a function, with no error and with
  no other function begun inside it, the last instruction of every block is a return or a branch. A block of an
  earlier function that was ended stays so.
\<close>

theorem function_blocks_ended:
  assumes "generate_function_body (builder Env) (generate Env k) n pass f s = Inr (x, s')"
    and "\<not> wasError s'" and "entries s' = Suc (entries s)" and "b < length (blocks (ir s'))"
  shows "ended b (ir s') \<or> b < length (blocks (ir s)) \<and> \<not> ended b (ir s)"
proof -
  have "blocks.calls_ok (generate Env k) n"
    by (auto simp: blocks.calls_ok_def blocks.within_def intro!: blocks.ok_generate)
  then show ?thesis using function_body_blocks(3) [OF _ assms(1)] assms(2-4) by (auto simp: unended_def)
qed

text \<open>The function of the sample program, after its prototype was made.\<close>

definition sample_declared :: gstate where
  "sample_declared = (case output_code sample_env 13 1 0 (load_tree sample_program) of Inr (u, s) \<Rightarrow> s | Inl e \<Rightarrow> load_tree sample_program)"

lemma sample_body_runs:
  "case generate_function_body (builder sample_env) (generate sample_env 12) 1 2 0 sample_declared of Inl e \<Rightarrow> False
   | Inr (x, s) \<Rightarrow> \<not> wasError s \<and> entries s = 1 \<and> length (blocks (ir s)) = 4"
  "entries sample_declared = 0 \<and> length (blocks (ir sample_declared)) = 0"
  by code_simp+

lemma function_blocks_ended_witness:
  "\<exists>x s. generate_function_body (builder sample_env) (generate sample_env 12) 1 2 0 sample_declared = Inr (x, s) \<and> ended 3 (ir s)"
proof -
  obtain x s where s: "generate_function_body (builder sample_env) (generate sample_env 12) 1 2 0 sample_declared = Inr (x, s)"
      "\<not> wasError s" "entries s = Suc (entries sample_declared)" "3 < length (blocks (ir s))"
    using sample_body_runs by (auto split: sum.splits prod.splits)
  show ?thesis using function_blocks_ended [OF s] s(1) sample_body_runs(2) by simp
qed

text \<open>A terminator is not always the last instruction of its block: the default return stands behind \<open>return 1;\<close>.\<close>

definition returning_program :: ast where
  "returning_program = sample_node Scope_Body generateScopeBody [] [
     sample_node Compiler_Define_Function generateFunction ''main''
       [sample_node Nothing_Node No_Codegen [] [], sample_node Type_Node No_Codegen ''int'' [],
        sample_node Argument_List No_Codegen [] [], sample_node Nothing_Node No_Codegen [] [],
        sample_node Scope_Body generateScopeBody []
          [sample_node Return_Node generateReturn ''return'' [sample_node Integer_Node generateConstant ''1'' []]]]]"

lemma return_behind_return:
  "case generate_module sample_env 13 0 (load_tree returning_program) of Inl e \<Rightarrow> False
   | Inr (u, s) \<Rightarrow> \<not> wasError s \<and> block_code 0 (ir s) = [Ret (Some (Const_Int 32 1)), Ret None]"
  by code_simp

end
