(* ===== verification/Codegen_Machine.thy ===== *)
theory Codegen_Machine
  imports Codegen_State
begin

unbundle bit_operations_syntax

text \<open>
  A machine for the instructions that the generator emits for programs over \<open>int\<close>, and the meaning of these programs:
  variables of type \<open>int\<close>, assignments, declarations, \<open>if\<close> and \<open>for\<close>, over 32-bit words.
\<close>

section \<open>The machine\<close>

text \<open>Registers hold the results of instructions by their numbers, memory the contents of stack slots. A truth value is
  the number 0 or 1.\<close>

type_synonym machine = "(nat \<Rightarrow> 32 word) \<times> (nat \<Rightarrow> 32 word)"

fun value_in :: "(nat \<Rightarrow> 32 word) \<Rightarrow> llvalue \<Rightarrow> 32 word option" where
  "value_in regs (Const_Int w i) = (if w = 32 then Some (word_of_int i) else None)"
| "value_in regs (Instr n t) = (if t = Int_Ty 32 then Some (regs n) else None)"
| "value_in regs _ = None"

fun bit_in :: "(nat \<Rightarrow> 32 word) \<Rightarrow> llvalue \<Rightarrow> bool option" where
  "bit_in regs (Const_Int w i) = (if w = 1 then Some (odd i) else None)"
| "bit_in regs (Instr n t) = (if t = Int_Ty 1 then Some (regs n \<noteq> 0) else None)"
| "bit_in regs _ = None"

text \<open>Addition, subtraction and multiplication wrap around; a quotient or shift that is undefined has no result.\<close>

fun word_op :: "binary_op \<Rightarrow> 32 word \<Rightarrow> 32 word \<Rightarrow> 32 word option" where
  "word_op Add x y = Some (x + y)"
| "word_op Sub x y = Some (x - y)"
| "word_op Mul x y = Some (x * y)"
| "word_op SDiv x y = (if y = 0 \<or> sint x = - (2 ^ 31) \<and> sint y = - 1 then None else Some (word_of_int (cdiv (sint x) (sint y))))"
| "word_op SRem x y = (if y = 0 \<or> sint x = - (2 ^ 31) \<and> sint y = - 1 then None
     else Some (word_of_int (sint x - sint y * cdiv (sint x) (sint y))))"
| "word_op And x y = Some (x AND y)"
| "word_op Or x y = Some (x OR y)"
| "word_op Xor x y = Some (x XOR y)"
| "word_op Shl x y = (if unat y < 32 then Some (push_bit (unat y) x) else None)"
| "word_op LShr x y = (if unat y < 32 then Some (drop_bit (unat y) x) else None)"
| "word_op _ x y = None"

fun word_test :: "predicate \<Rightarrow> 32 word \<Rightarrow> 32 word \<Rightarrow> bool option" where
  "word_test ICMP_EQ x y = Some (x = y)"
| "word_test ICMP_NE x y = Some (x \<noteq> y)"
| "word_test ICMP_SLT x y = Some (sint x < sint y)"
| "word_test ICMP_SLE x y = Some (sint x \<le> sint y)"
| "word_test ICMP_SGT x y = Some (sint x > sint y)"
| "word_test ICMP_SGE x y = Some (sint x \<ge> sint y)"
| "word_test _ x y = None"

fun bit_test :: "predicate \<Rightarrow> bool \<Rightarrow> bool \<Rightarrow> bool option" where
  "bit_test ICMP_EQ x y = Some (x = y)"
| "bit_test ICMP_NE x y = Some (x \<noteq> y)"
| "bit_test _ x y = None"

definition test :: "predicate \<Rightarrow> (nat \<Rightarrow> 32 word) \<Rightarrow> llvalue \<Rightarrow> llvalue \<Rightarrow> bool option" where
  "test p regs v w =
     (case (value_in regs v, value_in regs w, bit_in regs v, bit_in regs w) of
        (Some x, Some y, _, _) \<Rightarrow> word_test p x y
      | (_, _, Some x, Some y) \<Rightarrow> bit_test p x y
      | _ \<Rightarrow> None)"

text \<open>An instruction with its number. The space of a variable is there from the beginning of the function.\<close>

definition perform :: "nat \<Rightarrow> llvalue instruction \<Rightarrow> machine \<Rightarrow> machine option" where
  "perform k ins = (\<lambda>(regs, mem).
     case ins of
       Binary b v w \<Rightarrow>
         (case (value_in regs v, value_in regs w) of
            (Some x, Some y) \<Rightarrow> map_option (\<lambda>z. (regs(k := z), mem)) (word_op b x y)
          | _ \<Rightarrow> None)
     | Compare p v w \<Rightarrow> map_option (\<lambda>t. (regs(k := of_bool t), mem)) (test p regs v w)
     | Load t (Stack_Slot j u) \<Rightarrow> if t = Int_Ty 32 \<and> u = Int_Ty 32 then Some (regs(k := mem j), mem) else None
     | Store v (Stack_Slot j u) \<Rightarrow> if u = Int_Ty 32 then map_option (\<lambda>x. (regs, mem(j := x))) (value_in regs v) else None
     | Entry_Alloca f t name \<Rightarrow> Some (regs, mem)
     | _ \<Rightarrow> None)"

text \<open>A configuration is a block, a position in the list of all instructions, and the machine. Instructions of other
  blocks are passed over; a branch goes to the start of a block.\<close>

type_synonym code = "(nat option \<times> llvalue instruction) list"
type_synonym configuration = "nat \<times> nat \<times> machine"

definition control :: "nat \<Rightarrow> nat \<Rightarrow> llvalue instruction \<Rightarrow> machine \<Rightarrow> configuration option" where
  "control b i ins c =
     (case ins of
        Br b' \<Rightarrow> Some (b', 0, c)
      | Cond_Br v b1 b2 \<Rightarrow> map_option (\<lambda>t. (if t then b1 else b2, 0, c)) (bit_in (fst c) v)
      | _ \<Rightarrow> map_option (\<lambda>c'. (b, Suc i, c')) (perform i ins c))"

fun step_of :: "code \<Rightarrow> configuration \<Rightarrow> configuration option" where
  "step_of E (b, i, c) =
     (if i < length E
      then if fst (E ! i) = Some b then control b i (snd (E ! i)) c else Some (b, Suc i, c)
      else None)"

inductive moves :: "code \<Rightarrow> configuration \<Rightarrow> configuration \<Rightarrow> bool" for E where
  stay: "moves E x x"
| move: "step_of E x = Some y \<Longrightarrow> moves E y z \<Longrightarrow> moves E x z"

lemma moves_trans: "moves E x y \<Longrightarrow> moves E y z \<Longrightarrow> moves E x z"
  by (induction rule: moves.induct) (auto intro: moves.intros)

lemma moves_one: "step_of E x = Some y \<Longrightarrow> moves E x y"
  by (blast intro: moves.intros)

lemma passes_over:
  "i \<le> k \<Longrightarrow> k \<le> length E \<Longrightarrow> (\<And>j. i \<le> j \<Longrightarrow> j < k \<Longrightarrow> fst (E ! j) \<noteq> Some b) \<Longrightarrow> moves E (b, i, c) (b, k, c)"
proof (induction "k - i" arbitrary: i)
  case 0
  then show ?case by (simp add: stay)
next
  case (Suc d)
  then have "moves E (b, Suc i, c) (b, k, c)" by simp
  moreover have "step_of E (b, i, c) = Some (b, Suc i, c)" using Suc by simp
  ultimately show ?case by (blast intro: move)
qed

section \<open>Programs\<close>

datatype expr = Lit int | Var string | Op ASTNodeType expr expr

datatype cond = Test ASTNodeType expr expr

datatype stmt =
    Assign string expr
  | Declare string expr
  | If_Else cond "stmt list" "stmt list"
  | For_Range string expr expr "stmt list"
  | Block "stmt list"

text \<open>What the operators of the language mean on \<open>int\<close>.\<close>

definition source_op :: "ASTNodeType \<Rightarrow> 32 word \<Rightarrow> 32 word \<Rightarrow> 32 word option" where
  "source_op f x y =
     (let divides = (y \<noteq> 0 \<and> (sint x \<noteq> - (2 ^ 31) \<or> sint y \<noteq> - 1)); quotient = cdiv (sint x) (sint y)
      in if f = Expression_Plus then Some (x + y)
         else if f = Expression_Minus then Some (x - y)
         else if f = Expression_Times then Some (x * y)
         else if f = Expression_Divide then (if divides then Some (word_of_int quotient) else None)
         else if f = Expression_Modulo then (if divides then Some (word_of_int (sint x - sint y * quotient)) else None)
         else if f = Bitwise_And then Some (x AND y)
         else if f = Bitwise_Or then Some (x OR y)
         else if f = Bitwise_Xor then Some (x XOR y)
         else if f = Bitwise_Shift_Left then (if unat y < 32 then Some (push_bit (unat y) x) else None)
         else if f = Bitwise_Shift_Right then (if unat y < 32 then Some (drop_bit (unat y) x) else None)
         else None)"

definition source_test :: "ASTNodeType \<Rightarrow> 32 word \<Rightarrow> 32 word \<Rightarrow> bool option" where
  "source_test f x y =
     (if f = Compare_Equal then Some (x = y)
      else if f = Compare_Not then Some (x \<noteq> y)
      else if f = Compare_Less then Some (sint x < sint y)
      else if f = Compare_LessEqual then Some (sint x \<le> sint y)
      else if f = Compare_Greater then Some (sint x > sint y)
      else if f = Compare_GreaterEqual then Some (sint x \<ge> sint y)
      else None)"

type_synonym store = "string \<Rightarrow> 32 word"

fun expr_value :: "store \<Rightarrow> expr \<Rightarrow> 32 word option" where
  "expr_value \<sigma> (Lit i) = Some (word_of_int i)"
| "expr_value \<sigma> (Var x) = Some (\<sigma> x)"
| "expr_value \<sigma> (Op f a b) = Option.bind (expr_value \<sigma> a) (\<lambda>x. Option.bind (expr_value \<sigma> b) (source_op f x))"

fun cond_value :: "store \<Rightarrow> cond \<Rightarrow> bool option" where
  "cond_value \<sigma> (Test f a b) = Option.bind (expr_value \<sigma> a) (\<lambda>x. Option.bind (expr_value \<sigma> b) (source_test f x))"

text \<open>
  Execution. A loop counts in its variable up to an end that is evaluated again before every round; the value that the
  variable has before a round decides the next, whatever the body assigns to it.
\<close>

inductive exec :: "stmt \<Rightarrow> store \<Rightarrow> store \<Rightarrow> bool"
  and execs :: "stmt list \<Rightarrow> store \<Rightarrow> store \<Rightarrow> bool"
  and rounds :: "string \<Rightarrow> expr \<Rightarrow> stmt list \<Rightarrow> store \<Rightarrow> store \<Rightarrow> bool" where
  assigned: "expr_value \<sigma> e = Some v \<Longrightarrow> exec (Assign x e) \<sigma> (\<sigma>(x := v))"
| declared: "expr_value \<sigma> e = Some v \<Longrightarrow> exec (Declare x e) \<sigma> (\<sigma>(x := v))"
| branched: "cond_value \<sigma> c = Some t \<Longrightarrow> execs (if t then A else B) \<sigma> \<sigma>' \<Longrightarrow> exec (If_Else c A B) \<sigma> \<sigma>'"
| looped: "expr_value \<sigma> a = Some v \<Longrightarrow> rounds x b body (\<sigma>(x := v)) \<sigma>' \<Longrightarrow> exec (For_Range x a b body) \<sigma> \<sigma>'"
| nested: "execs body \<sigma> \<sigma>' \<Longrightarrow> exec (Block body) \<sigma> \<sigma>'"
| nothing: "execs [] \<sigma> \<sigma>"
| sequence: "exec s \<sigma> \<sigma>1 \<Longrightarrow> execs ss \<sigma>1 \<sigma>' \<Longrightarrow> execs (s # ss) \<sigma> \<sigma>'"
| finished: "expr_value \<sigma> b = Some v \<Longrightarrow> \<not> sint (\<sigma> x) < sint v \<Longrightarrow> rounds x b body \<sigma> \<sigma>"
| round: "expr_value \<sigma> b = Some v \<Longrightarrow> sint (\<sigma> x) < sint v \<Longrightarrow> execs body \<sigma> \<sigma>1 \<Longrightarrow>
    rounds x b body (\<sigma>1(x := \<sigma> x + 1)) \<sigma>' \<Longrightarrow> rounds x b body \<sigma> \<sigma>'"

inductive_cases exec_cases: "exec (Assign x e) \<sigma> \<sigma>'" "exec (Declare x e) \<sigma> \<sigma>'" "exec (If_Else c A B) \<sigma> \<sigma>'"
  "exec (For_Range x a b body) \<sigma> \<sigma>'" "exec (Block body) \<sigma> \<sigma>'" "execs [] \<sigma> \<sigma>'" "execs (s # ss) \<sigma> \<sigma>'"

text \<open>Which names are variables of type \<open>int\<close>, which are not declared, and of which nothing is known: a loop leaves
  its variable visible behind it, with a value that the program does not define.\<close>

datatype status = Visible | Absent | Unknown

fun after :: "stmt \<Rightarrow> (string \<Rightarrow> status) \<Rightarrow> string \<Rightarrow> status" where
  "after (Declare x e) D = D(x := Visible)"
| "after (For_Range x a b body) D = D(x := Unknown)"
| "after _ D = D"

fun expr_ok :: "(string \<Rightarrow> status) \<Rightarrow> expr \<Rightarrow> bool" where
  "expr_ok D (Lit i) \<longleftrightarrow> True"
| "expr_ok D (Var x) \<longleftrightarrow> D x = Visible"
| "expr_ok D (Op f a b) \<longleftrightarrow> expr_ok D a \<and> expr_ok D b"

fun cond_ok :: "(string \<Rightarrow> status) \<Rightarrow> cond \<Rightarrow> bool" where
  "cond_ok D (Test f a b) \<longleftrightarrow> expr_ok D a \<and> expr_ok D b"

fun stmt_ok :: "(string \<Rightarrow> status) \<Rightarrow> stmt \<Rightarrow> bool"
  and stmts_ok :: "(string \<Rightarrow> status) \<Rightarrow> stmt list \<Rightarrow> bool" where
  "stmt_ok D (Assign x e) \<longleftrightarrow> D x = Visible \<and> expr_ok D e"
| "stmt_ok D (Declare x e) \<longleftrightarrow> D x = Absent \<and> expr_ok D e"
| "stmt_ok D (If_Else c A B) \<longleftrightarrow> cond_ok D c \<and> stmts_ok D A \<and> stmts_ok D B"
| "stmt_ok D (For_Range x a b body) \<longleftrightarrow> D x \<noteq> Visible \<and> expr_ok D a \<and> expr_ok D b \<and> stmts_ok (D(x := Visible)) body"
| "stmt_ok D (Block body) \<longleftrightarrow> stmts_ok D body"
| "stmts_ok D [] \<longleftrightarrow> True"
| "stmts_ok D (s # ss) \<longleftrightarrow> stmt_ok D s \<and> stmts_ok (after s D) ss"

lemma source_op_table:
  "source_op f x y = Some z \<Longrightarrow> map_of integerOps f = Some b \<Longrightarrow> word_op b x y = Some z"
  by (auto simp: source_op_def Let_def integerOps_def split: if_splits)

lemma source_test_table:
  "source_test f x y = Some t \<Longrightarrow> map_of intCompareOps f = Some p \<Longrightarrow> word_test p x y = Some t"
  by (auto simp: source_test_def intCompareOps_def split: if_splits)

lemma expr_value_cong: "expr_ok D e \<Longrightarrow> (\<And>x. D x = Visible \<Longrightarrow> \<sigma>' x = \<sigma> x) \<Longrightarrow> expr_value \<sigma>' e = expr_value \<sigma> e"
  by (induction e) auto

end
