(* ===== verification/Codegen_Scopes.thy ===== *)
theory Codegen_Scopes
  imports Codegen_Machine
begin

text \<open>
  The lookup of variables, \<open>findNamedValue\<close>, while a body is generated: a name is found in the node itself, among the nodes
  in front of the place of use, and then further up; every statement that declares a variable changes what the statements
  behind it see.
\<close>

section \<open>The tree during generation\<close>

abbreviation names_of :: "gstate \<Rightarrow> nat \<Rightarrow> (string \<times> valueType) list" where
  "names_of s n \<equiv> g_namedValues (nodeStore s n)"

abbreviation parent_of :: "gstate \<Rightarrow> nat \<Rightarrow> nat option" where
  "parent_of s n \<equiv> g_parent (nodeStore s n)"

abbreviation kids_of :: "gstate \<Rightarrow> nat \<Rightarrow> nat list" where
  "kids_of s n \<equiv> g_children (nodeStore s n)"

abbreviation depth_of :: "gstate \<Rightarrow> nat \<Rightarrow> nat" where
  "depth_of s n \<equiv> g_depth (nodeStore s n)"

text \<open>A node is attached to its parent when it is one of its children, and so are the nodes above. The cells of nodes that were
  collapsed are still in the store, but nothing is attached to them.\<close>

inductive attached :: "gstate \<Rightarrow> nat \<Rightarrow> nat \<Rightarrow> bool" for s where
  "parent_of s n = Some p \<Longrightarrow> n \<in> set (kids_of s p) \<Longrightarrow> (\<And>q. parent_of s p = Some q \<Longrightarrow> attached s p q) \<Longrightarrow> attached s n p"

lemma attachedD:
  assumes "attached s n p"
  shows "parent_of s n = Some p" "n \<in> set (kids_of s p)" "parent_of s p = Some q \<Longrightarrow> attached s p q"
  using assms by (auto elim: attached.cases)

lemma attached_kid: "attached s n p \<Longrightarrow> parent_of s c = Some n \<Longrightarrow> c \<in> set (kids_of s n) \<Longrightarrow> attached s c n"
  using attachedD(1) by (metis attached.intros option.inject)

text \<open>Nodes are numbered in the order of a walk from the root.\<close>

definition ordered :: "gstate \<Rightarrow> bool" where
  "ordered s \<longleftrightarrow> (\<forall>n. (\<forall>p. attached s n p \<longrightarrow> p < n \<and> depth_of s p < depth_of s n)
     \<and> sorted_wrt (<) (kids_of s n) \<and> list_all (\<lambda>c. n < c) (kids_of s n))"

lemma ordered_parent: "ordered s \<Longrightarrow> attached s n p \<Longrightarrow> p < n \<and> depth_of s p < depth_of s n \<and> n \<in> set (kids_of s p)"
  using attachedD(2) by (auto simp: ordered_def)

lemma ordered_kid: "ordered s \<Longrightarrow> c \<in> set (kids_of s n) \<Longrightarrow> n < c"
  by (simp add: ordered_def list_all_iff)

text \<open>Generating statements over \<open>int\<close> changes the base types and the variables of nodes, and the module.\<close>

definition bare :: "gnode \<Rightarrow> gnode" where
  "bare nd = nd\<lparr>g_baseType := None, g_namedValues := []\<rparr>"

definition agree :: "gstate \<Rightarrow> gstate \<Rightarrow> bool" where
  "agree s s' \<longleftrightarrow> s'\<lparr>nodeStore := nodeStore s, ir := ir s\<rparr> = s \<and> (\<forall>n. bare (nodeStore s' n) = bare (nodeStore s n))"

lemma agree_refl: "agree s s"
  by (simp add: agree_def)

lemma agree_fields:
  assumes "agree s s'"
  shows "parent_of s' n = parent_of s n" "kids_of s' n = kids_of s n"
    "g_type (nodeStore s' n) = g_type (nodeStore s n)" "g_token (nodeStore s' n) = g_token (nodeStore s n)"
    "depth_of s' n = depth_of s n" "g_isRef (nodeStore s' n) = g_isRef (nodeStore s n)"
    "g_lvalue (nodeStore s' n) = g_lvalue (nodeStore s n)" "g_codegen (nodeStore s' n) = g_codegen (nodeStore s n)"
proof -
  have "bare (nodeStore s' n) = bare (nodeStore s n)" using assms by (simp add: agree_def)
  then show "parent_of s' n = parent_of s n" "kids_of s' n = kids_of s n"
    "g_type (nodeStore s' n) = g_type (nodeStore s n)" "g_token (nodeStore s' n) = g_token (nodeStore s n)"
    "depth_of s' n = depth_of s n" "g_isRef (nodeStore s' n) = g_isRef (nodeStore s n)"
    "g_lvalue (nodeStore s' n) = g_lvalue (nodeStore s n)" "g_codegen (nodeStore s' n) = g_codegen (nodeStore s n)"
    unfolding bare_def by (cases "nodeStore s n"; cases "nodeStore s' n"; simp)+
qed

lemma agree_attached:
  assumes "agree s s'"
  shows "attached s' n p = attached s n p"
proof
  show "attached s' n p \<Longrightarrow> attached s n p" by (induction rule: attached.induct) (auto intro: attached.intros simp: agree_fields [OF assms])
  show "attached s n p \<Longrightarrow> attached s' n p" by (induction rule: attached.induct) (auto intro: attached.intros simp: agree_fields [OF assms])
qed

lemmas agree_nodes = agree_fields agree_attached

lemma agree_rest:
  assumes "agree s s'"
  shows "tokenStore s' = tokenStore s" "functionIDs s' = functionIDs s" "structDefinitions s' = structDefinitions s"
    "typeSigns s' = typeSigns s" "currentStructName s' = currentStructName s" "wasError s' = wasError s"
  using assms by (cases s; cases s'; simp add: agree_def)+

lemma agree_trans: "agree s t \<Longrightarrow> agree t u \<Longrightarrow> agree s u"
  by (cases s; cases t; cases u) (auto simp: agree_def)

lemma agree_module: "agree s (s\<lparr>ir := m\<rparr>)"
  by (simp add: agree_def)

lemma agree_base_type: "agree s (s\<lparr>nodeStore := (nodeStore s)(n := (nodeStore s n)\<lparr>g_baseType := t\<rparr>)\<rparr>)"
  by (simp add: agree_def bare_def)

lemma agree_names: "agree s (s\<lparr>nodeStore := (nodeStore s)(n := (nodeStore s n)\<lparr>g_namedValues := vs\<rparr>)\<rparr>)"
  by (simp add: agree_def bare_def)

lemma agree_ordered: "agree s s' \<Longrightarrow> ordered s \<Longrightarrow> ordered s'"
  by (simp add: ordered_def agree_nodes)

section \<open>Lookups\<close>

abbreviation before :: "nat \<Rightarrow> nat list \<Rightarrow> nat list" where
  "before c cs \<equiv> takeWhile (\<lambda>m. m \<noteq> c) cs"

lemma named_in_run: "named_in cs (Some c) x s = Inr (map_of (concat (map (names_of s) (before c cs))) x, s)"
  by (induction cs) (auto simp: gret_def gbind_def node_def gets_def map_add_def split: option.split)

text \<open>What a node's parent has in front of the node.\<close>

definition in_front :: "gstate \<Rightarrow> nat \<Rightarrow> nat \<Rightarrow> (string \<times> valueType) list" where
  "in_front s p c = names_of s p @ concat (map (names_of s) (before c (kids_of s p)))"

lemma find_up_run:
  assumes "0 < depth_of s p"
  shows "find_up (Suc k) (Some p) (Some c) x s =
    (case map_of (in_front s p c) x of Some v \<Rightarrow> Inr (Some v, s) | None \<Rightarrow> find_up k (parent_of s p) (Some p) x s)"
  using assms
  by (auto simp: in_front_def follow_def gbind_def gret_def node_def gets_def named_in_run map_add_def split: option.split)

lemma find_up_root:
  "depth_of s p = 0 \<Longrightarrow> find_up (Suc k) (Some p) (Some c) x s = Inr (map_of (names_of s p) x, s)"
  by (auto simp: follow_def gbind_def gret_def node_def gets_def split: option.split)

declare find_up.simps(2) [simp del]

lemma find_up_null [simp]: "find_up k None c x s \<noteq> Inr r"
  by (cases k) (simp_all add: find_up.simps(2) follow_def gfail_def)

lemma find_up_mono:
  "find_up k p (Some c) x s = Inr r \<Longrightarrow> k \<le> k' \<Longrightarrow> find_up k' p (Some c) x s = Inr r"
proof (induction k arbitrary: k' p c)
  case 0
  then show ?case by (simp add: gfail_def)
next
  case (Suc k)
  obtain q where p: "p = Some q" using Suc.prems(1) by (cases p) auto
  obtain j where k': "k' = Suc j" "k \<le> j" using Suc.prems(2) by (cases k') auto
  show ?case
  proof (cases "depth_of s q = 0")
    case True
    then show ?thesis using Suc.prems(1) p k' by (simp add: find_up_root)
  next
    case False
    then show ?thesis using Suc.prems(1) Suc.IH [OF _ k'(2)] p k'(1) by (auto simp: find_up_run split: option.splits)
  qed
qed

text \<open>Nodes further down do not matter.\<close>

lemma before_less: "ordered s \<Longrightarrow> c \<in> set (kids_of s p) \<Longrightarrow> m \<in> set (before c (kids_of s p)) \<Longrightarrow> m < c"
proof -
  have "sorted_wrt (<) cs \<Longrightarrow> c \<in> set cs \<Longrightarrow> m \<in> set (before c cs) \<Longrightarrow> m < c" for cs
    by (induction cs) (auto split: if_splits)
  then show "ordered s \<Longrightarrow> c \<in> set (kids_of s p) \<Longrightarrow> m \<in> set (before c (kids_of s p)) \<Longrightarrow> m < c"
    unfolding ordered_def by blast
qed

lemma in_front_cong:
  assumes "ordered s" and "agree s s'" and "attached s c p" and "\<forall>m < c. names_of s' m = names_of s m"
  shows "in_front s' p c = in_front s p c"
proof -
  have p: "p < c" "c \<in> set (kids_of s p)" using ordered_parent [OF assms(1,3)] by auto
  have "names_of s' m = names_of s m" if "m \<in> set (before c (kids_of s p))" for m
    using before_less [OF assms(1) p(2) that] assms(4) by simp
  then show ?thesis using p(1) assms(4) by (simp add: in_front_def agree_nodes [OF assms(2)] cong: map_cong)
qed

lemma find_up_cong:
  assumes "ordered s" and "agree s s'"
  shows "\<forall>m < c. names_of s' m = names_of s m \<Longrightarrow> attached s c p \<Longrightarrow> find_up k (Some p) (Some c) x s = Inr (r, s) \<Longrightarrow>
    find_up k (Some p) (Some c) x s' = Inr (r, s')"
proof (induction k arbitrary: p c)
  case 0
  then show ?case by (simp add: gfail_def)
next
  case (Suc k)
  note front = in_front_cong [OF assms Suc.prems(2,1)]
  have p: "p < c" using ordered_parent [OF assms(1) Suc.prems(2)] by simp
  show ?case
  proof (cases "depth_of s p = 0")
    case True
    then show ?thesis using Suc.prems p by (simp add: find_up_root agree_nodes [OF assms(2)])
  next
    case False
    have "find_up k (parent_of s p) (Some p) x s' = Inr (r, s')" if "find_up k (parent_of s p) (Some p) x s = Inr (r, s)"
    proof (cases "parent_of s p")
      case None
      then show ?thesis using that by auto
    next
      case (Some q)
      then show ?thesis using that Suc.IH [of p q] Suc.prems(1) p attachedD(3) [OF Suc.prems(2) Some] by simp
    qed
    then show ?thesis
      using False Suc.prems(3) front by (auto simp: find_up_run agree_nodes [OF assms(2)] split: option.splits)
  qed
qed

section \<open>What a node sees\<close>

definition view :: "gstate \<Rightarrow> nat \<Rightarrow> string \<Rightarrow> valueType option \<Rightarrow> bool" where
  "view s n x r \<longleftrightarrow> findNamedValue (parent_of s n) (Some n) x s = Inr (r, s)"

lemma findNamedValue_run: "findNamedValue (Some p) c x s = find_up (Suc (depth_of s p)) (Some p) c x s"
  by (simp add: findNamedValue_def follow_def gbind_def gret_def node_def gets_def)

lemma view_some: "attached s n p \<Longrightarrow> view s n x r \<longleftrightarrow> find_up (Suc (depth_of s p)) (Some p) (Some n) x s = Inr (r, s)"
  by (simp add: attachedD(1) view_def findNamedValue_run)

lemma view_cong:
  assumes "ordered s" and "agree s s'" and "\<forall>m < n. names_of s' m = names_of s m" and "attached s n p" and "view s n x r"
  shows "view s' n x r"
  using assms find_up_cong [OF assms(1-4)] by (simp add: view_some agree_nodes [OF assms(2)])

text \<open>A child sees what stands in front of it, and then what its parent sees.\<close>

lemma view_child:
  assumes "ordered s" and "attached s c n" and "attached s n q" and "view s n x r"
  shows "view s c x (case map_of (in_front s n c) x of Some v \<Rightarrow> Some v | None \<Rightarrow> r)"
proof -
  have n: "0 < depth_of s n" "Suc (depth_of s q) \<le> depth_of s n" using ordered_parent [OF assms(1,3)] by auto
  have "find_up (depth_of s n) (Some q) (Some n) x s = Inr (r, s)"
    using assms(4) find_up_mono [OF _ n(2)] by (simp add: view_some [OF assms(3)])
  then show ?thesis using n(1) by (auto simp: view_some [OF assms(2)] find_up_run attachedD(1) [OF assms(3)] split: option.split)
qed

text \<open>The next statement sees what its predecessor saw, and what that one has declared.\<close>

lemma before_next: "distinct cs \<Longrightarrow> cs = pre @ m # m' # post \<Longrightarrow> before m cs = pre \<and> before m' cs = pre @ [m]"
  by (auto simp: takeWhile_append)

lemma view_next:
  assumes "ordered s" and "agree s s'" and kids: "kids_of s p = pre @ m # m' # post" and p: "attached s p q"
    and m: "attached s m p" "attached s m' p" and same: "\<forall>j < m. names_of s' j = names_of s j"
  shows "map_of (names_of s' m) x = None \<Longrightarrow> view s m x r \<Longrightarrow> view s' m' x r"
    and "map_of (names_of s' m) x = Some v \<Longrightarrow> view s m x None \<Longrightarrow> view s' m' x (Some v)"
proof -
  have d: "0 < depth_of s p" using ordered_parent [OF assms(1) p] by simp
  have "distinct (kids_of s p)" using assms(1) by (auto simp: ordered_def strict_sorted_iff)
  note split = before_next [OF this kids]
  have "in_front s' p m = in_front s p m" using in_front_cong [OF assms(1,2) m(1) same] .
  then have front: "in_front s' p m' = in_front s p m @ names_of s' m"
    using split by (simp add: in_front_def agree_nodes [OF assms(2)])
  have below: "\<forall>j < p. names_of s' j = names_of s j" using same ordered_parent [OF assms(1) m(1)] by auto
  have up: "find_up k (Some q) (Some p) x s = Inr (r, s) \<Longrightarrow> find_up k (Some q) (Some p) x s' = Inr (r, s')" for k r
    by (rule find_up_cong [OF assms(1,2) below p])
  show "map_of (names_of s' m) x = None \<Longrightarrow> view s m x r \<Longrightarrow> view s' m' x r"
    using d m p up attachedD(1) [OF p] by (auto simp: view_some agree_nodes [OF assms(2)] find_up_run front map_add_def split: option.splits)
  show "map_of (names_of s' m) x = Some v \<Longrightarrow> view s m x None \<Longrightarrow> view s' m' x (Some v)"
    using d m p attachedD(1) [OF p] by (auto simp: view_some agree_nodes [OF assms(2)] find_up_run front map_add_def split: option.splits)
qed

text \<open>The variables that are known at a node, each with the number of its stack slot.\<close>

definition sees :: "gstate \<Rightarrow> nat \<Rightarrow> (string \<Rightarrow> status) \<Rightarrow> (string \<Rightarrow> nat) \<Rightarrow> bool" where
  "sees s n D slot \<longleftrightarrow> (\<forall>x. (D x = Visible \<longrightarrow> (\<exists>v. view s n x (Some v) \<and> vt_val v = Stack_Slot (slot x) (Int_Ty 32)))
     \<and> (D x = Absent \<longrightarrow> view s n x None))"

lemma sees_cong:
  assumes "ordered s" and "agree s s'" and "\<forall>m < n. names_of s' m = names_of s m" and "attached s n p" and "sees s n D slot"
  shows "sees s' n D slot"
  using assms(5) view_cong [OF assms(1-4)] unfolding sees_def by blast

lemma sees_child:
  assumes "ordered s" and "attached s c n" and "attached s n q" and "in_front s n c = []" and "sees s n D slot"
  shows "sees s c D slot"
  using assms(5) view_child [OF assms(1-3)] assms(4) unfolding sees_def by fastforce

lemma sees_bound:
  assumes "ordered s" and "attached s c n" and "attached s n q" and "in_front s n c = [(x, v)]"
    and "vt_val v = Stack_Slot j (Int_Ty 32)" and "sees s n D slot"
  shows "sees s c (D(x := Visible)) (slot(x := j))"
  unfolding sees_def
proof (intro allI)
  fix y
  have "view s c x (Some v)" if "view s n x r" for r using view_child [OF assms(1-3) that] assms(4) by simp
  have other: "view s n y r \<Longrightarrow> y \<noteq> x \<Longrightarrow> view s c y r" for r
    using view_child [OF assms(1-3), of y r] assms(4) by simp
  have self: "view s c x (Some v)"
  proof -
    have "0 < depth_of s n" using ordered_parent [OF assms(1,3)] by simp
    then show ?thesis by (simp add: view_some [OF assms(2)] find_up_run assms(4))
  qed
  show "((D(x := Visible)) y = Visible \<longrightarrow> (\<exists>w. view s c y (Some w) \<and> vt_val w = Stack_Slot ((slot(x := j)) y) (Int_Ty 32)))
      \<and> ((D(x := Visible)) y = Absent \<longrightarrow> view s c y None)"
  proof (cases "y = x")
    case True
    then show ?thesis using self assms(5) by auto
  next
    case False
    then show ?thesis using other assms(6) unfolding sees_def by (simp, blast)
  qed
qed

lemma sees_same_next:
  assumes "ordered s" and "agree s s'" and "kids_of s p = pre @ m # m' # post" and "attached s p q"
    and "attached s m p" and "attached s m' p" and "\<forall>j < m. names_of s' j = names_of s j"
    and "sees s m D slot" and "\<And>x. map_of (names_of s' m) x \<noteq> None \<Longrightarrow> D' x = Unknown \<or>
      (D x = Absent \<and> D' x = Visible \<and> (\<exists>v. map_of (names_of s' m) x = Some v \<and> vt_val v = Stack_Slot (slot' x) (Int_Ty 32)))"
    and "\<And>x. map_of (names_of s' m) x = None \<Longrightarrow> D' x = D x \<and> (D x = Visible \<longrightarrow> slot' x = slot x)"
  shows "sees s' m' D' slot'"
  unfolding sees_def
proof (intro allI)
  fix x
  note next_view = view_next [OF assms(1-7), of x]
  show "(D' x = Visible \<longrightarrow> (\<exists>v. view s' m' x (Some v) \<and> vt_val v = Stack_Slot (slot' x) (Int_Ty 32)))
      \<and> (D' x = Absent \<longrightarrow> view s' m' x None)"
  proof (cases "map_of (names_of s' m) x")
    case None
    then show ?thesis using next_view(1) assms(8) assms(10) [OF None] unfolding sees_def by (simp, blast)
  next
    case (Some v)
    then have "D' x = Unknown \<or> D x = Absent \<and> D' x = Visible \<and> vt_val v = Stack_Slot (slot' x) (Int_Ty 32)"
      using assms(9) [of x] by auto
    moreover have "D x = Absent \<Longrightarrow> view s m x None" using assms(8) by (simp add: sees_def)
    ultimately show ?thesis using next_view(2) [OF Some] by auto
  qed
qed

text \<open>Nodes without variables.\<close>

definition blank :: "gstate \<Rightarrow> nat \<Rightarrow> nat \<Rightarrow> bool" where
  "blank s lo hi \<longleftrightarrow> (\<forall>m. lo \<le> m \<longrightarrow> m < hi \<longrightarrow> names_of s m = [])"

lemma blankD: "blank s lo hi \<Longrightarrow> lo \<le> m \<Longrightarrow> m < hi \<Longrightarrow> names_of s m = []"
  by (simp add: blank_def)

lemma blank_within: "blank s lo hi \<Longrightarrow> lo \<le> lo' \<Longrightarrow> hi' \<le> hi \<Longrightarrow> blank s lo' hi'"
  by (simp add: blank_def)

lemma blank_in_front:
  assumes "ordered s" and "attached s c n" and "blank s n hi" and "c \<le> hi"
  shows "in_front s n c = []"
proof -
  have c: "n < c" "c \<in> set (kids_of s n)" using ordered_parent [OF assms(1,2)] by auto
  have "names_of s m = []" if m: "m \<in> set (before c (kids_of s n))" for m
  proof -
    have "n < m" using ordered_kid [OF assms(1)] set_takeWhileD [OF m] by blast
    then show ?thesis using before_less [OF assms(1) c(2) m] assms(3,4) by (simp add: blank_def)
  qed
  then show ?thesis using c(1) assms(3,4) by (simp add: in_front_def blank_def)
qed

lemma sees_inside:
  assumes "ordered s" and "attached s c n" and "attached s n q" and "blank s n hi" and "c \<le> hi" and "sees s n D slot"
  shows "sees s c D slot"
  by (rule sees_child [OF assms(1-3) blank_in_front [OF assms(1,2,4,5)] assms(6)])

end
