(* ===== verification/Codegen_Code.thy ===== *)
theory Codegen_Code
  imports Codegen_Scopes Codegen_Trees
begin

text \<open>
  What a part of the generator adds to the module, and what the added code does when it runs: the code of expressions and
  conditions over \<open>int\<close> computes their values.
\<close>

section \<open>Added code\<close>

abbreviation made_so_far :: "gstate \<Rightarrow> nat" where
  "made_so_far s \<equiv> length (emitted (ir s))"

abbreviation block_count :: "gstate \<Rightarrow> nat" where
  "block_count s \<equiv> length (blocks (ir s))"

text \<open>Code is added to the block at the insertion point and to new blocks.\<close>

definition produces :: "gstate \<Rightarrow> gstate \<Rightarrow> bool" where
  "produces s s' \<longleftrightarrow> agree s s'
     \<and> (\<exists>is. emitted (ir s') = emitted (ir s) @ is
          \<and> (\<forall>b \<in> fst ` set is. b = insertBlock (ir s) \<or> (\<exists>n. b = Some n \<and> block_count s \<le> n)))
     \<and> (\<exists>bs. blocks (ir s') = blocks (ir s) @ bs)
     \<and> (insertBlock (ir s') = insertBlock (ir s)
        \<or> (\<exists>n. insertBlock (ir s') = Some n \<and> block_count s \<le> n \<and> n < block_count s'))"

lemma produces_agree: "produces s s' \<Longrightarrow> agree s s'"
  by (simp add: produces_def)

lemma produces_emitted: "produces s s' \<Longrightarrow> \<exists>is. emitted (ir s') = emitted (ir s) @ is"
  by (auto simp: produces_def)

lemma produces_made: "produces s s' \<Longrightarrow> made_so_far s \<le> made_so_far s'"
  by (auto simp: produces_def)

lemma produces_blocks: "produces s s' \<Longrightarrow> block_count s \<le> block_count s'"
  by (auto simp: produces_def)

lemma produces_refl: "produces s s"
  by (auto simp: produces_def agree_refl)

lemma produces_trans:
  assumes "produces s t" and "produces t u"
  shows "produces s u"
proof -
  obtain "is" where first: "emitted (ir t) = emitted (ir s) @ is"
      "\<forall>b \<in> fst ` set is. b = insertBlock (ir s) \<or> (\<exists>n. b = Some n \<and> block_count s \<le> n)"
    using assms(1) by (auto simp: produces_def)
  obtain js where js: "emitted (ir u) = emitted (ir t) @ js"
      "\<forall>b \<in> fst ` set js. b = insertBlock (ir t) \<or> (\<exists>n. b = Some n \<and> block_count t \<le> n)"
    using assms(2) by (auto simp: produces_def)
  have st: "block_count s \<le> block_count t" "block_count t \<le> block_count u" using assms produces_blocks by blast+
  have t: "insertBlock (ir t) = insertBlock (ir s)
      \<or> (\<exists>n. insertBlock (ir t) = Some n \<and> block_count s \<le> n \<and> n < block_count t)"
    using assms(1) by (simp add: produces_def)
  have u: "insertBlock (ir u) = insertBlock (ir t)
      \<or> (\<exists>n. insertBlock (ir u) = Some n \<and> block_count t \<le> n \<and> n < block_count u)"
    using assms(2) by (simp add: produces_def)
  have "b = insertBlock (ir s) \<or> (\<exists>n. b = Some n \<and> block_count s \<le> n)" if "b \<in> fst ` set (is @ js)" for b
    using that first(2) js(2) t st by (fastforce intro: le_trans)
  moreover have "insertBlock (ir u) = insertBlock (ir s)
      \<or> (\<exists>n. insertBlock (ir u) = Some n \<and> block_count s \<le> n \<and> n < block_count u)"
    using t u st by (auto intro: le_trans less_le_trans)
  moreover have "agree s u" using assms agree_trans produces_agree by blast
  moreover have "\<exists>bs. blocks (ir u) = blocks (ir s) @ bs" using assms by (auto simp: produces_def)
  moreover have "emitted (ir u) = emitted (ir s) @ (is @ js)" using first(1) js(1) by simp
  ultimately show ?thesis unfolding produces_def by blast
qed

text \<open>The insertion point is in a block of the function \<open>f\<close>, and there is no error.\<close>

definition tidy :: "fn_handle \<Rightarrow> gstate \<Rightarrow> bool" where
  "tidy f s \<longleftrightarrow> (\<exists>b. insertBlock (ir s) = Some b \<and> b < block_count s \<and> bb_parent (blocks (ir s) ! b) = Some f)
     \<and> (\<forall>b \<in> fst ` set (emitted (ir s)). \<forall>n. b = Some n \<longrightarrow> n < block_count s) \<and> \<not> wasError s"

definition fresh :: "nat \<Rightarrow> gstate \<Rightarrow> bool" where
  "fresh b s \<longleftrightarrow> Some b \<notin> fst ` set (emitted (ir s))"

lemma fresh_new: "tidy f s \<Longrightarrow> block_count s \<le> b \<Longrightarrow> fresh b s"
  by (fastforce simp: tidy_def fresh_def)

lemma fresh_produces:
  assumes "fresh b s" and "produces s s'" and "insertBlock (ir s) \<noteq> Some b" and "b < block_count s"
  shows "fresh b s'"
proof -
  obtain "is" where "emitted (ir s') = emitted (ir s) @ is"
      "\<forall>b \<in> fst ` set is. b = insertBlock (ir s) \<or> (\<exists>n. b = Some n \<and> block_count s \<le> n)"
    using assms(2) by (auto simp: produces_def)
  then show ?thesis using assms(1,3,4) unfolding fresh_def by (auto simp: image_Un dest: bspec)
qed

section \<open>Runs of added code\<close>

text \<open>The machine stands where the next instruction will be.\<close>

definition standing :: "gstate \<Rightarrow> machine \<Rightarrow> configuration" where
  "standing s c = (the (insertBlock (ir s)), made_so_far s, c)"

definition segment :: "gstate \<Rightarrow> machine \<Rightarrow> gstate \<Rightarrow> machine \<Rightarrow> bool" where
  "segment s c s' c' \<longleftrightarrow> (\<forall>E. moves (emitted (ir s') @ E) (standing s c) (standing s' c')) \<and> (\<forall>j < made_so_far s. fst c' j = fst c j)"

lemma segment_same: "ir t = ir s \<Longrightarrow> segment s c t c"
  by (simp add: segment_def standing_def stay)

lemma segment_trans:
  assumes "segment s c t d" and "segment t d u e" and "produces s t" and "produces t u"
  shows "segment s c u e"
  unfolding segment_def
proof (intro conjI allI impI)
  fix E
  obtain "is" where "emitted (ir u) = emitted (ir t) @ is" using produces_emitted [OF assms(4)] by blast
  then have "moves (emitted (ir u) @ E) (standing s c) (standing t d)" using assms(1) by (simp add: segment_def)
  moreover have "moves (emitted (ir u) @ E) (standing t d) (standing u e)" using assms(2) by (simp add: segment_def)
  ultimately show "moves (emitted (ir u) @ E) (standing s c) (standing u e)" by (rule moves_trans)
next
  fix j assume "j < made_so_far s"
  then show "fst e j = fst c j" using assms(1,2) produces_made [OF assms(3)] by (simp add: segment_def)
qed

text \<open>A block that has no code yet is entered where its code will be.\<close>

lemma enter_block: "fresh b s \<Longrightarrow> moves (emitted (ir s) @ E) (b, 0, c) (b, made_so_far s, c)"
proof (rule passes_over)
  fix j assume "fresh b s" "j < made_so_far s"
  then show "fst ((emitted (ir s) @ E) ! j) \<noteq> Some b"
    unfolding fresh_def by (metis image_eqI nth_append nth_mem)
qed simp_all

section \<open>Instructions\<close>

definition push :: "llvalue instruction \<Rightarrow> gstate \<Rightarrow> gstate" where
  "push i s = s\<lparr>ir := (ir s)\<lparr>emitted := emitted (ir s) @ [(insertBlock (ir s), i)]\<rparr>\<rparr>"

lemma pushed_sel [simp]:
  "emitted (ir (push i s)) = emitted (ir s) @ [(insertBlock (ir s), i)]" "insertBlock (ir (push i s)) = insertBlock (ir s)"
  "blocks (ir (push i s)) = blocks (ir s)" "nodeStore (push i s) = nodeStore s" "wasError (push i s) = wasError s"
  by (simp_all add: push_def)

lemma emit_push: "\<not> foldable i \<Longrightarrow> emit F i s = Inr (made (made_so_far s) i, push i s)"
  by (simp add: emit_def ir_builder_def place_def push_def)

lemma emits_push: "\<not> foldable i \<Longrightarrow> emits F i s = Inr ((), push i s)"
  by (simp add: emits_def emit_push gbind_def gret_def)

lemma push_agree: "agree s (push i s)"
  by (simp add: push_def agree_module)

lemma push_produces: "produces s (push i s)"
  by (simp add: produces_def push_agree)

lemma push_tidy: "tidy f s \<Longrightarrow> tidy f (push i s)"
  by (auto simp: tidy_def)

lemma push_fresh: "fresh b s \<Longrightarrow> insertBlock (ir s) \<noteq> Some b \<Longrightarrow> fresh b (push i s)"
  by (auto simp: fresh_def)

lemma push_step:
  assumes "insertBlock (ir s) = Some b"
  shows "step_of (emitted (ir (push i s)) @ E) (standing s c) = control b (made_so_far s) i c"
  using assms by (simp add: standing_def)

fun jumps :: "'v instruction \<Rightarrow> bool" where
  "jumps (Br b) \<longleftrightarrow> True"
| "jumps (Cond_Br v b b') \<longleftrightarrow> True"
| "jumps _ \<longleftrightarrow> False"

lemma push_segment:
  assumes "insertBlock (ir s) = Some b" and "\<not> jumps i" and "perform (made_so_far s) i c = Some c'"
    and "\<forall>j < made_so_far s. fst c' j = fst c j"
  shows "segment s c (push i s) c'"
proof -
  have "control b (made_so_far s) i c = Some (standing (push i s) c')"
    using assms(1-3) by (cases i) (simp_all add: control_def standing_def)
  then show ?thesis using moves_one push_step [OF assms(1)] assms(4) by (simp add: segment_def)
qed

section \<open>Values\<close>

text \<open>The builder folds only operations on constants, and to the constant that the operation computes.\<close>

definition folding_sound :: "folder \<Rightarrow> bool" where
  "folding_sound F \<longleftrightarrow>
     (\<forall>b v w u. fold_instruction F (Binary b v w) = Some u \<longrightarrow>
        (\<exists>x y i. v = Const_Int 32 x \<and> w = Const_Int 32 y \<and> u = Const_Int 32 i
          \<and> (\<forall>z. word_op b (word_of_int x) (word_of_int y) = Some z \<longrightarrow> word_of_int i = z)))
   \<and> (\<forall>p v w u. fold_instruction F (Compare p v w) = Some u \<longrightarrow>
        (\<exists>x y k i. v = Const_Int k x \<and> w = Const_Int k y \<and> u = Const_Int 1 i
          \<and> (\<forall>regs t. test p regs v w = Some t \<longrightarrow> odd i = t)))"

text \<open>A value of a type that the first instructions have made.\<close>

fun known :: "nat \<Rightarrow> nat \<Rightarrow> llvalue \<Rightarrow> bool" where
  "known w m (Const_Int v i) \<longleftrightarrow> v = w"
| "known w m (Instr n t) \<longleftrightarrow> t = Int_Ty w \<and> n < m"
| "known w m _ \<longleftrightarrow> False"

lemma known_type: "known w m v \<Longrightarrow> type_of v = Int_Ty w"
  by (cases v) auto

lemma known_mono: "known w m v \<Longrightarrow> m \<le> m' \<Longrightarrow> known w m' v"
  by (cases v) auto

lemma known_regs:
  assumes "known w m v" and "\<forall>j < m. regs' j = regs j"
  shows "value_in regs' v = value_in regs v" and "bit_in regs' v = bit_in regs v"
  using assms by (cases v; auto)+

text \<open>Code without branches, as it is made for expressions.\<close>

definition straight :: "gstate \<Rightarrow> gstate \<Rightarrow> bool" where
  "straight s s' \<longleftrightarrow> agree s s' \<and> (\<forall>n. names_of s' n = names_of s n) \<and> insertBlock (ir s') = insertBlock (ir s)
     \<and> blocks (ir s') = blocks (ir s) \<and> (\<exists>is. emitted (ir s') = emitted (ir s) @ map (Pair (insertBlock (ir s))) is)"

lemma straight_refl: "straight s s"
  by (simp add: straight_def agree_refl)

lemma straight_trans: "straight s t \<Longrightarrow> straight t u \<Longrightarrow> straight s u"
  unfolding straight_def using agree_trans by (fastforce simp flip: map_append)

lemma straight_push: "straight s (push i s)"
  unfolding straight_def by (auto simp: push_agree intro!: exI [of _ "[i]"])

lemma straight_produces: "straight s s' \<Longrightarrow> produces s s'"
  by (fastforce simp: straight_def produces_def)

lemma straight_agree: "straight s s' \<Longrightarrow> agree s s'"
  by (simp add: straight_def)

lemma straight_tidy: "tidy f s \<Longrightarrow> straight s s' \<Longrightarrow> tidy f s'"
  by (auto simp: straight_def tidy_def agree_rest)

lemma straight_base_type: "straight s (s\<lparr>nodeStore := (nodeStore s)(n := (nodeStore s n)\<lparr>g_baseType := t\<rparr>)\<rparr>)"
  by (simp add: straight_def agree_base_type)

text \<open>Building an operation or a test: folded, or an instruction.\<close>

definition build_state :: "folder \<Rightarrow> llvalue instruction \<Rightarrow> gstate \<Rightarrow> gstate" where
  "build_state F i s = s\<lparr>ir := snd (build (ir_builder F) i (ir s))\<rparr>"

definition build_value :: "folder \<Rightarrow> llvalue instruction \<Rightarrow> gstate \<Rightarrow> llvalue" where
  "build_value F i s = fst (build (ir_builder F) i (ir s))"

lemma build_cases:
  obtains (folded) u where "fold_instruction F i = Some u" "foldable i" "build_state F i s = s" "build_value F i s = u"
  | (made) "build_state F i s = push i s" "build_value F i s = made (made_so_far s) i"
proof (cases "if foldable i then fold_instruction F i else None")
  case None
  then show ?thesis using made by (simp add: build_state_def build_value_def ir_builder_def place_def push_def)
next
  case (Some u)
  then show ?thesis using folded by (auto simp: build_state_def build_value_def ir_builder_def split: if_splits)
qed

lemma emit_build: "emit F i s = Inr (build_value F i s, build_state F i s)"
  by (simp add: emit_def build_value_def build_state_def split_beta)

lemma build_straight: "straight s (build_state F i s)"
  by (rule build_cases [of F i s]) (simp_all add: straight_refl straight_push)

lemma operation_built:
  assumes F: "folding_sound F" and v: "known 32 (made_so_far s) v" and w: "known 32 (made_so_far s) w"
  shows "known 32 (made_so_far (build_state F (Binary b v w) s)) (build_value F (Binary b v w) s)"
    and "value_in regs v = Some x \<Longrightarrow> value_in regs w = Some y \<Longrightarrow> word_op b x y = Some z \<Longrightarrow> insertBlock (ir s) = Some blk \<Longrightarrow>
      \<exists>regs'. segment s (regs, mem) (build_state F (Binary b v w) s) (regs', mem)
        \<and> value_in regs' (build_value F (Binary b v w) s) = Some z"
proof -
  let ?i = "Binary b v w"
  show "known 32 (made_so_far (build_state F ?i s)) (build_value F ?i s)"
  proof (rule build_cases [of F ?i s])
    fix u assume u: "fold_instruction F ?i = Some u" "build_value F ?i s = u"
    then obtain i where "u = Const_Int 32 i" using F unfolding folding_sound_def by blast
    then show ?thesis using u(2) by simp
  qed (simp add: known_type [OF v])
  assume op: "value_in regs v = Some x" "value_in regs w = Some y" "word_op b x y = Some z" and blk: "insertBlock (ir s) = Some blk"
  show "\<exists>regs'. segment s (regs, mem) (build_state F ?i s) (regs', mem) \<and> value_in regs' (build_value F ?i s) = Some z"
  proof (rule build_cases [of F ?i s])
    fix u assume u: "fold_instruction F ?i = Some u" "build_state F ?i s = s" "build_value F ?i s = u"
    then obtain x' y' i where c: "v = Const_Int 32 x'" "w = Const_Int 32 y'" "u = Const_Int 32 i"
        "\<forall>z. word_op b (word_of_int x') (word_of_int y') = Some z \<longrightarrow> word_of_int i = z"
      using F unfolding folding_sound_def by blast
    then have "value_in regs u = Some z" using op by simp
    then show ?thesis using u by (auto intro: segment_same)
  next
    assume m: "build_state F ?i s = push ?i s" "build_value F ?i s = made (made_so_far s) ?i"
    have "segment s (regs, mem) (push ?i s) (regs(made_so_far s := z), mem)"
      by (rule push_segment [OF blk]) (simp_all add: perform_def op)
    then show ?thesis using m by (auto simp: known_type [OF v])
  qed
qed

lemma test_built:
  assumes F: "folding_sound F"
  shows "known 1 (made_so_far (build_state F (Compare p v w) s)) (build_value F (Compare p v w) s)"
    and "test p regs v w = Some t \<Longrightarrow> insertBlock (ir s) = Some blk \<Longrightarrow>
      \<exists>regs'. segment s (regs, mem) (build_state F (Compare p v w) s) (regs', mem)
        \<and> bit_in regs' (build_value F (Compare p v w) s) = Some t"
proof -
  let ?i = "Compare p v w"
  show "known 1 (made_so_far (build_state F ?i s)) (build_value F ?i s)"
  proof (rule build_cases [of F ?i s])
    fix u assume u: "fold_instruction F ?i = Some u" "build_value F ?i s = u"
    then obtain i where "u = Const_Int 1 i" using F unfolding folding_sound_def by blast
    then show ?thesis using u(2) by simp
  qed simp
  assume t: "test p regs v w = Some t" and blk: "insertBlock (ir s) = Some blk"
  show "\<exists>regs'. segment s (regs, mem) (build_state F ?i s) (regs', mem) \<and> bit_in regs' (build_value F ?i s) = Some t"
  proof (rule build_cases [of F ?i s])
    fix u assume u: "fold_instruction F ?i = Some u" "build_state F ?i s = s" "build_value F ?i s = u"
    then obtain i where "u = Const_Int 1 i" "\<forall>regs t. test p regs v w = Some t \<longrightarrow> odd i = t"
      using F unfolding folding_sound_def by blast
    then have "bit_in regs u = Some t" using t by simp
    then show ?thesis using u by (auto intro: segment_same)
  next
    assume m: "build_state F ?i s = push ?i s" "build_value F ?i s = made (made_so_far s) ?i"
    have "segment s (regs, mem) (push ?i s) (regs(made_so_far s := of_bool t), mem)"
      by (rule push_segment [OF blk]) (simp_all add: perform_def t)
    then show ?thesis using m by auto
  qed
qed

end
