(* ===== verification/Codegen_Values.thy ===== *)
theory Codegen_Values
  imports Codegen_Code
begin

text \<open>
  The code of expressions and conditions over \<open>int\<close>: generating them adds code without branches, and running it leaves
  their value.
\<close>

section \<open>Nodes of expressions\<close>

text \<open>A node of the tree stands for an expression: a number, a variable, a pair of parentheses, or an operator that no
  function of the program overloads. The nodes lie between the first node and the bound.\<close>

abbreviation node_text :: "gstate \<Rightarrow> nat \<Rightarrow> string" where
  "node_text s n \<equiv> tk_first (tokenStore s (g_token (nodeStore s n)))"

abbreviation overload_name :: "gstate \<Rightarrow> nat \<Rightarrow> string" where
  "overload_name s n \<equiv> ''operator.'' @ tokenAsString (tk_second (tokenStore s (g_token (nodeStore s n))))"

inductive is_expr :: "gstate \<Rightarrow> nat \<Rightarrow> nat \<Rightarrow> nat \<Rightarrow> expr \<Rightarrow> bool" for s and hi where
  literal: "n < hi \<Longrightarrow> g_codegen (nodeStore s n) = generateConstant \<Longrightarrow> g_type (nodeStore s n) = Integer_Node \<Longrightarrow>
    stoi (node_text s n) = Inr i \<Longrightarrow> is_expr s hi (Suc k) n (Lit i)"
| variable: "n < hi \<Longrightarrow> g_codegen (nodeStore s n) = generateVariableExpression \<Longrightarrow> \<not> g_isRef (nodeStore s n) \<Longrightarrow>
    \<not> g_lvalue (nodeStore s n) \<Longrightarrow> is_expr s hi (Suc k) n (Var (node_text s n))"
| parentheses: "n < hi \<Longrightarrow> g_codegen (nodeStore s n) = generateExpression \<Longrightarrow> kids_of s n = c # cs \<Longrightarrow> attached s c n \<Longrightarrow>
    is_expr s hi k c e \<Longrightarrow> is_expr s hi (Suc k) n e"
| operation: "n < hi \<Longrightarrow> g_codegen (nodeStore s n) = generateBinaryExpression \<Longrightarrow> g_type (nodeStore s n) = f \<Longrightarrow>
    map_of integerOps f = Some b \<Longrightarrow> kids_of s n = l # r # cs \<Longrightarrow> attached s l n \<Longrightarrow> attached s r n \<Longrightarrow>
    getFunctionFromID_name (functionIDs s) (overload_name s n) = Not_Found \<Longrightarrow>
    is_expr s hi k l x \<Longrightarrow> is_expr s hi k r y \<Longrightarrow> is_expr s hi (Suc k) n (Op f x y)"

inductive_cases is_expr_cases: "is_expr s hi k n e"

inductive is_cond :: "gstate \<Rightarrow> nat \<Rightarrow> nat \<Rightarrow> nat \<Rightarrow> cond \<Rightarrow> bool" for s and hi where
  comparison: "n < hi \<Longrightarrow> g_codegen (nodeStore s n) = generateBinaryExpression \<Longrightarrow> g_type (nodeStore s n) = f \<Longrightarrow>
    map_of intCompareOps f = Some p \<Longrightarrow> kids_of s n = l # r # cs \<Longrightarrow> attached s l n \<Longrightarrow> attached s r n \<Longrightarrow>
    getFunctionFromID_name (functionIDs s) (overload_name s n) = Not_Found \<Longrightarrow>
    is_expr s hi k l x \<Longrightarrow> is_expr s hi k r y \<Longrightarrow> is_cond s hi (Suc k) n (Test f x y)"

inductive_cases is_cond_cases: "is_cond s hi k n e"

lemma is_expr_generator: "is_expr s hi k n e \<Longrightarrow> g_codegen (nodeStore s n) \<noteq> No_Codegen"
  by (auto elim: is_expr_cases)

lemma is_expr_within: "is_expr s hi k n e \<Longrightarrow> n < hi"
  by (auto elim: is_expr_cases)

lemma is_cond_generator: "is_cond s hi k n e \<Longrightarrow> g_codegen (nodeStore s n) \<noteq> No_Codegen"
  by (auto elim: is_cond_cases)

lemma is_expr_agree:
  assumes "agree s s'"
  shows "is_expr s hi k n e \<Longrightarrow> is_expr s' hi k n e"
proof (induction rule: is_expr.induct)
  case (variable n k)
  then have "is_expr s' hi (Suc k) n (Var (node_text s' n))"
    by (intro is_expr.variable) (simp_all add: agree_nodes [OF assms] agree_rest [OF assms])
  then show ?case by (simp add: agree_nodes [OF assms] agree_rest [OF assms])
qed (auto intro: is_expr.intros simp: agree_nodes [OF assms] agree_rest [OF assms])

lemma is_cond_agree:
  assumes "agree s s'" and "is_cond s hi k n e"
  shows "is_cond s' hi k n e"
  using assms(2) is_expr_agree [OF assms(1)]
  by (cases rule: is_cond.cases) (auto intro!: is_cond.intros simp: agree_nodes [OF assms(1)] agree_rest [OF assms(1)])

text \<open>Where a node is looked up from: its variables are in their slots.\<close>

definition holds :: "(string \<Rightarrow> status) \<Rightarrow> (string \<Rightarrow> nat) \<Rightarrow> store \<Rightarrow> (nat \<Rightarrow> 32 word) \<Rightarrow> bool" where
  "holds D slot \<sigma> mem \<longleftrightarrow> (\<forall>x. D x = Visible \<longrightarrow> mem (slot x) = \<sigma> x)"

definition ready :: "fn_handle \<Rightarrow> gstate \<Rightarrow> nat \<Rightarrow> nat \<Rightarrow> (string \<Rightarrow> status) \<Rightarrow> (string \<Rightarrow> nat) \<Rightarrow> bool" where
  "ready f s n hi D slot \<longleftrightarrow> ordered s \<and> tidy f s \<and> blank s n hi \<and> (\<exists>p. attached s n p) \<and> sees s n D slot"

lemma readyI: "ordered s \<Longrightarrow> tidy f s \<Longrightarrow> blank s n hi \<Longrightarrow> attached s n p \<Longrightarrow> sees s n D slot \<Longrightarrow> ready f s n hi D slot"
  by (auto simp: ready_def)

lemma ready_kid:
  assumes "ready f s n hi D slot" and "attached s c n" and "c \<le> hi"
  shows "ready f s c hi D slot"
proof -
  obtain q where n: "ordered s" "attached s n q" "blank s n hi" "sees s n D slot" "tidy f s"
    using assms(1) by (auto simp: ready_def)
  have "n < c" using ordered_parent [OF n(1) assms(2)] by simp
  then have "blank s c hi" using n(3) by (auto simp: blank_def)
  then show ?thesis using sees_inside [OF n(1) assms(2) n(2,3) assms(3) n(4)] n assms(2) by (blast intro: readyI)
qed

lemma ready_straight:
  assumes "ready f s n hi D slot" and "straight s s'"
  shows "ready f s' n hi D slot"
proof -
  obtain p where s: "ordered s" "tidy f s" "blank s n hi" "attached s n p" "sees s n D slot"
    using assms(1) by (auto simp: ready_def)
  have s': "agree s s'" "\<forall>m. names_of s' m = names_of s m" using assms(2) by (simp_all add: straight_def)
  have "sees s' n D slot" using sees_cong [OF s(1) s'(1) _ s(4,5)] s'(2) by simp
  then show ?thesis
    using s s' agree_ordered straight_tidy [OF s(2) assms(2)] by (auto simp: ready_def blank_def agree_nodes [OF s'(1)])
qed

section \<open>What is generated\<close>

text \<open>A value, with the code that leaves a word or a truth value in it.\<close>

definition gives :: "nat \<Rightarrow> ((nat \<Rightarrow> 32 word) \<Rightarrow> llvalue \<Rightarrow> 'a option) \<Rightarrow> gstate \<Rightarrow> llvalue \<Rightarrow> gstate \<Rightarrow>
    (string \<Rightarrow> status) \<Rightarrow> (string \<Rightarrow> nat) \<Rightarrow> (store \<Rightarrow> 'a option) \<Rightarrow> bool" where
  "gives w rd s v s' D slot m \<longleftrightarrow> straight s s' \<and> known w (made_so_far s') v
     \<and> (\<forall>regs mem \<sigma> x. holds D slot \<sigma> mem \<longrightarrow> m \<sigma> = Some x \<longrightarrow>
          (\<exists>regs'. segment s (regs, mem) s' (regs', mem) \<and> rd regs' v = Some x))"

lemma givesD:
  assumes "gives w rd s v s' D slot m"
  shows "straight s s'" "known w (made_so_far s') v"
    "holds D slot \<sigma> mem \<Longrightarrow> m \<sigma> = Some x \<Longrightarrow> \<exists>regs'. segment s (regs, mem) s' (regs', mem) \<and> rd regs' v = Some x"
  using assms by (auto simp: gives_def)

text \<open>Two values, one after the other: the first is still there.\<close>

lemma gives_two:
  assumes "gives w1 value_in s v t D slot m1" and "gives w2 value_in t u s' D slot m2"
    and "holds D slot \<sigma> mem" and "m1 \<sigma> = Some x" and "m2 \<sigma> = Some y"
  shows "\<exists>regs'. segment s (regs, mem) s' (regs', mem) \<and> value_in regs' v = Some x \<and> value_in regs' u = Some y"
proof -
  obtain r1 where r1: "segment s (regs, mem) t (r1, mem)" "value_in r1 v = Some x"
    using givesD(3) [OF assms(1,3,4)] by blast
  obtain r2 where r2: "segment t (r1, mem) s' (r2, mem)" "value_in r2 u = Some y"
    using givesD(3) [OF assms(2,3,5)] by blast
  have "value_in r2 v = value_in r1 v"
    using known_regs(1) [OF givesD(2) [OF assms(1)]] r2(1) by (simp add: segment_def)
  moreover have "segment s (regs, mem) s' (r2, mem)"
    using segment_trans [OF r1(1) r2(1)] straight_produces givesD(1) [OF assms(1)] givesD(1) [OF assms(2)] by blast
  ultimately show ?thesis using r1(2) r2(2) by auto
qed

lemma value_node_run:
  assumes "generate Env k n pass s = Inr (Val v, s')" and "g_codegen (nodeStore s n) \<noteq> No_Codegen"
  shows "value_node (generate Env k) n pass s = Inr (Some v, s')"
  using assms by (simp add: value_node_def call_node_def gbind_def node_def gets_def as_value_def gret_def)

lemma checked_value_run:
  assumes "generate Env k n pass s = Inr (Val v, s')" and "g_codegen (nodeStore s n) \<noteq> No_Codegen" and "\<not> wasError s'"
  shows "checked_value (generate Env k) n pass s = Inr (Some v, s')"
  using value_node_run [OF assms(1,2)] assms(3) by (simp add: checked_value_def gbind_def exit_on_error_def gets_def gret_def)

section \<open>Variables\<close>

lemma variable_given:
  assumes "ready f s n hi D slot" and "D (node_text s n) = Visible" and "\<not> g_isRef (nodeStore s n)" and "\<not> g_lvalue (nodeStore s n)"
  shows "\<exists>v s'. generateVariableExpression_run F k rec n pass s = Inr (Val v, s')
    \<and> gives 32 value_in s v s' D slot (\<lambda>\<sigma>. Some (\<sigma> (node_text s n)))"
proof -
  let ?x = "node_text s n"
  obtain v where v: "findNamedValue (parent_of s n) (Some n) ?x s = Inr (Some v, s)" "vt_val v = Stack_Slot (slot ?x) (Int_Ty 32)"
    using assms(1,2) by (auto simp: ready_def sees_def view_def)
  obtain blk where blk: "insertBlock (ir s) = Some blk" using assms(1) by (auto simp: ready_def tidy_def)
  let ?t = "s\<lparr>nodeStore := (nodeStore s)(n := (nodeStore s n)\<lparr>g_baseType := Some Pointer_Ty\<rparr>)\<rparr>"
  let ?load = "Load (Int_Ty 32) (Stack_Slot (slot ?x) (Int_Ty 32))"
  have "generateVariableExpression_run F k rec n pass s = Inr (Val (Instr (made_so_far s) (Int_Ty 32)), push ?load ?t)"
    using assms(3,4) v by (simp add: generateVariableExpression_run_def gbind_def node_def first_of_def gets_def set_node_def gmodify_def
        allocated_type_def gret_def emit_push)
  moreover have st: "straight s (push ?load ?t)" by (rule straight_trans [OF straight_base_type straight_push])
  moreover have "segment s (regs, mem) (push ?load ?t) (regs(made_so_far s := mem (slot ?x)), mem)" for regs mem
  proof (rule segment_trans [OF segment_same push_segment])
    show "insertBlock (ir ?t) = Some blk" using blk by simp
    show "produces s ?t" by (rule straight_produces [OF straight_base_type])
  qed (simp_all add: perform_def push_produces)
  then have "\<exists>regs'. segment s (regs, mem) (push ?load ?t) (regs', mem) \<and> value_in regs' (Instr (made_so_far s) (Int_Ty 32)) = Some (\<sigma> ?x)"
    if "holds D slot \<sigma> mem" for regs mem \<sigma>
  proof -
    have "mem (slot ?x) = \<sigma> ?x" using that assms(2) by (simp add: holds_def)
    then show ?thesis
      using \<open>segment s (regs, mem) (push ?load ?t) (regs(made_so_far s := mem (slot ?x)), mem)\<close>
      by (intro exI [of _ "regs(made_so_far s := mem (slot ?x))"]) simp
  qed
  ultimately show ?thesis by (auto simp: gives_def)
qed

section \<open>Operations\<close>

lemma not_overloaded:
  "getFunctionFromID_name (functionIDs s) (overload_name s n) = Not_Found \<Longrightarrow> checkForOperatorOverload n s = Inr (False, s)"
  by (simp add: checkForOperatorOverload_def operator_name_def token_at_def resolved_def gbind_def gets_def gret_def)

definition int_instruction :: "ASTNodeType \<Rightarrow> llvalue \<Rightarrow> llvalue \<Rightarrow> llvalue instruction" where
  "int_instruction ty v w =
     (case map_of intCompareOps ty of Some p \<Rightarrow> Compare p v w | None \<Rightarrow> Binary (the (map_of integerOps ty)) v w)"

lemma builtin_run:
  assumes "type_of v = Int_Ty 32" and "type_of w = Int_Ty 32"
    and "map_of intCompareOps (g_type (nodeStore s n)) \<noteq> None \<or> map_of integerOps (g_type (nodeStore s n)) \<noteq> None"
  shows "builtin_binary F n v w s =
    Inr (Val (build_value F (int_instruction (g_type (nodeStore s n)) v w) s), build_state F (int_instruction (g_type (nodeStore s n)) v w) s)"
proof -
  have "getType (ir_builder F) = type_of" by (simp add: ir_builder_def)
  then show ?thesis
    using assms
    by (cases s) (auto simp: builtin_binary_def node_def token_at_def gbind_def gets_def of_value_def binary_operation_def binary_by_category_def
        getValueCategory_def isIntegerTy_def generateIntegerBinaryOp_def built_eq int_instruction_def build_value_def build_state_def
        split: option.split)
qed

text \<open>Both operands are there, and the operator is applied.\<close>

lemma operands_run:
  assumes "g_codegen (nodeStore s n) = generateBinaryExpression" and "kids_of s n = l # r # cs"
    and "g_type (nodeStore s n) \<noteq> Pipe_Operation" and "g_type (nodeStore s n) \<noteq> Redefined_Operator_Expr"
    and "getFunctionFromID_name (functionIDs s) (overload_name s n) = Not_Found"
    and "generate Env k l pass s = Inr (Val v, t)" and "generate Env k r pass t = Inr (Val w, u)"
    and "g_codegen (nodeStore s l) \<noteq> No_Codegen" and "g_codegen (nodeStore s r) \<noteq> No_Codegen" and "agree s t" and "agree t u"
  shows "generate Env (Suc k) n pass s = builtin_binary (builder Env) n v w u"
proof -
  note su = agree_trans [OF assms(10,11)]
  have "checkForOperatorOverload n u = Inr (False, u)"
    using assms(5) by (intro not_overloaded) (simp add: agree_nodes [OF su] agree_rest [OF su])
  moreover have "value_node (generate Env k) l pass s = Inr (Some v, t)" "value_node (generate Env k) r pass t = Inr (Some w, u)"
    using value_node_run assms(6-9) by (simp_all add: agree_nodes [OF assms(10)])
  ultimately show ?thesis
    using assms(1-4,8,9)
    by (simp add: Let_def gbind_def node_def gets_def gret_def run_method_def generateBinaryExpression_run_def children_def child_def has_generator_def)
qed

lemma integerOps_node:
  "map_of integerOps ty = Some b \<Longrightarrow> ty \<noteq> Pipe_Operation \<and> ty \<noteq> Redefined_Operator_Expr \<and> map_of intCompareOps ty = None"
  by (auto simp: integerOps_def intCompareOps_def split: if_splits)

lemma intCompareOps_node: "map_of intCompareOps ty = Some p \<Longrightarrow> ty \<noteq> Pipe_Operation \<and> ty \<noteq> Redefined_Operator_Expr"
  by (auto simp: intCompareOps_def split: if_splits)

text \<open>The operands of an operator, given what is generated for each of them.\<close>

definition generates :: "environment \<Rightarrow> nat \<Rightarrow> nat \<Rightarrow> nat \<Rightarrow> gstate \<Rightarrow> nat \<Rightarrow> ((nat \<Rightarrow> 32 word) \<Rightarrow> llvalue \<Rightarrow> 'a option) \<Rightarrow>
    (string \<Rightarrow> status) \<Rightarrow> (string \<Rightarrow> nat) \<Rightarrow> (store \<Rightarrow> 'a option) \<Rightarrow> bool" where
  "generates Env k n pass s w rd D slot m \<longleftrightarrow>
     (\<exists>v s'. generate Env k n pass s = Inr (Val v, s') \<and> gives w rd s v s' D slot m)"

lemma operands_given:
  assumes "g_codegen (nodeStore s n) = generateBinaryExpression" and "kids_of s n = l # r # cs"
    and "g_type (nodeStore s n) \<noteq> Pipe_Operation \<and> g_type (nodeStore s n) \<noteq> Redefined_Operator_Expr"
    and "getFunctionFromID_name (functionIDs s) (overload_name s n) = Not_Found"
    and "attached s l n" and "attached s r n" and l: "is_expr s hi k l a" and r: "is_expr s hi k r b"
    and s: "ready f s n hi D slot"
    and rec: "\<And>s m e. is_expr s hi k m e \<Longrightarrow> ready f s m hi D slot \<Longrightarrow> expr_ok D e \<Longrightarrow>
      generates Env k m pass s 32 value_in D slot (\<lambda>\<sigma>. expr_value \<sigma> e)"
    and "expr_ok D a" and "expr_ok D b"
  obtains v w u where "generate Env (Suc k) n pass s = builtin_binary (builder Env) n v w u" and "straight s u"
    and "known 32 (made_so_far u) v" and "known 32 (made_so_far u) w"
    and "\<And>regs mem \<sigma> x y. holds D slot \<sigma> mem \<Longrightarrow> expr_value \<sigma> a = Some x \<Longrightarrow> expr_value \<sigma> b = Some y \<Longrightarrow>
      \<exists>regs'. segment s (regs, mem) u (regs', mem) \<and> value_in regs' v = Some x \<and> value_in regs' w = Some y"
proof -
  have "ready f s l hi D slot" using ready_kid [OF s assms(5)] is_expr_within [OF l] by simp
  then obtain v t where v: "generate Env k l pass s = Inr (Val v, t)" "gives 32 value_in s v t D slot (\<lambda>\<sigma>. expr_value \<sigma> a)"
    using rec [OF l] assms(11) by (auto simp: generates_def)
  note st = givesD(1) [OF v(2)]
  have r': "ready f t r hi D slot"
    using ready_kid [OF ready_straight [OF s st]] assms(6) is_expr_within [OF r] by (simp add: agree_nodes [OF straight_agree [OF st]])
  then obtain w u where w: "generate Env k r pass t = Inr (Val w, u)" "gives 32 value_in t w u D slot (\<lambda>\<sigma>. expr_value \<sigma> b)"
    using rec [OF is_expr_agree [OF straight_agree [OF st] r]] assms(12) by (auto simp: generates_def)
  note tu = givesD(1) [OF w(2)]
  show thesis
  proof (rule that)
    show "generate Env (Suc k) n pass s = builtin_binary (builder Env) n v w u"
      using operands_run [OF assms(1,2) _ _ assms(4) v(1) w(1) is_expr_generator [OF l] is_expr_generator [OF r] straight_agree [OF st]
          straight_agree [OF tu]] assms(3) by blast
    show "straight s u" by (rule straight_trans [OF st tu])
    show "known 32 (made_so_far u) v" by (rule known_mono [OF givesD(2) [OF v(2)] produces_made [OF straight_produces [OF tu]]])
    show "known 32 (made_so_far u) w" by (rule givesD(2) [OF w(2)])
  qed (rule gives_two [OF v(2) w(2)])
qed

lemma segment_straight: "segment s c t d \<Longrightarrow> segment t d u e \<Longrightarrow> straight s t \<Longrightarrow> straight t u \<Longrightarrow> segment s c u e"
  using segment_trans straight_produces by blast

lemma expr_given:
  assumes F: "folding_sound (builder Env)"
  shows "is_expr s hi k n e \<Longrightarrow> ready f s n hi D slot \<Longrightarrow> expr_ok D e \<Longrightarrow>
    generates Env k n pass s 32 value_in D slot (\<lambda>\<sigma>. expr_value \<sigma> e)"
proof (induction k arbitrary: s n e)
  case 0
  then show ?case by (auto elim: is_expr_cases)
next
  case (Suc k)
  note run = gbind_def node_def gets_def gret_def run_method_def generates_def
  from Suc.prems(1) show ?case
  proof (cases rule: is_expr.cases)
    case (literal i)
    have "gives 32 value_in s (Const_Int 32 i) s D slot (\<lambda>\<sigma>. Some (word_of_int i))"
      by (auto simp: gives_def straight_refl intro: segment_same)
    then show ?thesis using literal by (auto simp: run generateConstant_run_def first_of_def glift_def)
  next
    case variable
    then show ?thesis
      using variable_given [OF Suc.prems(2), of "builder Env" "Suc k" "generate Env k" pass] Suc.prems(3)
      by (auto simp: run)
  next
    case (parentheses c cs)
    have c: "ready f s c hi D slot"
      using ready_kid [OF Suc.prems(2) parentheses(4)] is_expr_within [OF parentheses(5)] by simp
    obtain v s' where v: "generate Env k c pass s = Inr (Val v, s')" "gives 32 value_in s v s' D slot (\<lambda>\<sigma>. expr_value \<sigma> e)"
      using Suc.IH [OF parentheses(5) c Suc.prems(3)] by (auto simp: generates_def)
    have "\<not> wasError s'" using ready_straight [OF c givesD(1) [OF v(2)]] by (simp add: ready_def tidy_def)
    then have "checked_value (generate Env k) c pass s = Inr (Some v, s')"
      using checked_value_run v(1) is_expr_generator [OF parentheses(5)] by blast
    then show ?thesis
      using v(2) parentheses is_expr_generator [OF parentheses(5)]
      by (auto simp: run generateExpression_run_def children_def child_def has_generator_def of_value_def)
  next
    case (operation g op l r cs a b)
    note node = integerOps_node [OF operation(5)]
    obtain v w u where u: "generate Env (Suc k) n pass s = builtin_binary (builder Env) n v w u" "straight s u"
        "known 32 (made_so_far u) v" "known 32 (made_so_far u) w"
        "\<And>regs mem \<sigma> x y. holds D slot \<sigma> mem \<Longrightarrow> expr_value \<sigma> a = Some x \<Longrightarrow> expr_value \<sigma> b = Some y \<Longrightarrow>
          \<exists>regs'. segment s (regs, mem) u (regs', mem) \<and> value_in regs' v = Some x \<and> value_in regs' w = Some y"
      by (rule operands_given [OF operation(3,6) _ operation(9,7,8,10,11) Suc.prems(2) Suc.IH])
        (use node operation(1,4) Suc.prems(3) in auto)
    let ?i = "Binary op v w" and ?F = "builder Env"
    have "generate Env (Suc k) n pass s = Inr (Val (build_value ?F ?i u), build_state ?F ?i u)"
      using builtin_run [OF known_type [OF u(3)] known_type [OF u(4)], of u n ?F] operation(4,5) node u(1)
      by (simp add: agree_nodes [OF straight_agree [OF u(2)]] int_instruction_def)
    moreover have "gives 32 value_in s (build_value ?F ?i u) (build_state ?F ?i u) D slot (\<lambda>\<sigma>. expr_value \<sigma> e)"
      unfolding gives_def
    proof (intro conjI allI impI)
      show "straight s (build_state ?F ?i u)" by (rule straight_trans [OF u(2) build_straight])
      show "known 32 (made_so_far (build_state ?F ?i u)) (build_value ?F ?i u)" by (rule operation_built(1) [OF F u(3,4)])
    next
      fix regs mem \<sigma> z
      assume m: "holds D slot \<sigma> mem" "expr_value \<sigma> e = Some z"
      then obtain x y where x: "expr_value \<sigma> a = Some x" "expr_value \<sigma> b = Some y" "source_op g x y = Some z"
        using operation(1) by (auto simp: bind_eq_Some_conv)
      obtain r1 where r1: "segment s (regs, mem) u (r1, mem)" "value_in r1 v = Some x" "value_in r1 w = Some y"
        using u(5) [OF m(1) x(1,2)] by blast
      obtain blk where "insertBlock (ir u) = Some blk" using ready_straight [OF Suc.prems(2) u(2)] by (auto simp: ready_def tidy_def)
      then obtain r2 where r2: "segment u (r1, mem) (build_state ?F ?i u) (r2, mem)" "value_in r2 (build_value ?F ?i u) = Some z"
        using operation_built(2) [OF F u(3,4) r1(2,3) source_op_table [OF x(3) operation(5)]] by blast
      show "\<exists>regs'. segment s (regs, mem) (build_state ?F ?i u) (regs', mem) \<and> value_in regs' (build_value ?F ?i u) = Some z"
        using segment_straight [OF r1(1) r2(1) u(2) build_straight] r2(2) by blast
    qed
    ultimately show ?thesis by (auto simp: generates_def)
  qed
qed

lemma test_words: "value_in regs v = Some x \<Longrightarrow> value_in regs w = Some y \<Longrightarrow> test p regs v w = word_test p x y"
  by (simp add: test_def split: option.split)

lemma cond_given:
  assumes F: "folding_sound (builder Env)" and c: "is_cond s hi k n c" and s: "ready f s n hi D slot" and ok: "cond_ok D c"
  shows "generates Env k n pass s 1 bit_in D slot (\<lambda>\<sigma>. cond_value \<sigma> c)"
  using c
proof (cases rule: is_cond.cases)
  case (comparison g p l r cs k a b)
  note node = intCompareOps_node [OF comparison(6)]
  obtain v w u where u: "generate Env (Suc k) n pass s = builtin_binary (builder Env) n v w u" "straight s u"
      "known 32 (made_so_far u) v" "known 32 (made_so_far u) w"
      "\<And>regs mem \<sigma> x y. holds D slot \<sigma> mem \<Longrightarrow> expr_value \<sigma> a = Some x \<Longrightarrow> expr_value \<sigma> b = Some y \<Longrightarrow>
        \<exists>regs'. segment s (regs, mem) u (regs', mem) \<and> value_in regs' v = Some x \<and> value_in regs' w = Some y"
    by (rule operands_given [OF comparison(4,7) _ comparison(10,8,9,11,12) s expr_given [OF F]])
      (use node comparison(2,5) ok in auto)
  let ?i = "Compare p v w" and ?F = "builder Env"
  have "generate Env (Suc k) n pass s = Inr (Val (build_value ?F ?i u), build_state ?F ?i u)"
    using builtin_run [OF known_type [OF u(3)] known_type [OF u(4)], of u n ?F] comparison(5,6) u(1)
    by (simp add: agree_nodes [OF straight_agree [OF u(2)]] int_instruction_def)
  moreover have "gives 1 bit_in s (build_value ?F ?i u) (build_state ?F ?i u) D slot (\<lambda>\<sigma>. cond_value \<sigma> c)"
    unfolding gives_def
  proof (intro conjI allI impI)
    show "straight s (build_state ?F ?i u)" by (rule straight_trans [OF u(2) build_straight])
    show "known 1 (made_so_far (build_state ?F ?i u)) (build_value ?F ?i u)" by (rule test_built(1) [OF F])
  next
    fix regs mem \<sigma> z
    assume m: "holds D slot \<sigma> mem" "cond_value \<sigma> c = Some z"
    then obtain x y where x: "expr_value \<sigma> a = Some x" "expr_value \<sigma> b = Some y" "source_test g x y = Some z"
      using comparison(2) by (auto simp: bind_eq_Some_conv)
    obtain r1 where r1: "segment s (regs, mem) u (r1, mem)" "value_in r1 v = Some x" "value_in r1 w = Some y"
      using u(5) [OF m(1) x(1,2)] by blast
    obtain blk where blk: "insertBlock (ir u) = Some blk" using ready_straight [OF s u(2)] by (auto simp: ready_def tidy_def)
    have "test p r1 v w = Some z" using test_words [OF r1(2,3)] source_test_table [OF x(3) comparison(6)] by simp
    then obtain r2 where r2: "segment u (r1, mem) (build_state ?F ?i u) (r2, mem)" "bit_in r2 (build_value ?F ?i u) = Some z"
      using test_built(2) [OF F _ blk] by blast
    show "\<exists>regs'. segment s (regs, mem) (build_state ?F ?i u) (regs', mem) \<and> bit_in regs' (build_value ?F ?i u) = Some z"
      using segment_straight [OF r1(1) r2(1) u(2) build_straight] r2(2) by blast
  qed
  ultimately show ?thesis using comparison(1) by (auto simp: generates_def)
qed

end
