(* ===== verification/Codegen_Control.thy ===== *)
theory Codegen_Control
  imports Codegen_Values
begin

text \<open>
  The nodes of statements and bodies over \<open>int\<close>, and the steps of the generator that make blocks and variables.
\<close>

section \<open>Nodes of statements\<close>

text \<open>A statement and a body have their nodes between the first node and the bound; the bodies of one statement lie one
  behind the other, and so do the statements of a body.\<close>

inductive is_stmt :: "gstate \<Rightarrow> nat \<Rightarrow> nat \<Rightarrow> nat \<Rightarrow> stmt \<Rightarrow> bool"
  and is_body :: "gstate \<Rightarrow> nat \<Rightarrow> nat \<Rightarrow> nat \<Rightarrow> stmt list \<Rightarrow> bool"
  and in_row :: "gstate \<Rightarrow> nat \<Rightarrow> nat \<Rightarrow> nat \<Rightarrow> nat list \<Rightarrow> nat \<Rightarrow> stmt list \<Rightarrow> bool" for s where
  assignment: "n < hi \<Longrightarrow> g_codegen (nodeStore s n) = generateExpressionStatement \<Longrightarrow> kids_of s n = l # r # cs \<Longrightarrow>
    g_type (nodeStore s l) = Identifier_Node \<Longrightarrow> kids_of s l = [] \<Longrightarrow> attached s r n \<Longrightarrow> is_expr s hi k r e \<Longrightarrow>
    is_stmt s (Suc k) n hi (Assign (node_text s l) e)"
| declaring: "n < hi \<Longrightarrow> g_codegen (nodeStore s n) = generateExpressionStatement \<Longrightarrow> kids_of s n = l # r # cs \<Longrightarrow>
    g_type (nodeStore s l) = Identifier_Node \<Longrightarrow> kids_of s l = t # ts \<Longrightarrow> \<not> g_lvalue (nodeStore s l) \<Longrightarrow>
    node_text s t \<in> {''int'', ''int32''} \<Longrightarrow> map_of (typeSigns s) (node_text s t) \<noteq> None \<Longrightarrow>
    attached s r n \<Longrightarrow> is_expr s hi k r e \<Longrightarrow> is_stmt s (Suc k) n hi (Declare (node_text s l) e)"
| conditional: "n < hi \<Longrightarrow> g_codegen (nodeStore s n) = generateIf \<Longrightarrow> kids_of s n = c # t # e # cs \<Longrightarrow>
    attached s c n \<Longrightarrow> kids_of s c = ce # cs' \<Longrightarrow> attached s ce c \<Longrightarrow> is_cond s t k ce b \<Longrightarrow>
    attached s t n \<Longrightarrow> is_body s k t e A \<Longrightarrow> attached s e n \<Longrightarrow> is_body s k e hi B \<Longrightarrow>
    is_stmt s (Suc k) n hi (If_Else b A B)"
| iteration: "n < hi \<Longrightarrow> g_codegen (nodeStore s n) = generateFor \<Longrightarrow> kids_of s n = it # r # body # cs \<Longrightarrow>
    g_type (nodeStore s it) = Iterator \<Longrightarrow> kids_of s it = i # is \<Longrightarrow> attached s r n \<Longrightarrow> kids_of s r = lower # upper # cs' \<Longrightarrow>
    attached s lower r \<Longrightarrow> attached s upper r \<Longrightarrow> is_expr s body k lower a \<Longrightarrow> is_expr s body k upper b \<Longrightarrow>
    attached s body n \<Longrightarrow> is_body s k body hi sts \<Longrightarrow> is_stmt s (Suc k) n hi (For_Range (node_text s i) a b sts)"
| block: "is_body s k n hi sts \<Longrightarrow> is_stmt s k n hi (Block sts)"
| scope: "n < hi \<Longrightarrow> g_codegen (nodeStore s n) = generateScopeBody \<Longrightarrow> in_row s k n (Suc n) (kids_of s n) hi sts \<Longrightarrow>
    is_body s (Suc k) n hi sts"
| row_end: "in_row s k p lo [] hi []"
| row_next: "lo \<le> n \<Longrightarrow> attached s n p \<Longrightarrow> is_stmt s k n h st \<Longrightarrow> h \<le> hi \<Longrightarrow> in_row s k p h ns hi sts \<Longrightarrow>
    in_row s k p lo (n # ns) hi (st # sts)"

inductive_cases is_stmt_cases: "is_stmt s k n hi st"
inductive_cases is_body_cases: "is_body s k n hi sts"
inductive_cases in_row_cases: "in_row s k p lo [] hi sts" "in_row s k p lo (n # ns) hi sts"

lemma is_stmt_agree:
  assumes "agree s s'"
  shows "is_stmt s k n hi st \<Longrightarrow> is_stmt s' k n hi st" and "is_body s k n hi sts \<Longrightarrow> is_body s' k n hi sts"
    and "in_row s k p lo ns hi sts \<Longrightarrow> in_row s' k p lo ns hi sts"
proof (induction rule: is_stmt_is_body_in_row.inducts)
  case (assignment n hi l r cs k e)
  then have "is_stmt s' (Suc k) n hi (Assign (node_text s' l) e)"
    using is_expr_agree [OF assms] by (intro is_stmt_is_body_in_row.assignment) (auto simp: agree_nodes [OF assms])
  then show ?case by (simp add: agree_nodes [OF assms] agree_rest [OF assms])
next
  case (declaring n hi l r cs t ts k e)
  then have "is_stmt s' (Suc k) n hi (Declare (node_text s' l) e)"
    using is_expr_agree [OF assms]
    by (intro is_stmt_is_body_in_row.declaring) (auto simp: agree_nodes [OF assms] agree_rest [OF assms])
  then show ?case by (simp add: agree_nodes [OF assms] agree_rest [OF assms])
next
  case (conditional n hi c t e cs ce cs' k b A B)
  then show ?case
    using is_cond_agree [OF assms] by (intro is_stmt_is_body_in_row.conditional [where c = c and ce = ce and t = t and e = e]) (auto simp: agree_nodes [OF assms])
next
  case (iteration n hi it r body cs i "is" lower upper cs' k a b sts)
  then have "is_stmt s' (Suc k) n hi (For_Range (node_text s' i) a b sts)"
    using is_expr_agree [OF assms]
    by (intro is_stmt_is_body_in_row.iteration [where it = it and r = r and body = body and lower = lower and upper = upper]) (auto simp: agree_nodes [OF assms])
  then show ?case by (simp add: agree_nodes [OF assms] agree_rest [OF assms])
next
  case (scope n hi k sts)
  then show ?case by (intro is_stmt_is_body_in_row.scope) (auto simp: agree_nodes [OF assms])
qed (auto intro: is_stmt_is_body_in_row.intros simp: agree_nodes [OF assms])

lemma is_body_generator: "is_body s k n hi sts \<Longrightarrow> g_codegen (nodeStore s n) \<noteq> No_Codegen"
  by (auto elim: is_body_cases)

lemma is_stmt_generator: "is_stmt s k n hi st \<Longrightarrow> g_codegen (nodeStore s n) \<noteq> No_Codegen"
  using is_body_generator by (auto elim!: is_stmt_cases)

lemma is_body_within: "is_body s k n hi sts \<Longrightarrow> n < hi"
  by (auto elim: is_body_cases)

lemma is_stmt_within: "is_stmt s k n hi st \<Longrightarrow> n < hi"
  using is_body_within by (auto elim!: is_stmt_cases)

section \<open>Blocks and variables\<close>

definition add_block :: "string \<Rightarrow> fn_handle option \<Rightarrow> gstate \<Rightarrow> gstate" where
  "add_block name f s = s\<lparr>ir := (ir s)\<lparr>blocks := blocks (ir s) @ [\<lparr>bb_name = name, bb_parent = f\<rparr>]\<rparr>\<rparr>"

definition at_block :: "nat \<Rightarrow> gstate \<Rightarrow> gstate" where
  "at_block b s = s\<lparr>ir := (ir s)\<lparr>insertBlock := Some b\<rparr>\<rparr>"

definition owned :: "fn_handle \<Rightarrow> nat \<Rightarrow> gstate \<Rightarrow> gstate" where
  "owned f b s = s\<lparr>ir := (ir s)\<lparr>blocks := (blocks (ir s))[b := (blocks (ir s) ! b)\<lparr>bb_parent := Some f\<rparr>]\<rparr>\<rparr>"

definition named :: "nat \<Rightarrow> string \<Rightarrow> valueType \<Rightarrow> gstate \<Rightarrow> gstate" where
  "named n x v s = s\<lparr>nodeStore := (nodeStore s)(n := (nodeStore s n)\<lparr>g_namedValues := (x, v) # names_of s n\<rparr>)\<rparr>"

lemma add_block_sel [simp]:
  "emitted (ir (add_block name f s)) = emitted (ir s)" "insertBlock (ir (add_block name f s)) = insertBlock (ir s)"
  "blocks (ir (add_block name f s)) = blocks (ir s) @ [\<lparr>bb_name = name, bb_parent = f\<rparr>]"
  "nodeStore (add_block name f s) = nodeStore s" "wasError (add_block name f s) = wasError s"
  by (simp_all add: add_block_def)

lemma at_block_sel [simp]:
  "emitted (ir (at_block b s)) = emitted (ir s)" "insertBlock (ir (at_block b s)) = Some b" "blocks (ir (at_block b s)) = blocks (ir s)"
  "nodeStore (at_block b s) = nodeStore s" "wasError (at_block b s) = wasError s"
  by (simp_all add: at_block_def)

lemma owned_sel [simp]:
  "emitted (ir (owned f b s)) = emitted (ir s)" "insertBlock (ir (owned f b s)) = insertBlock (ir s)"
  "blocks (ir (owned f b s)) = (blocks (ir s))[b := (blocks (ir s) ! b)\<lparr>bb_parent := Some f\<rparr>]"
  "nodeStore (owned f b s) = nodeStore s" "wasError (owned f b s) = wasError s"
  by (simp_all add: owned_def)

lemma named_sel [simp]:
  "ir (named n x v s) = ir s" "wasError (named n x v s) = wasError s" "tokenStore (named n x v s) = tokenStore s"
  "names_of (named n x v s) m = (if m = n then (x, v) # names_of s n else names_of s m)"
  "parent_of (named n x v s) m = parent_of s m" "kids_of (named n x v s) m = kids_of s m"
  by (simp_all add: named_def)

lemma agree_steps: "agree s (add_block name g s)" "agree s (at_block b s)" "agree s (owned f b s)" "agree s (named n x v s)"
  by (simp_all add: add_block_def at_block_def owned_def named_def agree_module agree_names)

lemma current_function_run: "tidy f s \<Longrightarrow> current_function s = Inr (Some f, s)"
  by (auto simp: tidy_def current_function_def follow_def gbind_def gets_def gret_def)

lemma create_block_run: "create_block name f s = Inr (block_count s, add_block name f s)"
  by (simp add: create_block_def gbind_def gets_def gmodify_def gret_def add_block_def)

lemma set_insert_point_run: "set_insert_point b s = Inr ((), at_block b s)"
  by (simp add: set_insert_point_def gmodify_def at_block_def)

lemma insert_block_run: "insert_block (Some f) b s = Inr ((), owned f b s)"
  by (simp add: insert_block_def follow_def gbind_def gret_def gmodify_def owned_def)

lemma set_named_value_run: "set_named_value n x v s = Inr ((), named n x v s)"
  by (simp add: set_named_value_def set_node_def gmodify_def named_def)

lemma CreateEntryBlockAlloca_run:
  "CreateEntryBlockAlloca F (Some f) (Some t) x s = Inr (Stack_Slot (made_so_far s) t, push (Entry_Alloca f t x) s)"
  by (simp add: CreateEntryBlockAlloca_def follow_def emit_push)

lemma child_run: "kids_of s n = cs \<Longrightarrow> i < length cs \<Longrightarrow> child n i s = Inr (cs ! i, s)"
  by (simp add: child_def children_def gbind_def node_def gets_def gret_def)

lemma gbind_run: "m s = Inr (x, t) \<Longrightarrow> gbind m g s = g x t"
  by (simp add: gbind_def)

text \<open>Steps after a state from which code is produced.\<close>

lemma produces_add_block: "produces s t \<Longrightarrow> produces s (add_block name f t)"
  using agree_trans agree_steps(1) by (auto simp: produces_def less_SucI)

lemma produces_at_block: "produces s t \<Longrightarrow> block_count s \<le> b \<Longrightarrow> b < block_count t \<Longrightarrow> produces s (at_block b t)"
  using agree_trans agree_steps(2) by (auto simp: produces_def)

lemma produces_owned: "produces s t \<Longrightarrow> block_count s \<le> b \<Longrightarrow> produces s (owned f b t)"
  using agree_trans agree_steps(3) by (auto simp: produces_def list_update_append)

lemma produces_named: "produces s t \<Longrightarrow> produces s (named n x v t)"
  using agree_trans agree_steps(4) by (auto simp: produces_def)

lemma produces_push: "produces s t \<Longrightarrow> produces s (push i t)"
  using produces_trans push_produces by blast

lemma tidy_add_block: "tidy f s \<Longrightarrow> tidy f (add_block name g s)"
  unfolding tidy_def by (auto simp: nth_append less_SucI)

lemma tidy_at_block: "tidy f s \<Longrightarrow> b < block_count s \<Longrightarrow> bb_parent (blocks (ir s) ! b) = Some f \<Longrightarrow> tidy f (at_block b s)"
  unfolding tidy_def by auto

lemma tidy_owned: "tidy f s \<Longrightarrow> b < block_count s \<Longrightarrow> tidy f (owned f b s)"
  unfolding tidy_def by (auto simp: nth_list_update)

lemma tidy_named: "tidy f s \<Longrightarrow> tidy f (named n x v s)"
  by (simp add: tidy_def)

section \<open>What statements do\<close>

definition slots_ok :: "(string \<Rightarrow> status) \<Rightarrow> (string \<Rightarrow> nat) \<Rightarrow> nat \<Rightarrow> bool" where
  "slots_ok D slot m \<longleftrightarrow> inj_on slot {x. D x = Visible} \<and> (\<forall>x. D x = Visible \<longrightarrow> slot x < m)"

lemma slots_ok_mono: "slots_ok D slot m \<Longrightarrow> m \<le> m' \<Longrightarrow> slots_ok D slot m'"
  by (auto simp: slots_ok_def)

lemma slots_ok_new: "slots_ok D slot m \<Longrightarrow> D x \<noteq> Visible \<Longrightarrow> m \<le> j \<Longrightarrow> j < m' \<Longrightarrow> slots_ok (D(x := Visible)) (slot(x := j)) m'"
  by (auto simp: slots_ok_def inj_on_def)

lemma slots_ok_hide: "slots_ok D slot m \<Longrightarrow> slots_ok (D(x := Unknown)) slot m"
  by (auto simp: slots_ok_def inj_on_def)

lemma holds_assign:
  "holds D slot \<sigma> mem \<Longrightarrow> slots_ok D slot m \<Longrightarrow> D x = Visible \<Longrightarrow> holds D slot (\<sigma>(x := v)) (mem(slot x := v))"
  by (auto simp: holds_def slots_ok_def inj_on_def)

lemma holds_new:
  "holds D slot \<sigma> mem \<Longrightarrow> slots_ok D slot m \<Longrightarrow> D x \<noteq> Visible \<Longrightarrow> m \<le> j \<Longrightarrow>
   holds (D(x := Visible)) (slot(x := j)) (\<sigma>(x := v)) (mem(j := v))"
  by (auto simp: holds_def slots_ok_def)

lemma holds_less:
  "holds D slot \<sigma> mem \<Longrightarrow> (\<And>x. D' x = Visible \<Longrightarrow> D x = Visible \<and> slot x = slot' x) \<Longrightarrow> holds D' slot' \<sigma> mem"
  unfolding holds_def by metis

definition transforms ::
  "gstate \<Rightarrow> gstate \<Rightarrow> (string \<Rightarrow> status) \<Rightarrow> (string \<Rightarrow> nat) \<Rightarrow> (string \<Rightarrow> status) \<Rightarrow> (string \<Rightarrow> nat) \<Rightarrow> (store \<Rightarrow> store \<Rightarrow> bool) \<Rightarrow> bool" where
  "transforms s s' D slot D' slot' R \<longleftrightarrow> (\<forall>\<sigma> \<sigma>' regs mem. holds D slot \<sigma> mem \<longrightarrow> R \<sigma> \<sigma>' \<longrightarrow>
     (\<exists>regs' mem'. segment s (regs, mem) s' (regs', mem') \<and> holds D' slot' \<sigma>' mem'))"

lemma transformsD:
  "transforms s s' D slot D' slot' R \<Longrightarrow> holds D slot \<sigma> mem \<Longrightarrow> R \<sigma> \<sigma>' \<Longrightarrow>
   \<exists>regs' mem'. segment s (regs, mem) s' (regs', mem') \<and> holds D' slot' \<sigma>' mem'"
  by (auto simp: transforms_def)

text \<open>Variables of nodes are made only between two nodes.\<close>

definition names_within :: "gstate \<Rightarrow> gstate \<Rightarrow> nat \<Rightarrow> nat \<Rightarrow> bool" where
  "names_within s s' lo hi \<longleftrightarrow> (\<forall>m. m < lo \<or> hi \<le> m \<longrightarrow> names_of s' m = names_of s m)"

lemma names_withinD: "names_within s s' lo hi \<Longrightarrow> m < lo \<or> hi \<le> m \<Longrightarrow> names_of s' m = names_of s m"
  by (auto simp: names_within_def)

lemma names_within_trans: "names_within s t lo hi \<Longrightarrow> names_within t u lo hi \<Longrightarrow> names_within s u lo hi"
  by (simp add: names_within_def)

lemma names_within_mono: "names_within s t lo hi \<Longrightarrow> lo' \<le> lo \<Longrightarrow> hi \<le> hi' \<Longrightarrow> names_within s t lo' hi'"
  by (auto simp: names_within_def)

lemma names_within_same: "(\<And>m. names_of t m = names_of s m) \<Longrightarrow> names_within s t lo hi"
  by (simp add: names_within_def)

lemma names_within_blank: "names_within s t lo hi \<Longrightarrow> blank s lo' hi' \<Longrightarrow> hi \<le> lo' \<or> hi' \<le> lo \<Longrightarrow> blank t lo' hi'"
  by (auto simp: names_within_def blank_def)

lemma after_Visible: "stmt_ok D st \<Longrightarrow> D x = Visible \<Longrightarrow> after st D x = Visible"
  by (cases st) auto

end
