(* ===== verification/Codegen_Rows.thy ===== *)
theory Codegen_Rows
  imports Codegen_Control
begin

text \<open>
  What is to be shown of a statement and of a body, and the proof for declarations, assignments and sequences of
  statements.
\<close>

section \<open>What is to be shown\<close>

text \<open>The variables of a statement's own node are what the statement adds to the names behind it.\<close>

definition declares :: "gstate \<Rightarrow> nat \<Rightarrow> stmt \<Rightarrow> (string \<Rightarrow> status) \<Rightarrow> (string \<Rightarrow> nat) \<Rightarrow> bool" where
  "declares s n st D slot \<longleftrightarrow> (\<forall>x. case map_of (names_of s n) x of
       None \<Rightarrow> after st D x = D x
     | Some v \<Rightarrow> after st D x = Unknown \<or> D x = Absent \<and> after st D x = Visible \<and> vt_val v = Stack_Slot (slot x) (Int_Ty 32))"

definition stmt_compiled :: "environment \<Rightarrow> fn_handle \<Rightarrow> nat \<Rightarrow> nat \<Rightarrow> gstate \<Rightarrow> nat \<Rightarrow> nat \<Rightarrow> stmt \<Rightarrow> (string \<Rightarrow> status) \<Rightarrow> (string \<Rightarrow> nat) \<Rightarrow> bool" where
  "stmt_compiled Env f k pass s n hi st D slot \<longleftrightarrow> (\<exists>r s' slot'. generate Env k n pass s = Inr (r, s') \<and> (\<forall>t. r \<noteq> Ty t)
     \<and> produces s s' \<and> tidy f s' \<and> names_within s s' n hi \<and> declares s' n st D slot'
     \<and> slots_ok (after st D) slot' (made_so_far s') \<and> (\<forall>x. D x = Visible \<longrightarrow> slot' x = slot x)
     \<and> transforms s s' D slot (after st D) slot' (exec st))"

definition body_compiled :: "environment \<Rightarrow> fn_handle \<Rightarrow> nat \<Rightarrow> nat \<Rightarrow> gstate \<Rightarrow> nat \<Rightarrow> nat \<Rightarrow> stmt list \<Rightarrow> (string \<Rightarrow> status) \<Rightarrow> (string \<Rightarrow> nat) \<Rightarrow> bool" where
  "body_compiled Env f k pass s b hi sts D slot \<longleftrightarrow> (\<exists>s'. generate Env k b pass s = Inr (Nullptr, s')
     \<and> produces s s' \<and> tidy f s' \<and> names_within s s' (Suc b) hi \<and> transforms s s' D slot D slot (execs sts))"

lemma generated_value:
  assumes "folding_sound (builder Env)" and "is_expr s hi k n e" and "ready f s n hi D slot" and "expr_ok D e"
  shows "\<exists>v s'. checked_value (generate Env k) n pass s = Inr (Some v, s') \<and> gives 32 value_in s v s' D slot (\<lambda>\<sigma>. expr_value \<sigma> e)
    \<and> ready f s' n hi D slot \<and> tidy f s'"
proof -
  obtain v s' where v: "generate Env k n pass s = Inr (Val v, s')" "gives 32 value_in s v s' D slot (\<lambda>\<sigma>. expr_value \<sigma> e)"
    using expr_given [OF assms] unfolding generates_def by blast
  have s': "ready f s' n hi D slot" by (rule ready_straight [OF assms(3) givesD(1) [OF v(2)]])
  then have "tidy f s'" "\<not> wasError s'" by (auto simp: ready_def tidy_def)
  then show ?thesis using checked_value_run [OF v(1) is_expr_generator [OF assms(2)]] v(2) s' by blast
qed

section \<open>Assignments\<close>

lemma store_segment:
  assumes "insertBlock (ir s) = Some b" and "value_in regs v = Some x"
  shows "segment s (regs, mem) (push (Store v (Stack_Slot j (Int_Ty 32))) s) (regs, mem(j := x))"
  by (rule push_segment [OF assms(1)]) (simp_all add: perform_def assms(2))

lemma tidy_insert: "tidy f s \<Longrightarrow> \<exists>b. insertBlock (ir s) = Some b"
  by (auto simp: tidy_def)

lemma straight_names: "straight s s' \<Longrightarrow> names_within s s' lo hi"
  by (simp add: straight_def names_within_def)

lemma blank_declares:
  "names_of s n = [] \<Longrightarrow> after st D = D \<Longrightarrow> declares s n st D slot"
  by (simp add: declares_def)

lemma assignment_compiled:
  assumes F: "folding_sound (builder Env)" and n: "n < hi" "g_codegen (nodeStore s n) = generateExpressionStatement"
    "kids_of s n = l # r # cs" "g_type (nodeStore s l) = Identifier_Node" "kids_of s l = []" "attached s r n" "is_expr s hi k r e"
    and s: "ready f s n hi D slot" and ok: "stmt_ok D (Assign (node_text s l) e)" "slots_ok D slot (made_so_far s)"
  shows "stmt_compiled Env f (Suc k) pass s n hi (Assign (node_text s l) e) D slot"
proof -
  let ?x = "node_text s l"
  have r: "ready f s r hi D slot" using ready_kid [OF s n(6)] is_expr_within [OF n(7)] by simp
  obtain w t where w: "checked_value (generate Env k) r pass s = Inr (Some w, t)" "gives 32 value_in s w t D slot (\<lambda>\<sigma>. expr_value \<sigma> e)"
      "tidy f t"
    using generated_value [OF F n(7) r, of pass] ok(1) by auto
  note st = givesD(1) [OF w(2)]
  have t: "agree s t" "ready f t n hi D slot" using straight_agree [OF st] ready_straight [OF s st] by auto
  obtain v where v: "findNamedValue (parent_of t n) (Some n) ?x t = Inr (Some v, t)" "vt_val v = Stack_Slot (slot ?x) (Int_Ty 32)"
    using t(2) ok(1) by (auto simp: ready_def sees_def view_def)
  let ?u = "push (Store w (Stack_Slot (slot ?x) (Int_Ty 32))) t"
  have "generate Env (Suc k) n pass s = Inr (Val w, ?u)"
    using n w(1) v current_function_run [of f s] s is_expr_generator [OF n(7)]
    by (simp add: Let_def ready_def run_method_def generateExpressionStatement_run_def gbind_def node_def gets_def gret_def children_def child_def
        follow_def has_generator_def declared_type_def assignment_variable_def first_of_def allocated_type_def emits_push
        agree_nodes [OF t(1)] agree_rest [OF t(1)])
  moreover have su: "produces s ?u" by (rule produces_push [OF straight_produces [OF st]])
  moreover have "transforms s ?u D slot D slot (exec (Assign ?x e))"
    unfolding transforms_def
  proof (intro allI impI)
    fix \<sigma> \<sigma>' regs mem assume m: "holds D slot \<sigma> mem" "exec (Assign ?x e) \<sigma> \<sigma>'"
    then obtain y where y: "expr_value \<sigma> e = Some y" "\<sigma>' = \<sigma>(?x := y)" by (auto elim: exec_cases)
    obtain regs' where r': "segment s (regs, mem) t (regs', mem)" "value_in regs' w = Some y"
      using givesD(3) [OF w(2) m(1) y(1)] by blast
    obtain b where b: "insertBlock (ir t) = Some b" using tidy_insert [OF w(3)] by blast
    have "segment s (regs, mem) ?u (regs', mem(slot ?x := y))"
      by (rule segment_trans [OF r'(1) store_segment [OF b r'(2)] straight_produces [OF st] push_produces])
    moreover have "holds D slot \<sigma>' (mem(slot ?x := y))" using holds_assign [OF m(1) ok(2)] ok(1) y(2) by simp
    ultimately show "\<exists>regs' mem'. segment s (regs, mem) ?u (regs', mem') \<and> holds D slot \<sigma>' mem'" by blast
  qed
  moreover have "names_within s ?u n hi" using straight_names [OF st] by (simp add: names_within_def)
  moreover have "names_of ?u n = []" using st s n(1) by (simp add: straight_def ready_def blank_def)
  then have "declares ?u n (Assign ?x e) D slot" by (rule blank_declares) simp
  moreover have "slots_ok D slot (made_so_far ?u)" by (rule slots_ok_mono [OF ok(2) produces_made [OF su]])
  ultimately show ?thesis
    unfolding stmt_compiled_def by (intro exI [of _ "Val w"] exI [of _ ?u] exI [of _ slot]) (simp add: push_tidy [OF w(3)])
qed

section \<open>Declarations\<close>

lemma int_type_run:
  "tx \<in> {''int'', ''int32''} \<Longrightarrow> getLLVMTypeFromString rec tx 0 tn pass s = Inr ((Some (Int_Ty 32), True), s)"
  by (auto simp: getLLVMTypeFromString_def find_type_def builtin_type_def gbind_def gets_def gret_def)

lemma cast_to_int_run:
  assumes "map_of (typeSigns s) tx \<noteq> None" and "type_of v = Int_Ty 32"
  shows "cast_to_declared F tx tx v (Some (Int_Ty 32)) at s = Inr (Some (Some v), s)"
  using assms
  by (auto simp: cast_to_declared_def gbind_def gets_def gret_def sign_of_def sign_at_def gmodify_def cast_value_def castValue_def ir_builder_def
      token_at_def split: option.splits)

lemma declaration_compiled:
  assumes F: "folding_sound (builder Env)" and n: "n < hi" "g_codegen (nodeStore s n) = generateExpressionStatement"
    "kids_of s n = l # r # cs" "g_type (nodeStore s l) = Identifier_Node" "kids_of s l = tn # ts" "\<not> g_lvalue (nodeStore s l)"
    "node_text s tn \<in> {''int'', ''int32''}" "map_of (typeSigns s) (node_text s tn) \<noteq> None"
    "attached s r n" "is_expr s hi k r e"
    and s: "ready f s n hi D slot" and ok: "stmt_ok D (Declare (node_text s l) e)" "slots_ok D slot (made_so_far s)"
  shows "stmt_compiled Env f (Suc k) pass s n hi (Declare (node_text s l) e) D slot"
proof -
  let ?x = "node_text s l" and ?D = "D(node_text s l := Visible)"
  have r: "ready f s r hi D slot" using ready_kid [OF s n(9)] is_expr_within [OF n(10)] by simp
  obtain w t where w: "checked_value (generate Env k) r pass s = Inr (Some w, t)" "gives 32 value_in s w t D slot (\<lambda>\<sigma>. expr_value \<sigma> e)"
      "tidy f t"
    using generated_value [OF F n(10) r, of pass] ok(1) by auto
  note st = givesD(1) [OF w(2)]
  have t: "agree s t" "ready f t n hi D slot" using straight_agree [OF st] ready_straight [OF s st] by auto
  have absent: "findNamedValue (parent_of t n) (Some n) ?x t = Inr (None, t)"
    using t(2) ok(1) by (auto simp: ready_def sees_def view_def)
  let ?j = "made_so_far t" and ?v = "\<lparr>vt_name = ?x, vt_type = node_text s tn, vt_val = Stack_Slot (made_so_far t) (Int_Ty 32)\<rparr>"
  let ?slot = "slot(?x := ?j)" and ?a = "push (Entry_Alloca f (Int_Ty 32) ?x) t"
  let ?u = "push (Store w (Stack_Slot ?j (Int_Ty 32))) (named n ?x ?v ?a)"
  have star: "node_text s tn \<noteq> ''*''" using n(7) by auto
  have type: "getLLVMTypeFromString (generate Env k) (node_text s tn) 0 tn pass t = Inr ((Some (Int_Ty 32), True), t)"
    by (rule int_type_run [OF n(7)])
  have cast: "cast_to_declared (builder Env) (node_text s tn) (node_text s tn) w (Some (Int_Ty 32)) r t = Inr (Some (Some w), t)"
    by (rule cast_to_int_run) (simp_all add: n(8) agree_rest [OF t(1)] known_type [OF givesD(2) [OF w(2)]])
  have names: "names_of t n = []" using st s n(1) by (simp add: straight_def ready_def blank_def)
  have alloca: "CreateEntryBlockAlloca (builder Env) (Some f) (Some (Int_Ty 32)) ?x t = Inr (Stack_Slot ?j (Int_Ty 32), ?a)"
    by (rule CreateEntryBlockAlloca_run)
  have agree_a: "agree s ?a" using agree_trans [OF t(1) push_agree] .
  have "generate Env (Suc k) n pass s = Inr (Val w, ?u)"
    using n w(1) absent current_function_run [of f s] s is_expr_generator [OF n(10)] star type cast
    by (simp add: Let_def ready_def run_method_def generateExpressionStatement_run_def gbind_def node_def gets_def gret_def children_def child_def
        follow_def has_generator_def declared_type_def pointed_type.simps pointer_levels_def assignment_variable_def first_of_def allocated_type_def
        emits_push alloca set_named_value_run stars_def agree_nodes [OF t(1)] agree_rest [OF t(1)] agree_rest [OF agree_a])
  moreover have ta: "produces t (named n ?x ?v ?a)" by (rule produces_named [OF push_produces])
  have su: "produces s ?u" by (rule produces_push [OF produces_trans [OF straight_produces [OF st] ta]])
  moreover have "transforms s ?u D slot ?D ?slot (exec (Declare ?x e))"
    unfolding transforms_def
  proof (intro allI impI)
    fix \<sigma> \<sigma>' regs mem assume m: "holds D slot \<sigma> mem" "exec (Declare ?x e) \<sigma> \<sigma>'"
    then obtain y where y: "expr_value \<sigma> e = Some y" "\<sigma>' = \<sigma>(?x := y)" by (auto elim: exec_cases)
    obtain regs' where r': "segment s (regs, mem) t (regs', mem)" "value_in regs' w = Some y"
      using givesD(3) [OF w(2) m(1) y(1)] by blast
    obtain b where b: "insertBlock (ir t) = Some b" using tidy_insert [OF w(3)] by blast
    have "segment t (regs', mem) ?a (regs', mem)" by (rule push_segment [OF b]) (simp_all add: perform_def)
    then have "segment t (regs', mem) (named n ?x ?v ?a) (regs', mem)" by (simp add: segment_def standing_def)
    moreover have "segment (named n ?x ?v ?a) (regs', mem) ?u (regs', mem(?j := y))"
      by (rule store_segment [OF _ r'(2)]) (simp add: b)
    ultimately have "segment t (regs', mem) ?u (regs', mem(?j := y))" by (rule segment_trans [OF _ _ ta push_produces])
    then have "segment s (regs, mem) ?u (regs', mem(?j := y))"
      by (rule segment_trans [OF r'(1) _ straight_produces [OF st] produces_push [OF ta]])
    moreover have "holds ?D ?slot \<sigma>' (mem(?j := y))"
      using holds_new [OF m(1) ok(2), of ?x ?j y] ok(1) produces_made [OF straight_produces [OF st]] y(2) by simp
    ultimately show "\<exists>regs' mem'. segment s (regs, mem) ?u (regs', mem') \<and> holds ?D ?slot \<sigma>' mem'" by blast
  qed
  moreover have "names_within s ?u n hi" using straight_names [OF st, of n hi] n(1) by (auto simp: names_within_def)
  moreover have "declares ?u n (Declare ?x e) D ?slot" using names ok(1) by (simp add: declares_def)
  moreover have "slots_ok ?D ?slot (made_so_far ?u)"
    using ok produces_made [OF straight_produces [OF st]] by (intro slots_ok_new [OF ok(2)]) auto
  moreover have "tidy f ?u" by (rule push_tidy [OF tidy_named [OF push_tidy [OF w(3)]]])
  ultimately show ?thesis
    using ok(1) unfolding stmt_compiled_def by (intro exI [of _ "Val w"] exI [of _ ?u] exI [of _ ?slot]) auto
qed

section \<open>Bodies\<close>

lemma body_step_run:
  assumes "generate Env k n pass s = Inr (r, t)" and "\<forall>ty. r \<noteq> Ty ty" and "g_codegen (nodeStore s n) \<noteq> No_Codegen" and "\<not> wasError t"
  shows "body_step (generate Env k) pass n () s = Inr (Inl (), t)"
  using assms
  by (cases r) (simp_all add: body_step_def has_generator_def checked_value_def value_node_def call_node_def as_value_def exit_on_error_def
      gbind_def node_def gets_def gret_def)

lemma declares_next:
  assumes "declares t n st D slot'" and "\<forall>x. D x = Visible \<longrightarrow> slot' x = slot x"
  shows "\<And>x. map_of (names_of t n) x \<noteq> None \<Longrightarrow> after st D x = Unknown \<or>
      (D x = Absent \<and> after st D x = Visible \<and> (\<exists>v. map_of (names_of t n) x = Some v \<and> vt_val v = Stack_Slot (slot' x) (Int_Ty 32)))"
    and "\<And>x. map_of (names_of t n) x = None \<Longrightarrow> after st D x = D x \<and> (D x = Visible \<longrightarrow> slot' x = slot x)"
proof -
  have d: "case map_of (names_of t n) x of
       None \<Rightarrow> after st D x = D x
     | Some v \<Rightarrow> after st D x = Unknown \<or> D x = Absent \<and> after st D x = Visible \<and> vt_val v = Stack_Slot (slot' x) (Int_Ty 32)" for x
    using assms(1) by (simp add: declares_def)
  show "map_of (names_of t n) x \<noteq> None \<Longrightarrow> after st D x = Unknown \<or>
      (D x = Absent \<and> after st D x = Visible \<and> (\<exists>v. map_of (names_of t n) x = Some v \<and> vt_val v = Stack_Slot (slot' x) (Int_Ty 32)))" for x
    using d [of x] by auto
  show "map_of (names_of t n) x = None \<Longrightarrow> after st D x = D x \<and> (D x = Visible \<longrightarrow> slot' x = slot x)" for x
    using d [of x] assms(2) by simp
qed

lemma row_compiled:
  assumes stmts: "\<And>s n hi st D slot. is_stmt s k n hi st \<Longrightarrow> ready f s n hi D slot \<Longrightarrow> stmt_ok D st \<Longrightarrow> slots_ok D slot (made_so_far s) \<Longrightarrow>
      stmt_compiled Env f k pass s n hi st D slot"
  shows "in_row s k p lo ns hi sts \<Longrightarrow> kids_of s p = pre @ ns \<Longrightarrow> attached s p q \<Longrightarrow> ordered s \<Longrightarrow> tidy f s \<Longrightarrow> blank s lo hi \<Longrightarrow>
    ns \<noteq> [] \<longrightarrow> sees s (hd ns) D slot \<Longrightarrow> stmts_ok D sts \<Longrightarrow> slots_ok D slot (made_so_far s) \<Longrightarrow>
    \<exists>s' D' slot'. gloop (body_step (generate Env k) pass) ns () s = Inr (Inl (), s') \<and> produces s s' \<and> tidy f s' \<and> names_within s s' lo hi
      \<and> transforms s s' D slot D' slot' (execs sts) \<and> (\<forall>x. D x = Visible \<longrightarrow> D' x = Visible \<and> slot' x = slot x)"
proof (induction ns arbitrary: s lo sts D slot pre)
  case Nil
  then have "sts = []" by (auto elim: in_row_cases)
  moreover have "transforms s s D slot D slot (execs [])"
    by (auto simp: transforms_def elim!: exec_cases intro!: exI segment_same)
  ultimately show ?case using Nil by (auto simp: gret_def produces_refl names_within_def)
next
  case (Cons n ns)
  obtain h st sts' where n: "sts = st # sts'" "lo \<le> n" "attached s n p" "is_stmt s k n h st" "h \<le> hi" "in_row s k p h ns hi sts'"
    using Cons.prems(1) by (auto elim: in_row_cases)
  have "n < h" by (rule is_stmt_within [OF n(4)])
  have ready: "ready f s n h D slot"
    using Cons.prems(4-7) n(2,3,5) by (auto simp: ready_def blank_def)
  obtain r t slot1 where t: "generate Env k n pass s = Inr (r, t)" "\<forall>ty. r \<noteq> Ty ty" "produces s t" "tidy f t" "names_within s t n h"
      "declares t n st D slot1" "slots_ok (after st D) slot1 (made_so_far t)" "\<forall>x. D x = Visible \<longrightarrow> slot1 x = slot x"
      "transforms s t D slot (after st D) slot1 (exec st)"
    using stmts [OF n(4) ready _ Cons.prems(9)] Cons.prems(8) n(1) by (auto simp: stmt_compiled_def)
  note st = produces_agree [OF t(3)]
  have kids: "kids_of s p = pre @ n # ns" by (rule Cons.prems(2))
  have sees: "ns \<noteq> [] \<longrightarrow> sees t (hd ns) (after st D) slot1"
  proof
    assume "ns \<noteq> []"
    then obtain m post where m: "ns = m # post" by (cases ns) auto
    have "attached s m p" using n(6) m by (auto elim: in_row_cases)
    moreover have "\<forall>j < n. names_of t j = names_of s j" using t(5) by (simp add: names_within_def)
    ultimately have "sees t m (after st D) slot1"
      using sees_same_next [OF Cons.prems(4) st kids [unfolded m] Cons.prems(3) n(3) _ _ _ declares_next [OF t(6,8)]] Cons.prems(7) by simp
    then show "sees t (hd ns) (after st D) slot1" using m by simp
  qed
  have "in_row t k p h ns hi sts'" using is_stmt_agree(3) [OF st n(6)] .
  moreover have "kids_of t p = (pre @ [n]) @ ns" using kids by (simp add: agree_nodes [OF st])
  moreover have "blank t h hi" using names_within_blank [OF t(5) blank_within [OF Cons.prems(6), of h hi]] n(2) \<open>n < h\<close> by simp
  moreover have "ordered t" "attached t p q" using agree_ordered [OF st Cons.prems(4)] Cons.prems(3) by (simp_all add: agree_nodes [OF st])
  moreover have "stmts_ok (after st D) sts'" using Cons.prems(8) n(1) by simp
  ultimately obtain s' D' slot' where s': "gloop (body_step (generate Env k) pass) ns () t = Inr (Inl (), s')" "produces t s'" "tidy f s'"
      "names_within t s' h hi" "transforms t s' (after st D) slot1 D' slot' (execs sts')"
      "\<forall>x. after st D x = Visible \<longrightarrow> D' x = Visible \<and> slot' x = slot1 x"
    using Cons.IH [of t h sts' "pre @ [n]" "after st D" slot1] t(4,7) sees by blast
  have "body_step (generate Env k) pass n () s = Inr (Inl (), t)"
    using body_step_run [OF t(1,2) is_stmt_generator [OF n(4)]] t(4) by (simp add: tidy_def)
  then have "gloop (body_step (generate Env k) pass) (n # ns) () s = Inr (Inl (), s')" using s'(1) by (simp add: gbind_def)
  moreover have "names_within s s' lo hi"
    using names_within_trans [OF names_within_mono [OF t(5)] names_within_mono [OF s'(4)]] n(2,5) \<open>n < h\<close> by simp
  moreover have "transforms s s' D slot D' slot' (execs sts)"
    unfolding transforms_def
  proof (intro allI impI)
    fix \<sigma> \<sigma>' regs mem assume m: "holds D slot \<sigma> mem" "execs sts \<sigma> \<sigma>'"
    then obtain \<sigma>1 where e: "exec st \<sigma> \<sigma>1" "execs sts' \<sigma>1 \<sigma>'" using n(1) by (auto elim: exec_cases)
    obtain regs1 mem1 where 1: "segment s (regs, mem) t (regs1, mem1)" "holds (after st D) slot1 \<sigma>1 mem1"
      using transformsD [OF t(9) m(1) e(1)] by blast
    obtain regs2 mem2 where 2: "segment t (regs1, mem1) s' (regs2, mem2)" "holds D' slot' \<sigma>' mem2"
      using transformsD [OF s'(5) 1(2) e(2)] by blast
    show "\<exists>regs' mem'. segment s (regs, mem) s' (regs', mem') \<and> holds D' slot' \<sigma>' mem'"
      using segment_trans [OF 1(1) 2(1) t(3) s'(2)] 2(2) by blast
  qed
  moreover have "\<forall>x. D x = Visible \<longrightarrow> D' x = Visible \<and> slot' x = slot x"
    using s'(6) t(8) after_Visible Cons.prems(8) n(1) by (metis stmts_ok.simps(2))
  ultimately show ?case using produces_trans [OF t(3) s'(2)] s'(3) by blast
qed

lemma scope_compiled:
  assumes stmts: "\<And>s n hi st D slot. is_stmt s k n hi st \<Longrightarrow> ready f s n hi D slot \<Longrightarrow> stmt_ok D st \<Longrightarrow> slots_ok D slot (made_so_far s) \<Longrightarrow>
      stmt_compiled Env f k pass s n hi st D slot"
    and b: "is_body s (Suc k) b hi sts" and s: "ready f s b hi D slot" and ok: "stmts_ok D sts" "slots_ok D slot (made_so_far s)"
  shows "body_compiled Env f (Suc k) pass s b hi sts D slot"
proof -
  have row: "b < hi" "g_codegen (nodeStore s b) = generateScopeBody" "in_row s k b (Suc b) (kids_of s b) hi sts"
    using b by (auto elim: is_body_cases)
  obtain q where q: "attached s b q" "ordered s" "tidy f s" "blank s b hi" "sees s b D slot"
    using s by (auto simp: ready_def)
  have sees: "kids_of s b \<noteq> [] \<longrightarrow> sees s (hd (kids_of s b)) D slot"
  proof
    assume "kids_of s b \<noteq> []"
    then obtain m ms where m: "kids_of s b = m # ms" by (cases "kids_of s b") auto
    then obtain h st where "attached s m b" "is_stmt s k m h st" "h \<le> hi" using row(3) by (auto elim: in_row_cases)
    then show "sees s (hd (kids_of s b)) D slot"
      using sees_inside [OF q(2) _ q(1,4) _ q(5), of m] is_stmt_within m by fastforce
  qed
  obtain s' D' slot' where s': "gloop (body_step (generate Env k) pass) (kids_of s b) () s = Inr (Inl (), s')" "produces s s'" "tidy f s'"
      "names_within s s' (Suc b) hi" "transforms s s' D slot D' slot' (execs sts)"
      "\<forall>x. D x = Visible \<longrightarrow> D' x = Visible \<and> slot' x = slot x"
    using row_compiled [OF stmts row(3), of "[]" q D slot] q(1-3) blank_within [OF q(4), of "Suc b" hi] sees ok by auto
  have "generate Env (Suc k) b pass s = Inr (Nullptr, s')"
    using row(2) s'(1) by (simp add: run_method_def generateScopeBody_run_def children_def gbind_def node_def gets_def gret_def)
  moreover have "transforms s s' D slot D slot (execs sts)"
    using s'(5) holds_less [of D' slot' _ _ D slot] s'(6) unfolding transforms_def by metis
  ultimately show ?thesis using s'(2-4) by (auto simp: body_compiled_def)
qed

text \<open>A body in braces of its own is a statement too.\<close>

lemma block_compiled:
  assumes b: "body_compiled Env f k pass s n hi sts D slot" and s: "ready f s n hi D slot" "n < hi" and slots: "slots_ok D slot (made_so_far s)"
  shows "stmt_compiled Env f k pass s n hi (Block sts) D slot"
proof -
  obtain s' where s': "generate Env k n pass s = Inr (Nullptr, s')" "produces s s'" "tidy f s'" "names_within s s' (Suc n) hi"
      "transforms s s' D slot D slot (execs sts)"
    using b by (auto simp: body_compiled_def)
  have "names_of s' n = []" using s'(4) s by (simp add: names_within_def ready_def blank_def)
  then have "declares s' n (Block sts) D slot" by (rule blank_declares) simp
  moreover have "transforms s s' D slot D slot (exec (Block sts))"
    using s'(5) unfolding transforms_def by (blast elim: exec_cases)
  moreover have "names_within s s' n hi" by (rule names_within_mono [OF s'(4)]) simp_all
  ultimately show ?thesis
    unfolding stmt_compiled_def using s'(1-3) slots_ok_mono [OF slots produces_made [OF s'(2)]]
    by (intro exI [of _ Nullptr] exI [of _ s'] exI [of _ slot]) simp
qed

end
