(* ===== verification/Codegen_Branches.thy ===== *)
theory Codegen_Branches
  imports Codegen_Rows
begin

text \<open>
  Jumps between blocks, and the code of \<open>if\<close>.
\<close>

section \<open>Branches\<close>

lemma generate_body_run:
  assumes "generate Env k b pass s = Inr (Nullptr, t)" and "g_codegen (nodeStore s b) \<noteq> No_Codegen" and "\<not> wasError t"
  shows "generate_body (generate Env k) at b pass s = Inr (Inl (), t)"
  using assms
  by (simp add: generate_body_def has_generator_def checked_value_def value_node_def call_node_def as_value_def exit_on_error_def
      gbind_def node_def gets_def gret_def)

text \<open>A branch leads to the place where a block begins that had no code before it.\<close>

lemma branch_moves:
  assumes "insertBlock (ir s) = Some b" and "fresh b' t" and "emitted (ir t) = emitted (ir s) @ (insertBlock (ir s), Br b') # is"
  shows "moves (emitted (ir t) @ E) (standing s c) (b', made_so_far t, c)"
proof -
  have "step_of (emitted (ir t) @ E) (standing s c) = Some (b', 0, c)"
    using assms(1,3) by (simp add: standing_def control_def)
  then show ?thesis using moves_trans [OF moves_one enter_block [OF assms(2)]] by blast
qed

lemma cond_branch_moves:
  assumes "insertBlock (ir s) = Some b" and "bit_in (fst c) v = Some z" and "b' = (if z then b1 else b2)" and "fresh b' t"
    and "emitted (ir t) = emitted (ir s) @ (insertBlock (ir s), Cond_Br v b1 b2) # is"
  shows "moves (emitted (ir t) @ E) (standing s c) (b', made_so_far t, c)"
proof -
  have "step_of (emitted (ir t) @ E) (standing s c) = Some (b', 0, c)"
    using assms(1-3,5) by (simp add: standing_def control_def)
  then show ?thesis using moves_trans [OF moves_one enter_block [OF assms(4)]] by blast
qed

lemma moves_extend: "(\<And>E. moves (C @ E) x y) \<Longrightarrow> C' = C @ is \<Longrightarrow> moves (C' @ E) x y"
  by simp

lemma produces_emittedE:
  assumes "produces s t"
  obtains "is" where "emitted (ir t) = emitted (ir s) @ is"
  using produces_emitted [OF assms] by blast

lemma segment_chain:
  assumes "segment s c t d" and "segment t d u e" and "emitted (ir t) = emitted (ir s) @ xs" and "emitted (ir u) = emitted (ir t) @ ys"
  shows "segment s c u e"
  unfolding segment_def
proof (intro conjI allI impI)
  fix E
  have "moves (emitted (ir u) @ E) (standing s c) (standing t d)" using assms(1,4) by (simp add: segment_def)
  then show "moves (emitted (ir u) @ E) (standing s c) (standing u e)" using assms(2) moves_trans by (auto simp: segment_def)
next
  fix j assume "j < made_so_far s"
  then show "fst e j = fst c j" using assms(1-3) by (simp add: segment_def)
qed

lemma produces_insert: "produces s t \<Longrightarrow> insertBlock (ir s) \<noteq> Some b \<Longrightarrow> b < block_count s \<Longrightarrow> insertBlock (ir t) \<noteq> Some b"
  by (auto simp: produces_def)

lemma ready_same:
  assumes "ready f s n hi D slot" and "agree s s'" and "\<And>m. names_of s' m = names_of s m" and "tidy f s'"
  shows "ready f s' n hi D slot"
proof -
  obtain p where "ordered s" "blank s n hi" "attached s n p" "sees s n D slot" using assms(1) by (auto simp: ready_def)
  then show ?thesis
    using sees_cong [OF _ assms(2), of n] agree_ordered [OF assms(2)] assms(3,4) by (auto simp: ready_def blank_def agree_nodes [OF assms(2)])
qed

lemma ready_within: "ready f s n hi D slot \<Longrightarrow> hi' \<le> hi \<Longrightarrow> ready f s n hi' D slot"
  by (auto simp: ready_def blank_def)

text \<open>Later, the node of a second body sees what it saw before, when the nodes in front of it have no variables.\<close>

lemma ready_later:
  assumes "ready f s n hi D slot" and "agree s s'" and "tidy f s'" and "attached s c n" and "\<forall>m < n. names_of s' m = names_of s m"
    and "in_front s' n c = []" and "blank s' c hi'"
  shows "ready f s' c hi' D slot"
proof -
  obtain p where s: "ordered s" "attached s n p" "sees s n D slot" using assms(1) by (auto simp: ready_def)
  have "sees s' n D slot" by (rule sees_cong [OF s(1) assms(2,5) s(2,3)])
  then have "sees s' c D slot"
    using sees_child [OF agree_ordered [OF assms(2) s(1)] _ _ assms(6)] assms(4) s(2) by (simp add: agree_nodes [OF assms(2)])
  then show ?thesis
    using assms(3,4,7) agree_ordered [OF assms(2) s(1)] by (intro readyI) (simp_all add: agree_nodes [OF assms(2)])
qed

lemma kids_ascend: "ordered s \<Longrightarrow> kids_of s n = a # b # c # cs \<Longrightarrow> n < a \<and> a < b \<and> b < c"
  by (auto simp: ordered_def dest: spec [of _ n])

text \<open>A jump back to a block that begins where the first code after a state will be.\<close>

lemma segment_back:
  assumes "segment s c t d" and "segment s d u e" and "insertBlock (ir t) = Some b" and "insertBlock (ir s) = Some a" and "fresh a s"
    and "emitted (ir t) = emitted (ir s) @ xs" and "emitted (ir u) = emitted (ir t) @ (insertBlock (ir t), Br a) # ys"
  shows "segment s c u e"
  unfolding segment_def
proof (intro conjI allI impI)
  fix E
  have "moves (emitted (ir u) @ E) (standing s c) (standing t d)" using assms(1,7) by (simp add: segment_def)
  moreover have "step_of (emitted (ir u) @ E) (standing t d) = Some (a, 0, d)" using assms(3,7) by (simp add: standing_def control_def)
  moreover have "moves (emitted (ir u) @ E) (a, 0, d) (standing s d)"
    using enter_block [OF assms(5), where E = "xs @ (insertBlock (ir t), Br a) # ys @ E" and c = d] assms(4,6,7) by (simp add: standing_def)
  moreover have "moves (emitted (ir u) @ E) (standing s d) (standing u e)" using assms(2) by (simp add: segment_def)
  ultimately show "moves (emitted (ir u) @ E) (standing s c) (standing u e)" by (meson moves_one moves_trans)
next
  fix j assume "j < made_so_far s"
  then show "fst e j = fst c j" using assms(1,2) by (simp add: segment_def)
qed

text \<open>The two steps of \<open>generate_branches\<close> between the bodies: the entry into the blocks, and the end of a block.\<close>

definition branches_entered :: "fn_handle \<Rightarrow> llvalue \<Rightarrow> gstate \<Rightarrow> gstate" where
  "branches_entered f cv s = (let L = block_count s
     in at_block L (push (Cond_Br cv L (Suc L)) (add_block ''ifcont'' None (add_block ''else'' None (add_block ''then'' (Some f) s)))))"

definition branch_left :: "fn_handle \<Rightarrow> nat \<Rightarrow> nat \<Rightarrow> gstate \<Rightarrow> gstate" where
  "branch_left f m b s = at_block b (owned f b (push (Br m) s))"

lemma branches_entered_sel [simp]:
  "emitted (ir (branches_entered f cv s)) = emitted (ir s) @ [(insertBlock (ir s), Cond_Br cv (block_count s) (Suc (block_count s)))]"
  "insertBlock (ir (branches_entered f cv s)) = Some (block_count s)" "names_of (branches_entered f cv s) m = names_of s m"
  "block_count (branches_entered f cv s) = Suc (Suc (Suc (block_count s)))"
  by (simp_all add: branches_entered_def Let_def)

lemma branch_left_sel [simp]:
  "emitted (ir (branch_left f m b s)) = emitted (ir s) @ [(insertBlock (ir s), Br m)]" "insertBlock (ir (branch_left f m b s)) = Some b"
  "names_of (branch_left f m b s) n = names_of s n" "block_count (branch_left f m b s) = block_count s"
  by (simp_all add: branch_left_def)

lemma branches_entered_facts:
  assumes "tidy f s"
  shows "produces s (branches_entered f cv s)" "tidy f (branches_entered f cv s)" "block_count s \<le> b \<Longrightarrow> fresh b (branches_entered f cv s)"
proof -
  show "produces s (branches_entered f cv s)"
    unfolding branches_entered_def Let_def by (intro produces_at_block produces_push produces_add_block produces_refl) simp_all
  show "tidy f (branches_entered f cv s)"
    unfolding branches_entered_def Let_def by (intro tidy_at_block push_tidy tidy_add_block assms) (simp_all add: nth_append)
  show "block_count s \<le> b \<Longrightarrow> fresh b (branches_entered f cv s)"
    using fresh_new [OF assms, of b] assms by (auto simp: fresh_def tidy_def)
qed

lemma branch_left_facts:
  assumes "produces s t" and "tidy f t" and "block_count s \<le> b" and "b < block_count t"
  shows "produces s (branch_left f m b t)" "tidy f (branch_left f m b t)"
    "fresh a t \<Longrightarrow> insertBlock (ir t) \<noteq> Some a \<Longrightarrow> fresh a (branch_left f m b t)"
proof -
  show "produces s (branch_left f m b t)"
    unfolding branch_left_def by (intro produces_at_block produces_owned produces_push assms(1)) (use assms(3,4) in simp_all)
  show "tidy f (branch_left f m b t)"
    unfolding branch_left_def by (intro tidy_at_block tidy_owned push_tidy assms(2)) (use assms(4) in simp_all)
qed (auto simp: fresh_def)

lemma branches_run:
  assumes v: "known 1 (made_so_far s0) v" and n: "kids_of s0 n = c # t # e # cs"
    and s0: "tidy f s0" and t: "g_codegen (nodeStore s0 t) \<noteq> No_Codegen" and e: "g_codegen (nodeStore s0 e) \<noteq> No_Codegen"
    and s1: "s1 = build_state F (Compare ICMP_NE v (Const_Int 1 0)) s0" and cv: "cv = build_value F (Compare ICMP_NE v (Const_Int 1 0)) s0"
    and L: "L = block_count s1"
    and t1: "generate Env k t pass (branches_entered f cv s1) = Inr (Nullptr, t1)" "produces (branches_entered f cv s1) t1" "tidy f t1"
    and t3: "generate Env k e pass (branch_left f (Suc (Suc L)) (Suc L) t1) = Inr (Nullptr, t3)" "tidy f t3"
  shows "generate_branches F (generate Env k) n pass v s0 = Inr (Nullptr, branch_left f (Suc (Suc L)) (Suc (Suc L)) t3)"
proof -
  let ?a1 = "add_block ''then'' (Some f) s1"
  let ?a2 = "add_block ''else'' None ?a1"
  let ?a3 = "add_block ''ifcont'' None ?a2"
  define s3 where "s3 = branches_entered f cv s1"
  define t2 where "t2 = branch_left f (Suc (Suc L)) (Suc L) t1"
  have s3: "at_block L (push (Cond_Br cv L (Suc L)) ?a3) = s3" by (simp add: s3_def branches_entered_def L Let_def)
  have t2: "at_block (Suc L) (owned f (Suc L) (push (Br (Suc (Suc L))) t1)) = t2" by (simp add: t2_def branch_left_def)
  have straight: "straight s0 s1" unfolding s1 by (rule build_straight)
  have f1: "current_function s1 = Inr (Some f, s1)" by (rule current_function_run [OF straight_tidy [OF s0 straight]])
  have nodes3: "agree s0 s3"
    unfolding s3 [symmetric] using straight_agree [OF straight] agree_steps push_agree agree_trans by meson
  have nodes2: "agree s0 t2"
    unfolding t2 [symmetric] using agree_trans [OF nodes3 produces_agree [OF t1(2) [folded s3_def]]] agree_steps push_agree agree_trans by meson
  have b1: "generate_body (generate Env k) t t pass s3 = Inr (Inl (), t1)"
    using generate_body_run [OF t1(1)] t t1(3) by (simp add: agree_nodes [OF nodes3] tidy_def flip: s3_def)
  have b2: "generate_body (generate Env k) n e pass t2 = Inr (Inl (), t3)"
    using generate_body_run [OF t3(1)] e t3(2) by (simp add: agree_nodes [OF nodes2] tidy_def flip: t2_def)
  have k3: "child n 1 s3 = Inr (t, s3)" using child_run [of s3 n "c # t # e # cs" 1] n by (simp add: agree_nodes [OF nodes3])
  have k2: "child n 2 t2 = Inr (e, t2)" using child_run [of t2 n "c # t # e # cs" 2] n by (simp add: agree_nodes [OF nodes2])
  have c1: "create_block ''then'' (Some f) s1 = Inr (L, ?a1)" using create_block_run [of "''then''" "Some f" s1] L by simp
  have c2: "create_block ''else'' None ?a1 = Inr (Suc L, ?a2)" using create_block_run [of "''else''" None ?a1] L by simp
  have c3: "create_block ''ifcont'' None ?a2 = Inr (Suc (Suc L), ?a3)" using create_block_run [of "''ifcont''" None ?a2] L by simp
  have em: "emit F (Compare ICMP_NE v (Const_Int 1 0)) s0 = Inr (cv, s1)" unfolding cv s1 by (rule emit_build)
  have br: "emits F i u = Inr ((), push i u)" if "i = Br x \<or> i = Cond_Br y x z" for i x y z u
    by (rule emits_push) (use that in auto)
  show ?thesis
    unfolding generate_branches_def branch_left_def
    by (simp only: gbind_def rbind_Inr prod.case em f1 c1 c2 c3 br [OF disjI1 [OF refl]] br [OF disjI2 [OF refl]] set_insert_point_run
        s3 k3 b1 sum.case insert_block_run t2 k2 b2 gret_def)
qed

lemma test_nonzero:
  assumes "bit_in regs v = Some z"
  shows "test ICMP_NE regs v (Const_Int 1 0) = Some z"
  using assms by (cases v) (auto simp: test_def split: if_splits)

text \<open>Running the blocks: one of the two bodies, and then the jump to the code behind.\<close>

lemma branches_executed:
  assumes s1: "insertBlock (ir s1) = Some blk" and s3: "emitted (ir s3) = emitted (ir s1) @ [(insertBlock (ir s1), Cond_Br cv L E)]"
      "insertBlock (ir s3) = Some L" "fresh L s3"
    and t1: "produces s3 t1" "tidy f t1" "transforms s3 t1 D slot D slot R1"
    and t2: "emitted (ir t2) = emitted (ir t1) @ [(insertBlock (ir t1), Br M)]" "insertBlock (ir t2) = Some E" "fresh E t2"
    and t3: "produces t2 t3" "tidy f t3" "transforms t2 t3 D slot D slot R2"
    and u: "emitted (ir u) = emitted (ir t3) @ [(insertBlock (ir t3), Br M)]" "insertBlock (ir u) = Some M" "fresh M u"
    and m: "holds D slot \<sigma> mem" "bit_in regs cv = Some z" "(if z then R1 else R2) \<sigma> \<sigma>'"
  shows "\<exists>regs' mem'. segment s1 (regs, mem) u (regs', mem') \<and> holds D slot \<sigma>' mem'"
proof -
  obtain is1 where is1: "emitted (ir t1) = emitted (ir s3) @ is1" using produces_emittedE [OF t1(1)] .
  obtain is2 where is2: "emitted (ir t3) = emitted (ir t2) @ is2" using produces_emittedE [OF t3(1)] .
  note em = s3(1) t2(1) u(1) is1 is2
  have jump: "segment s1 (regs, mem) x (regs, mem)"
    if "fresh j x" "insertBlock (ir x) = Some j" "j = (if z then L else E)"
      "emitted (ir x) = emitted (ir s1) @ (insertBlock (ir s1), Cond_Br cv L E) # rest" for x j rest
    using cond_branch_moves [OF s1 _ that(3,1,4), of "(regs, mem)"] m(2) that(2) by (simp add: segment_def standing_def)
  have leave: "segment x c u c" if x: "tidy f x" "emitted (ir u) = emitted (ir x) @ (insertBlock (ir x), Br M) # rest" for x c rest
  proof -
    obtain b where "insertBlock (ir x) = Some b" using tidy_insert [OF x(1)] by blast
    from branch_moves [OF this u(3) x(2)] show ?thesis using u(2) by (simp add: segment_def standing_def)
  qed
  show ?thesis
  proof (cases z)
    case True
    then have "R1 \<sigma> \<sigma>'" using m(3) by simp
    then obtain r2 mem2 where b: "segment s3 (regs, mem) t1 (r2, mem2)" "holds D slot \<sigma>' mem2"
      using transformsD [OF t1(3) m(1)] by blast
    have "segment s1 (regs, mem) s3 (regs, mem)" by (rule jump [OF s3(3,2)]) (use \<open>z\<close> s3(1) in simp_all)
    then have "segment s1 (regs, mem) t1 (r2, mem2)" by (rule segment_chain [OF _ b(1) s3(1) is1])
    moreover have "segment t1 (r2, mem2) u (r2, mem2)" by (rule leave [OF t1(2)]) (simp add: em)
    ultimately have "segment s1 (regs, mem) u (r2, mem2)" by (rule segment_chain) (simp_all add: em)
    with b(2) show ?thesis by blast
  next
    case False
    then have "R2 \<sigma> \<sigma>'" using m(3) by simp
    then obtain r2 mem2 where b: "segment t2 (regs, mem) t3 (r2, mem2)" "holds D slot \<sigma>' mem2"
      using transformsD [OF t3(3) m(1)] by blast
    have "segment s1 (regs, mem) t2 (regs, mem)" by (rule jump [OF t2(3,2)]) (use \<open>\<not> z\<close> in \<open>simp_all add: em\<close>)
    then have "segment s1 (regs, mem) t3 (r2, mem2)" by (rule segment_chain [OF _ b(1) _ is2]) (simp add: em)
    moreover have "segment t3 (r2, mem2) u (r2, mem2)" by (rule leave [OF t3(2)]) (simp add: em)
    ultimately have "segment s1 (regs, mem) u (r2, mem2)" by (rule segment_chain) (simp_all add: em)
    with b(2) show ?thesis by blast
  qed
qed

text \<open>The two bodies: the second sees what the first saw.\<close>

lemma second_ready:
  assumes s: "ready f s n hi D slot" and n: "kids_of s n = c # t # e # cs" "attached s e n" "t < e" "e < hi"
    and t: "agree s u" "tidy f u" "names_within s u (Suc t) e"
  shows "ready f u e hi D slot"
proof (rule ready_later [OF s t(1,2) n(2)])
  have ord: "n < c" "c < t" using kids_ascend [OF _ n(1)] s by (auto simp: ready_def)
  have blank: "blank s n hi" using s by (simp add: ready_def)
  show "\<forall>m < n. names_of u m = names_of s m" using t(3) ord by (simp add: names_within_def)
  have "names_of u m = []" if "m \<in> {n, c, t}" for m
    using that t(3) blank ord n(3,4) by (auto simp: names_within_def blank_def)
  then show "in_front u n e = []" using n ord by (simp add: in_front_def agree_nodes [OF t(1)])
  show "blank u e hi" using names_within_blank [OF t(3) blank_within [OF blank, of e hi]] ord n(3) by simp
qed

lemma branches_compiled:
  assumes bodies: "\<And>s b hi sts D slot. is_body s k b hi sts \<Longrightarrow> ready f s b hi D slot \<Longrightarrow> stmts_ok D sts \<Longrightarrow> slots_ok D slot (made_so_far s) \<Longrightarrow>
      body_compiled Env f k pass s b hi sts D slot"
    and n: "kids_of s n = c # t # e # cs" "attached s t n" "is_body s k t e A" "attached s e n" "is_body s k e hi B"
    and s: "ready f s n hi D slot" and ok: "stmts_ok D A" "stmts_ok D B" "slots_ok D slot (made_so_far s)"
    and s1: "produces s s1" "tidy f s1" "\<And>m. names_of s1 m = names_of s m" and L: "L = block_count s1" "block_count s \<le> L"
  obtains t1 t3 where "generate Env k t pass (branches_entered f cv s1) = Inr (Nullptr, t1)" "produces (branches_entered f cv s1) t1" "tidy f t1"
    "transforms (branches_entered f cv s1) t1 D slot D slot (execs A)" "Suc (Suc L) < block_count t1"
    "generate Env k e pass (branch_left f (Suc (Suc L)) (Suc L) t1) = Inr (Nullptr, t3)" "produces (branch_left f (Suc (Suc L)) (Suc L) t1) t3"
    "tidy f t3" "transforms (branch_left f (Suc (Suc L)) (Suc L) t1) t3 D slot D slot (execs B)" "produces s t3" "names_within s t3 (Suc t) hi"
proof -
  have ord: "n < c" "c < t" "t < e" "e < hi" using kids_ascend [OF _ n(1)] s is_body_within [OF n(5)] by (auto simp: ready_def)
  let ?s3 = "branches_entered f cv s1"
  note e3 = branches_entered_facts [OF s1(2)]
  have p3: "produces s ?s3" by (rule produces_trans [OF s1(1) e3(1)])
  have r3: "ready f ?s3 t e D slot"
    by (rule ready_same [OF ready_kid [OF ready_within [OF s, of e] n(2)] produces_agree [OF p3] _ e3(2)]) (use ord s1(3) in simp_all)
  obtain t1 where t1: "generate Env k t pass ?s3 = Inr (Nullptr, t1)" "produces ?s3 t1" "tidy f t1" "names_within ?s3 t1 (Suc t) e"
      "transforms ?s3 t1 D slot D slot (execs A)"
    using bodies [OF is_stmt_agree(2) [OF produces_agree [OF p3] n(3)] r3 ok(1) slots_ok_mono [OF ok(3) produces_made [OF p3]]]
    by (auto simp: body_compiled_def)
  let ?t2 = "branch_left f (Suc (Suc L)) (Suc L) t1"
  have count: "Suc (Suc L) < block_count t1" using produces_blocks [OF t1(2)] L(1) by simp
  note e2 = branch_left_facts [OF produces_trans [OF p3 t1(2)] t1(3), of "Suc L" "Suc (Suc L)"]
  have p2: "produces s ?t2" "tidy f ?t2" using e2(1,2) L(2) count by simp_all
  have r2: "ready f ?t2 e hi D slot"
    by (rule second_ready [OF s n(1,4) ord(3,4) produces_agree [OF p2(1)] p2(2)]) (use t1(4) s1(3) in \<open>simp add: names_within_def\<close>)
  obtain t3 where t3: "generate Env k e pass ?t2 = Inr (Nullptr, t3)" "produces ?t2 t3" "tidy f t3" "names_within ?t2 t3 (Suc e) hi"
      "transforms ?t2 t3 D slot D slot (execs B)"
    using bodies [OF is_stmt_agree(2) [OF produces_agree [OF p2(1)] n(5)] r2 ok(2) slots_ok_mono [OF ok(3) produces_made [OF p2(1)]]]
    by (auto simp: body_compiled_def)
  have "names_within s t3 (Suc t) hi" using t1(4) t3(4) s1(3) ord by (simp add: names_within_def)
  then show thesis by (rule that [OF t1(1-3,5) count t3(1-3,5) produces_trans [OF p2(1) t3(2)]])
qed

lemma conditional_runs:
  assumes F: "folding_sound F" and v: "gives 1 bit_in s v s0 D slot (\<lambda>\<sigma>. cond_value \<sigma> b)" and s0: "tidy f s0"
    and s1: "s1 = build_state F (Compare ICMP_NE v (Const_Int 1 0)) s0" and cv: "cv = build_value F (Compare ICMP_NE v (Const_Int 1 0)) s0"
    and L: "L = block_count s1"
    and t1: "produces (branches_entered f cv s1) t1" "tidy f t1" "transforms (branches_entered f cv s1) t1 D slot D slot (execs A)"
    and t3: "produces (branch_left f (Suc (Suc L)) (Suc L) t1) t3" "tidy f t3"
      "transforms (branch_left f (Suc (Suc L)) (Suc L) t1) t3 D slot D slot (execs B)"
    and new: "fresh (Suc L) (branch_left f (Suc (Suc L)) (Suc L) t1)" "fresh (Suc (Suc L)) (branch_left f (Suc (Suc L)) (Suc (Suc L)) t3)"
  shows "transforms s (branch_left f (Suc (Suc L)) (Suc (Suc L)) t3) D slot D slot (exec (If_Else b A B))"
  unfolding transforms_def
proof (intro allI impI)
  let ?u = "branch_left f (Suc (Suc L)) (Suc (Suc L)) t3"
  fix \<sigma> \<sigma>' regs mem assume m: "holds D slot \<sigma> mem" "exec (If_Else b A B) \<sigma> \<sigma>'"
  note st0 = givesD(1) [OF v]
  have st1: "straight s0 s1" unfolding s1 by (rule build_straight)
  obtain z where z: "cond_value \<sigma> b = Some z" "execs (if z then A else B) \<sigma> \<sigma>'" using m(2) by (auto elim: exec_cases)
  obtain r0 where r0: "segment s (regs, mem) s0 (r0, mem)" "bit_in r0 v = Some z" using givesD(3) [OF v m(1) z(1)] by blast
  obtain blk where blk: "insertBlock (ir s0) = Some blk" using tidy_insert [OF s0] by blast
  obtain r1 where r1: "segment s0 (r0, mem) s1 (r1, mem)" "bit_in r1 cv = Some z"
    using test_built(2) [OF F test_nonzero [OF r0(2)] blk] unfolding s1 cv by blast
  have to1: "segment s (regs, mem) s1 (r1, mem)" by (rule segment_straight [OF r0(1) r1(1) st0 st1])
  have blk1: "insertBlock (ir s1) = Some blk" using st1 blk by (simp add: straight_def)
  have y1: "tidy f s1" by (rule straight_tidy [OF s0 st1])
  obtain r2 mem2 where r2: "segment s1 (r1, mem) ?u (r2, mem2)" "holds D slot \<sigma>' mem2"
    using branches_executed [OF blk1 branches_entered_sel(1,2) branches_entered_facts(3) [OF y1 order_refl] t1 _ _ _ t3 _ _ new(2) m(1) r1(2)]
      z(2) new(1) by (auto simp: L split: if_splits)
  obtain is0 is1 where "emitted (ir s1) = emitted (ir s) @ is0" "emitted (ir ?u) = emitted (ir s1) @ is1"
    using produces_emitted [OF straight_produces [OF straight_trans [OF st0 st1]]] produces_emitted [OF t1(1)] produces_emitted [OF t3(1)] by auto
  then have "segment s (regs, mem) ?u (r2, mem2)" by (rule segment_chain [OF to1 r2(1)])
  with r2(2) show "\<exists>regs' mem'. segment s (regs, mem) ?u (regs', mem') \<and> holds D slot \<sigma>' mem'" by blast
qed

lemma conditional_compiled:
  assumes F: "folding_sound (builder Env)"
    and bodies: "\<And>s b hi sts D slot. is_body s k b hi sts \<Longrightarrow> ready f s b hi D slot \<Longrightarrow> stmts_ok D sts \<Longrightarrow> slots_ok D slot (made_so_far s) \<Longrightarrow>
      body_compiled Env f k pass s b hi sts D slot"
    and n: "n < hi" "g_codegen (nodeStore s n) = generateIf" "kids_of s n = c # t # e # cs" "attached s c n" "kids_of s c = ce # cs'"
      "attached s ce c" "is_cond s t k ce b" "attached s t n" "is_body s k t e A" "attached s e n" "is_body s k e hi B"
    and s: "ready f s n hi D slot" and ok: "stmt_ok D (If_Else b A B)" "slots_ok D slot (made_so_far s)"
  shows "stmt_compiled Env f (Suc k) pass s n hi (If_Else b A B) D slot"
proof -
  let ?F = "builder Env"
  have ord: "n < c" "c < t" "t < e" "e < hi" "ce < t"
    using kids_ascend [OF _ n(3)] s is_body_within [OF n(11)] n(7) by (auto simp: ready_def elim: is_cond_cases)
  have rce: "ready f s ce t D slot" using ready_kid [OF ready_kid [OF ready_within [OF s, of t] n(4)] n(6)] ord by simp
  obtain v s0 where v: "generate Env k ce pass s = Inr (Val v, s0)" "gives 1 bit_in s v s0 D slot (\<lambda>\<sigma>. cond_value \<sigma> b)"
    using cond_given [OF F n(7) rce, of pass] ok(1) unfolding generates_def stmt_ok.simps by blast
  note st0 = givesD(1) [OF v(2)]
  have s0: "tidy f s0" using straight_tidy [OF _ st0] s by (simp add: ready_def)
  have cond: "checked_value (generate Env k) ce pass s = Inr (Some v, s0)"
    using checked_value_run [OF v(1) is_cond_generator [OF n(7)]] s0 by (simp add: tidy_def)
  define s1 where "s1 = build_state ?F (Compare ICMP_NE v (Const_Int 1 0)) s0"
  define cv where "cv = build_value ?F (Compare ICMP_NE v (Const_Int 1 0)) s0"
  define L where "L = block_count s1"
  have st1: "straight s0 s1" unfolding s1_def by (rule build_straight)
  have s01: "straight s s1" by (rule straight_trans [OF st0 st1])
  have y1: "tidy f s1" by (rule straight_tidy [OF s0 st1])
  obtain t1 t3 where t1: "generate Env k t pass (branches_entered f cv s1) = Inr (Nullptr, t1)" "produces (branches_entered f cv s1) t1" "tidy f t1"
      "transforms (branches_entered f cv s1) t1 D slot D slot (execs A)" "Suc (Suc L) < block_count t1"
    and t3: "generate Env k e pass (branch_left f (Suc (Suc L)) (Suc L) t1) = Inr (Nullptr, t3)" "produces (branch_left f (Suc (Suc L)) (Suc L) t1) t3"
      "tidy f t3" "transforms (branch_left f (Suc (Suc L)) (Suc L) t1) t3 D slot D slot (execs B)" "produces s t3" "names_within s t3 (Suc t) hi"
    by (rule branches_compiled [OF bodies n(3,8-11) s _ _ ok(2) straight_produces [OF s01] y1 _ L_def, of cv])
      (use ok(1) s01 in \<open>auto simp: straight_def L_def\<close>)
  let ?t2 = "branch_left f (Suc (Suc L)) (Suc L) t1" and ?u = "branch_left f (Suc (Suc L)) (Suc (Suc L)) t3"
  have count: "Suc (Suc L) < block_count t3" "block_count s \<le> L"
    using t1(5) produces_blocks [OF t3(2)] s01 by (simp_all add: straight_def L_def)
  note u = branch_left_facts [OF t3(5,3) _ count(1)]
  have "generate_branches ?F (generate Env k) n pass v s0 = Inr (Nullptr, ?u)"
    by (rule branches_run [OF givesD(2) [OF v(2)] _ s0 _ _ s1_def cv_def L_def t1(1-3) t3(1,3)])
      (use n(3) is_body_generator [OF n(9)] is_body_generator [OF n(11)] in \<open>simp_all add: agree_nodes [OF straight_agree [OF st0]]\<close>)
  then have run: "generate Env (Suc k) n pass s = Inr (Nullptr, ?u)"
    using n(2,3,5) cond is_cond_generator [OF n(7)]
    by (simp add: run_method_def generateIf_run_def gbind_def node_def gets_def gret_def children_def child_def has_generator_def)
  have fresh1: "fresh j t1 \<and> insertBlock (ir t1) \<noteq> Some j" if "j = Suc L \<or> j = Suc (Suc L)" for j
  proof -
    have j: "insertBlock (ir (branches_entered f cv s1)) \<noteq> Some j" "j < block_count (branches_entered f cv s1)" "block_count s1 \<le> j"
      using that by (auto simp: L_def)
    show ?thesis using fresh_produces [OF branches_entered_facts(3) [OF y1 j(3)] t1(2) j(1,2)] produces_insert [OF t1(2) j(1,2)] by blast
  qed
  have fresh2: "fresh (Suc (Suc L)) ?t2" "fresh (Suc L) ?t2" 
    using fresh1 [of "Suc L"] fresh1 [of "Suc (Suc L)"] by (auto simp: fresh_def)
  have freshu: "fresh (Suc (Suc L)) ?u"
    using fresh_produces [OF fresh2(1) t3(2)] produces_insert [OF t3(2), of "Suc (Suc L)"] t1(5) by (simp add: fresh_def)
  have "transforms s ?u D slot D slot (exec (If_Else b A B))"
    by (rule conditional_runs [OF F v(2) s0 s1_def cv_def L_def t1(2-4) t3(2-4) fresh2(2) freshu])
  moreover have "names_within s ?u n hi" "names_of ?u n = []"
    using t3(6) s ord by (auto simp: names_within_def ready_def blank_def)
  moreover from this(2) have "declares ?u n (If_Else b A B) D slot" by (rule blank_declares) simp
  moreover have "slots_ok D slot (made_so_far ?u)" by (rule slots_ok_mono [OF ok(2) produces_made]) (use u(1) count(2) in simp)
  ultimately show ?thesis
    unfolding stmt_compiled_def using run u(1,2) count(2) by (intro exI [of _ Nullptr] exI [of _ ?u] exI [of _ slot]) simp
qed

end
