(* ===== verification/Codegen_Loops.thy ===== *)
theory Codegen_Loops
  imports Codegen_Branches
begin

text \<open>
  The code of \<open>for\<close>: the test in front of every round, the body, and the step.
\<close>

section \<open>Loops\<close>

text \<open>The entry into the loop: the blocks, the variable with its first value, and the jump to the test.\<close>

definition loop_entered :: "fn_handle \<Rightarrow> string \<Rightarrow> llvalue \<Rightarrow> gstate \<Rightarrow> gstate" where
  "loop_entered f x v s = at_block (block_count s) (push (Br (block_count s))
     (push (Store v (Stack_Slot (made_so_far s) (Int_Ty 32))) (push (Entry_Alloca f (Int_Ty 32) x)
       (add_block ''afterloop'' (Some f) (add_block ''loop'' (Some f) (add_block ''loopcond'' (Some f) s))))))"

lemma loop_entered_facts:
  assumes "tidy f s"
  shows "insertBlock (ir (loop_entered f x v s)) = Some (block_count s)" "names_of (loop_entered f x v s) m = names_of s m"
    "blocks (ir (loop_entered f x v s)) = blocks (ir s) @ [\<lparr>bb_name = ''loopcond'', bb_parent = Some f\<rparr>,
      \<lparr>bb_name = ''loop'', bb_parent = Some f\<rparr>, \<lparr>bb_name = ''afterloop'', bb_parent = Some f\<rparr>]"
    "made_so_far s < made_so_far (loop_entered f x v s)" "produces s (loop_entered f x v s)" "tidy f (loop_entered f x v s)"
    "block_count s \<le> b \<Longrightarrow> fresh b (loop_entered f x v s)"
proof -
  show "produces s (loop_entered f x v s)"
    unfolding loop_entered_def by (intro produces_at_block produces_push produces_add_block produces_refl) simp_all
  show "tidy f (loop_entered f x v s)"
    unfolding loop_entered_def by (intro tidy_at_block push_tidy tidy_add_block assms) (simp_all add: nth_append)
  show "block_count s \<le> b \<Longrightarrow> fresh b (loop_entered f x v s)"
    using fresh_new [OF assms, of b] assms unfolding loop_entered_def fresh_def by (auto simp: tidy_def)
qed (simp_all add: loop_entered_def)

lemma loop_entered_run:
  assumes s: "tidy f s" and v: "value_in regs v = Some y"
  shows "segment s (regs, mem) (loop_entered f x v s) (regs, mem(made_so_far s := y))"
proof -
  obtain b where b: "insertBlock (ir s) = Some b" using tidy_insert [OF s] by blast
  let ?a = "add_block ''afterloop'' (Some f) (add_block ''loop'' (Some f) (add_block ''loopcond'' (Some f) s))"
  let ?p = "push (Entry_Alloca f (Int_Ty 32) x) ?a" and ?j = "made_so_far s"
  let ?q = "push (Store v (Stack_Slot ?j (Int_Ty 32))) ?p"
  have "segment ?a (regs, mem) ?p (regs, mem)" by (rule push_segment [where b = b]) (simp_all add: b perform_def)
  moreover have "segment ?p (regs, mem) ?q (regs, mem(?j := y))" by (rule store_segment [where b = b]) (simp_all add: b v)
  ultimately have q: "segment ?a (regs, mem) ?q (regs, mem(?j := y))" by (rule segment_chain) simp_all
  have "fresh (block_count s) (loop_entered f x v s)" using loop_entered_facts(7) [OF s] by simp
  then have "moves (emitted (ir (loop_entered f x v s)) @ E) (standing ?q c) (standing (loop_entered f x v s) c)" for E c
    using branch_moves [of ?q b "block_count s" "loop_entered f x v s" "[]" E c] b by (simp add: loop_entered_def standing_def)
  then have "segment ?q c (loop_entered f x v s) c" for c by (simp add: segment_def)
  then have "segment ?a (regs, mem) (loop_entered f x v s) (regs, mem(?j := y))"
    by (rule segment_chain [OF q]) (simp_all add: loop_entered_def)
  then show ?thesis by (simp add: segment_def standing_def)
qed

text \<open>The test with the variable of the loop, and the end of a round.\<close>

definition loop_tested :: "nat \<Rightarrow> string \<Rightarrow> llvalue \<Rightarrow> llvalue \<Rightarrow> nat \<Rightarrow> gstate \<Rightarrow> gstate" where
  "loop_tested n x slot cv C s = named n x \<lparr>vt_name = x, vt_type = ''int32'', vt_val = slot\<rparr>
     (at_block (Suc C) (push (Cond_Br cv (Suc C) (Suc (Suc C))) s))"

definition loop_closed :: "llvalue \<Rightarrow> llvalue \<Rightarrow> nat \<Rightarrow> gstate \<Rightarrow> gstate" where
  "loop_closed slot nv C s = at_block (Suc (Suc C)) (push (Br C) (push (Store nv slot) s))"

lemma loop_tested_sel [simp]:
  "emitted (ir (loop_tested n x slot cv C s)) = emitted (ir s) @ [(insertBlock (ir s), Cond_Br cv (Suc C) (Suc (Suc C)))]"
  "insertBlock (ir (loop_tested n x slot cv C s)) = Some (Suc C)" "blocks (ir (loop_tested n x slot cv C s)) = blocks (ir s)"
  "names_of (loop_tested n x slot cv C s) m =
     (if m = n then (x, \<lparr>vt_name = x, vt_type = ''int32'', vt_val = slot\<rparr>) # names_of s n else names_of s m)"
  by (simp_all add: loop_tested_def)

lemma loop_closed_sel [simp]:
  "emitted (ir (loop_closed slot nv C s)) = emitted (ir s) @ [(insertBlock (ir s), Store nv slot), (insertBlock (ir s), Br C)]"
  "insertBlock (ir (loop_closed slot nv C s)) = Some (Suc (Suc C))" "names_of (loop_closed slot nv C s) m = names_of s m"
  by (simp_all add: loop_closed_def)

lemma loop_tested_facts:
  assumes "produces s t" and "tidy f t" and "block_count s \<le> C" and "Suc C < block_count t" and "bb_parent (blocks (ir t) ! Suc C) = Some f"
  shows "produces s (loop_tested n x slot cv C t)" "tidy f (loop_tested n x slot cv C t)"
proof -
  show "produces s (loop_tested n x slot cv C t)"
    unfolding loop_tested_def by (intro produces_named produces_at_block produces_push assms(1)) (use assms(3,4) in simp_all)
  show "tidy f (loop_tested n x slot cv C t)"
    unfolding loop_tested_def by (intro tidy_named tidy_at_block push_tidy assms(2)) (use assms(4,5) in simp_all)
qed

lemma loop_closed_facts:
  assumes "produces s t" and "tidy f t" and "block_count s \<le> C" and "Suc (Suc C) < block_count t" and "bb_parent (blocks (ir t) ! Suc (Suc C)) = Some f"
  shows "produces s (loop_closed slot nv C t)" "tidy f (loop_closed slot nv C t)"
proof -
  show "produces s (loop_closed slot nv C t)"
    unfolding loop_closed_def by (intro produces_at_block produces_push assms(1)) (use assms(3,4) in simp_all)
  show "tidy f (loop_closed slot nv C t)"
    unfolding loop_closed_def by (intro tidy_at_block push_tidy assms(2)) (use assms(4,5) in simp_all)
qed

lemma loop_run:
  assumes n: "kids_of s0 n = it # r # b # cs" "kids_of s0 r = lower # upper # cs'" "g_codegen (nodeStore s0 b) \<noteq> No_Codegen"
    and s0: "tidy f s0" and C: "C = block_count s0" and j: "slot = Stack_Slot (made_so_far s0) (Int_Ty 32)"
    and entered: "s1 = loop_entered f x v s0"
    and w: "checked_value (generate Env k) upper pass s1 = Inr (Some w, t1)" "agree s1 t1"
    and t2: "t2 = push (Load (Int_Ty 32) slot) t1" and cur: "cur = Instr (made_so_far t1) (Int_Ty 32)"
    and s2: "s2 = build_state F (Compare ICMP_SLT cur w) t2" and cv: "cv = build_value F (Compare ICMP_SLT cur w) t2"
    and tested: "t3 = loop_tested n x slot cv C s2"
    and t4: "generate Env k b pass t3 = Inr (Nullptr, t4)" "tidy f t4"
    and t5: "t5 = build_state F (Binary Add cur (Const_Int 32 1)) t4" and nv: "nv = build_value F (Binary Add cur (Const_Int 32 1)) t4"
  shows "generate_loop F (generate Env k) n pass x r v s0 =
    Inr (Nullptr, loop_closed slot nv C t5)"
proof -
  let ?a1 = "add_block ''loopcond'' (Some f) s0"
  let ?a2 = "add_block ''loop'' (Some f) ?a1"
  let ?a3 = "add_block ''afterloop'' (Some f) ?a2"
  have s1: "s1 = at_block C (push (Br C) (push (Store v slot) (push (Entry_Alloca f (Int_Ty 32) x) ?a3)))"
    by (simp only: entered loop_entered_def C j)
  have t3: "t3 = named n x \<lparr>vt_name = x, vt_type = ''int32'', vt_val = slot\<rparr> (at_block (Suc C) (push (Cond_Br cv (Suc C) (Suc (Suc C))) s2))"
    by (simp only: tested loop_tested_def)
  have f: "current_function s0 = Inr (Some f, s0)" by (rule current_function_run [OF s0])
  have c1: "create_block ''loopcond'' (Some f) s0 = Inr (C, ?a1)" using create_block_run [of "''loopcond''" "Some f" s0] C by simp
  have c2: "create_block ''loop'' (Some f) ?a1 = Inr (Suc C, ?a2)" using create_block_run [of "''loop''" "Some f" ?a1] C by simp
  have c3: "create_block ''afterloop'' (Some f) ?a2 = Inr (Suc (Suc C), ?a3)" using create_block_run [of "''afterloop''" "Some f" ?a2] C by simp
  have al: "CreateEntryBlockAlloca F (Some f) (Some (Int_Ty 32)) x ?a3 = Inr (slot, push (Entry_Alloca f (Int_Ty 32) x) ?a3)"
    using CreateEntryBlockAlloca_run [of F f "Int_Ty 32" x ?a3] j by simp
  have st: "emits F i u = Inr ((), push i u)" if "i = Br l \<or> i = Cond_Br y l m \<or> i = Store y z" for i l m y z u
    by (rule emits_push) (use that in auto)
  note br = st [OF disjI1 [OF refl]] and cb = st [OF disjI2 [OF disjI1 [OF refl]]] and sto = st [OF disjI2 [OF disjI2 [OF refl]]]
  have ld: "emit F (Load (Int_Ty 32) slot) t1 = Inr (cur, t2)" unfolding t2 cur by (simp add: emit_push)
  have cm: "emit F (Compare ICMP_SLT cur w) t2 = Inr (cv, s2)" unfolding cv s2 by (rule emit_build)
  have ad: "emit F (Binary Add cur (Const_Int 32 1)) t4 = Inr (nv, t5)" unfolding nv t5 by (rule emit_build)
  have nodes1: "agree s0 s1" unfolding s1 using agree_steps push_agree agree_trans by meson
  have "agree t1 s2" unfolding s2 t2 using agree_trans [OF push_agree straight_agree [OF build_straight]] .
  then have nodes3: "agree s0 t3" unfolding t3 using agree_trans [OF nodes1 w(2)] agree_steps push_agree agree_trans by meson
  have k1: "child r 1 s1 = Inr (upper, s1)" using child_run [of s1 r "lower # upper # cs'" 1] n by (simp add: agree_nodes [OF nodes1])
  have k2: "child n 2 t3 = Inr (b, t3)" using child_run [of t3 n "it # r # b # cs" 2] n by (simp add: agree_nodes [OF nodes3])
  have b: "generate_body (generate Env k) b b pass t3 = Inr (Inl (), t4)"
    using generate_body_run [OF t4(1)] n(3) t4(2) by (simp add: agree_nodes [OF nodes3] tidy_def)
  show ?thesis
    unfolding generate_loop_def loop_closed_def
    by (simp only: gbind_def rbind_Inr prod.case f c1 c2 c3 al sto br cb set_insert_point_run s1 [symmetric] k1 w(1) ld follow_def option.case gret_def
        cm set_named_value_run t3 [symmetric] k2 b sum.case ad)
qed

lemma rounds_induct [consumes 1, case_names finished again]:
  assumes "rounds x b body \<sigma> \<sigma>'"
    and "\<And>\<sigma> y. expr_value \<sigma> b = Some y \<Longrightarrow> \<not> sint (\<sigma> x) < sint y \<Longrightarrow> P \<sigma> \<sigma>"
    and "\<And>\<sigma> y \<sigma>1 \<sigma>'. expr_value \<sigma> b = Some y \<Longrightarrow> sint (\<sigma> x) < sint y \<Longrightarrow> execs body \<sigma> \<sigma>1 \<Longrightarrow> P (\<sigma>1(x := \<sigma> x + 1)) \<sigma>' \<Longrightarrow> P \<sigma> \<sigma>'"
  shows "P \<sigma> \<sigma>'"
proof -
  have "rounds x' b' body' \<sigma> \<sigma>' \<Longrightarrow> x' = x \<and> b' = b \<and> body' = body \<longrightarrow> P \<sigma> \<sigma>'" for x' b' body' \<sigma> \<sigma>'
    by (induction rule: exec_execs_rounds.inducts(3) [where ?P1.0 = "\<lambda>_ _ _. True" and ?P2.0 = "\<lambda>_ _ _. True"]) (use assms(2,3) in blast)+
  then show ?thesis using assms(1) by blast
qed

text \<open>The test before a round, and what a round does.\<close>

lemma loop_test:
  assumes F: "folding_sound F" and w: "gives 32 value_in s1 w t1 D slot (\<lambda>\<sigma>. expr_value \<sigma> b)" and t1: "tidy f t1"
    and t2: "t2 = push (Load (Int_Ty 32) (Stack_Slot j (Int_Ty 32))) t1" and cur: "cur = Instr (made_so_far t1) (Int_Ty 32)"
    and s2: "s2 = build_state F (Compare ICMP_SLT cur w) t2" and cv: "cv = build_value F (Compare ICMP_SLT cur w) t2"
    and m: "holds D slot \<sigma> mem" "expr_value \<sigma> b = Some y"
  shows "\<exists>regs'. segment s1 (regs, mem) s2 (regs', mem) \<and> bit_in regs' cv = Some (sint (mem j) < sint y) \<and> regs' (made_so_far t1) = mem j"
proof -
  obtain r1 where r1: "segment s1 (regs, mem) t1 (r1, mem)" "value_in r1 w = Some y" using givesD(3) [OF w m] by blast
  obtain blk where blk: "insertBlock (ir t1) = Some blk" using tidy_insert [OF t1] by blast
  let ?r2 = "r1(made_so_far t1 := mem j)"
  have load: "segment t1 (r1, mem) t2 (?r2, mem)" unfolding t2 by (rule push_segment [OF blk]) (simp_all add: perform_def)
  have "value_in ?r2 w = Some y" using known_regs(1) [OF givesD(2) [OF w], of ?r2 r1] r1(2) by simp
  then have "test ICMP_SLT ?r2 cur w = Some (sint (mem j) < sint y)" by (subst test_words) (simp_all add: cur)
  then obtain r3 where r3: "segment t2 (?r2, mem) s2 (r3, mem)" "bit_in r3 cv = Some (sint (mem j) < sint y)"
    using test_built(2) [OF F, of ICMP_SLT ?r2 cur w _ t2 blk] blk unfolding s2 cv t2 by auto
  have "r3 (made_so_far t1) = mem j" using r3(1) by (simp add: segment_def t2)
  moreover have "segment s1 (regs, mem) s2 (r3, mem)"
    using segment_straight [OF segment_straight [OF r1(1) load givesD(1) [OF w]] r3(1)] straight_push build_straight straight_trans [OF givesD(1) [OF w]]
    unfolding t2 s2 by blast
  ultimately show ?thesis using r3(2) by blast
qed

lemma loop_step:
  assumes F: "folding_sound F" and t4: "tidy f t4" and cur: "cur = Instr i (Int_Ty 32)" "i < made_so_far t4"
    and t5: "t5 = build_state F (Binary Add cur (Const_Int 32 1)) t4" and nv: "nv = build_value F (Binary Add cur (Const_Int 32 1)) t4"
    and t6: "t6 = push (Store nv (Stack_Slot j (Int_Ty 32))) t5"
  shows "\<exists>regs'. segment t4 (regs, mem) t6 (regs', mem(j := regs i + 1))"
proof -
  obtain blk where blk: "insertBlock (ir t4) = Some blk" using tidy_insert [OF t4] by blast
  obtain r where r: "segment t4 (regs, mem) t5 (r, mem)" "value_in r nv = Some (regs i + 1)"
    using operation_built(2) [OF F, of t4 cur "Const_Int 32 1" regs "regs i" 1 Add "regs i + 1" blk mem] cur blk unfolding t5 nv by auto
  have st: "straight t4 t5" unfolding t5 by (rule build_straight)
  have "segment t5 (r, mem) t6 (r, mem(j := regs i + 1))"
    unfolding t6 by (rule store_segment [OF _ r(2)]) (use st blk in \<open>simp add: straight_def\<close>)
  then show ?thesis using segment_straight [OF r(1) _ st] straight_push unfolding t6 by blast
qed

lemma rounds_repeat:
  assumes jump: "insertBlock (ir t) = Some B" "insertBlock (ir s) = Some A" "fresh A s" "emitted (ir t) = emitted (ir s) @ xs"
      "emitted (ir u) = emitted (ir t) @ [(insertBlock (ir t), Br A)]"
    and last: "\<And>\<sigma> y regs mem. H \<sigma> mem \<Longrightarrow> expr_value \<sigma> b = Some y \<Longrightarrow> \<not> sint (\<sigma> x) < sint y \<Longrightarrow> \<exists>regs'. segment s (regs, mem) u (regs', mem)"
    and once: "\<And>\<sigma> y \<sigma>1 regs mem. H \<sigma> mem \<Longrightarrow> expr_value \<sigma> b = Some y \<Longrightarrow> sint (\<sigma> x) < sint y \<Longrightarrow> execs sts \<sigma> \<sigma>1 \<Longrightarrow>
      \<exists>regs' mem'. segment s (regs, mem) t (regs', mem') \<and> H (\<sigma>1(x := \<sigma> x + 1)) mem'"
  shows "rounds x b sts \<sigma> \<sigma>' \<Longrightarrow> \<forall>regs mem. H \<sigma> mem \<longrightarrow> (\<exists>regs' mem'. segment s (regs, mem) u (regs', mem') \<and> H \<sigma>' mem')"
proof (induction rule: rounds_induct)
  case (finished \<sigma> y)
  then show ?case using last by blast
next
  case (again \<sigma> y \<sigma>1 \<sigma>')
  show ?case
  proof (intro allI impI)
    fix regs mem assume "H \<sigma> mem"
    then obtain r1 mem1 where 1: "segment s (regs, mem) t (r1, mem1)" "H (\<sigma>1(x := \<sigma> x + 1)) mem1" using once again(1-3) by blast
    then obtain r2 mem2 where 2: "segment s (r1, mem1) u (r2, mem2)" "H \<sigma>' mem2" using again(4) by blast
    have "segment s (regs, mem) u (r2, mem2)" by (rule segment_back [OF 1(1) 2(1) jump(1-5)])
    with 2(2) show "\<exists>regs' mem'. segment s (regs, mem) u (regs', mem') \<and> H \<sigma>' mem'" by blast
  qed
qed

lemma rounds_run:
  assumes F: "folding_sound F" and s1: "insertBlock (ir s1) = Some C" "fresh C s1"
    and w: "gives 32 value_in s1 w t1 D slot (\<lambda>\<sigma>. expr_value \<sigma> b)" and t1: "tidy f t1"
    and t2: "t2 = push (Load (Int_Ty 32) (Stack_Slot j (Int_Ty 32))) t1" and cur: "cur = Instr (made_so_far t1) (Int_Ty 32)"
    and s2: "s2 = build_state F (Compare ICMP_SLT cur w) t2" and cv: "cv = build_value F (Compare ICMP_SLT cur w) t2"
    and t3: "emitted (ir t3) = emitted (ir s2) @ [(insertBlock (ir s2), Cond_Br cv B A)]" "insertBlock (ir t3) = Some B" "fresh B t3"
    and t4: "produces t3 t4" "tidy f t4" "transforms t3 t4 (D(x := Visible)) (slot(x := j)) (D(x := Visible)) (slot(x := j)) (execs sts)"
    and t5: "t5 = build_state F (Binary Add cur (Const_Int 32 1)) t4" and nv: "nv = build_value F (Binary Add cur (Const_Int 32 1)) t4"
    and t6: "t6 = push (Store nv (Stack_Slot j (Int_Ty 32))) t5"
    and u: "emitted (ir u) = emitted (ir t6) @ [(insertBlock (ir t6), Br C)]" "insertBlock (ir u) = Some A" "fresh A u"
    and x: "D x \<noteq> Visible" "slots_ok (D(x := Visible)) (slot(x := j)) m"
  shows "rounds x b sts \<sigma> \<sigma>' \<Longrightarrow> \<forall>regs mem. holds (D(x := Visible)) (slot(x := j)) \<sigma> mem \<longrightarrow>
    (\<exists>regs' mem'. segment s1 (regs, mem) u (regs', mem') \<and> holds (D(x := Visible)) (slot(x := j)) \<sigma>' mem')"
proof -
  let ?H = "holds (D(x := Visible)) (slot(x := j))"
  note st = straight_trans [OF givesD(1) [OF w] straight_trans [OF straight_push build_straight]]
  obtain blk where blk: "insertBlock (ir s2) = Some blk" using st s1(1) unfolding s2 t2 straight_def by auto
  obtain blk6 where blk6: "insertBlock (ir t6) = Some blk6"
    using build_straight [of t4 F "Binary Add cur (Const_Int 32 1)"] tidy_insert [OF t4(2)] unfolding t6 t5 straight_def by auto
  obtain is1 where is1: "emitted (ir s2) = emitted (ir s1) @ is1"
    using produces_emittedE [OF straight_produces [OF st]] unfolding s2 t2 by blast
  obtain is2 where is2: "emitted (ir t4) = emitted (ir t3) @ is2" using produces_emittedE [OF t4(1)] .
  have "produces t4 t6" unfolding t6 t5 by (intro produces_push straight_produces build_straight)
  then obtain is3 where is3: "emitted (ir t6) = emitted (ir t4) @ is3" using produces_emittedE by blast
  note em = t3(1) u(1) is1 is2 is3
  have known: "made_so_far t1 < made_so_far t3" "made_so_far t1 < made_so_far t4"
    using produces_made [OF t4(1)] t3(1) produces_made [OF straight_produces [OF build_straight [of t2 F "Compare ICMP_SLT cur w"]]]
    unfolding s2 t2 by auto
  have start: "\<exists>regs'. segment s1 (regs, mem) s2 (regs', mem) \<and> bit_in regs' cv = Some (sint (\<sigma> x) < sint y) \<and> regs' (made_so_far t1) = \<sigma> x"
    if "?H \<sigma> mem" "expr_value \<sigma> b = Some y" for \<sigma> y regs mem
  proof -
    have "holds D slot \<sigma> mem" by (rule holds_less [OF that(1)]) (use x(1) in auto)
    moreover have "mem j = \<sigma> x" using that(1) by (auto simp: holds_def dest: spec [of _ x])
    ultimately show ?thesis using loop_test [OF F w t1 t2 cur s2 cv _ that(2), of mem regs] by simp
  qed
  show "rounds x b sts \<sigma> \<sigma>' \<Longrightarrow> \<forall>regs mem. ?H \<sigma> mem \<longrightarrow> (\<exists>regs' mem'. segment s1 (regs, mem) u (regs', mem') \<and> ?H \<sigma>' mem')"
  proof (rule rounds_repeat [where H = ?H, OF blk6 s1 _ u(1)])
    fix \<sigma> y regs mem assume m: "?H \<sigma> mem" "expr_value \<sigma> b = Some y" "\<not> sint (\<sigma> x) < sint y"
    obtain r3 where r3: "segment s1 (regs, mem) s2 (r3, mem)" "bit_in r3 cv = Some False" using start [OF m(1,2), of regs] m(3) by auto
    have "segment s2 (r3, mem) u (r3, mem)"
      using cond_branch_moves [OF blk _ _ u(3), of "(r3, mem)" cv False B A "is2 @ is3 @ [(insertBlock (ir t6), Br C)]"] r3(2) u(2)
      by (simp add: segment_def standing_def em)
    then show "\<exists>regs'. segment s1 (regs, mem) u (regs', mem)"
      using segment_chain [OF r3(1) _ is1] by (metis append.assoc em(1,2,4,5))
  next
    fix \<sigma> y \<sigma>1 regs mem assume m: "?H \<sigma> mem" "expr_value \<sigma> b = Some y" "sint (\<sigma> x) < sint y" "execs sts \<sigma> \<sigma>1"
    obtain r3 where r3: "segment s1 (regs, mem) s2 (r3, mem)" "bit_in r3 cv = Some True" "r3 (made_so_far t1) = \<sigma> x"
      using start [OF m(1,2), of regs] m(3) by auto
    have into: "segment s2 (r3, mem) t3 (r3, mem)"
      using cond_branch_moves [OF blk _ _ t3(3), of "(r3, mem)" cv True B A "[]"] r3(2) t3(2) by (simp add: segment_def standing_def t3(1))
    obtain r4 mem4 where r4: "segment t3 (r3, mem) t4 (r4, mem4)" "?H \<sigma>1 mem4" using transformsD [OF t4(3) m(1,4)] by blast
    have "r4 (made_so_far t1) = \<sigma> x" using r4(1) known(1) r3(3) by (simp add: segment_def)
    then obtain r5 where r5: "segment t4 (r4, mem4) t6 (r5, mem4(j := \<sigma> x + 1))"
      using loop_step [OF F t4(2) cur known(2) t5 nv t6, of r4 mem4] by auto
    have "segment s1 (regs, mem) t3 (r3, mem)" by (rule segment_chain [OF r3(1) into is1 t3(1)])
    then have "segment s1 (regs, mem) t4 (r4, mem4)" by (rule segment_chain [OF _ r4(1) _ is2]) (simp add: em)
    then have "segment s1 (regs, mem) t6 (r5, mem4(j := \<sigma> x + 1))" by (rule segment_chain [OF _ r5 _ is3]) (simp add: em)
    moreover have "?H (\<sigma>1(x := \<sigma> x + 1)) (mem4(j := \<sigma> x + 1))" using holds_assign [OF r4(2) x(2), of x "\<sigma> x + 1"] by simp
    ultimately show "\<exists>regs' mem'. segment s1 (regs, mem) t6 (regs', mem') \<and> ?H (\<sigma>1(x := \<sigma> x + 1)) mem'" by blast
  qed (simp_all add: em)
qed

text \<open>The body sees the variable of the loop.\<close>

lemma loop_body_ready:
  assumes s: "ready f s n hi D slot" and n: "kids_of s n = it # r # b # cs" "attached s b n" "b < hi"
    and t: "agree s t" "tidy f t" "\<And>m. names_of t m = (if m = n then [(x, v)] else names_of s m)" "vt_val v = Stack_Slot j (Int_Ty 32)"
  shows "ready f t b hi (D(x := Visible)) (slot(x := j))"
proof -
  obtain q where q: "ordered s" "attached s n q" "blank s n hi" "sees s n D slot" using s by (auto simp: ready_def)
  have ord: "n < it" "it < r" "r < b" using kids_ascend [OF q(1) n(1)] by auto
  have kid: "ordered t" "attached t b n" "attached t n q" "kids_of t n = it # r # b # cs"
    using agree_ordered [OF t(1) q(1)] n q(2) by (simp_all add: agree_nodes [OF t(1)])
  have "names_of t it = []" "names_of t r = []" using q(3) ord n(3) t(3) by (simp_all add: blank_def)
  then have front: "in_front t n b = [(x, v)]" using ord t(3) by (simp add: in_front_def kid(4))
  have "sees t n D slot" by (rule sees_cong [OF q(1) t(1) _ q(2,4)]) (use t(3) in simp)
  then have "sees t b (D(x := Visible)) (slot(x := j))" by (rule sees_bound [OF kid(1-3) front t(4)])
  moreover have "blank t b hi" using q(3) ord t(3) by (simp add: blank_def)
  ultimately show ?thesis using kid t(2) by (blast intro: readyI)
qed

lemma loop_compiled:
  assumes F: "folding_sound (builder Env)"
    and bodies: "\<And>s b hi sts D slot. is_body s k b hi sts \<Longrightarrow> ready f s b hi D slot \<Longrightarrow> stmts_ok D sts \<Longrightarrow> slots_ok D slot (made_so_far s) \<Longrightarrow>
      body_compiled Env f k pass s b hi sts D slot"
    and n: "kids_of s n = it # r # body # cs" "attached s r n" "attached s upper r" "is_expr s body k upper b" "attached s body n"
      "is_body s k body hi sts"
    and s: "ready f s n hi D slot" and ok: "D x \<noteq> Visible" "expr_ok D b" "stmts_ok (D(x := Visible)) sts" "slots_ok D slot (made_so_far s)"
    and s0: "straight s s0" "tidy f s0" and C: "C = block_count s0" and j: "j = made_so_far s0" and s1: "s1 = loop_entered f x v s0"
  obtains w t1 t2 cur s2 cv t3 t4 where
    "checked_value (generate Env k) upper pass s1 = Inr (Some w, t1)" "gives 32 value_in s1 w t1 D slot (\<lambda>\<sigma>. expr_value \<sigma> b)" "tidy f t1"
    "t2 = push (Load (Int_Ty 32) (Stack_Slot j (Int_Ty 32))) t1" "cur = Instr (made_so_far t1) (Int_Ty 32)"
    "s2 = build_state (builder Env) (Compare ICMP_SLT cur w) t2" "cv = build_value (builder Env) (Compare ICMP_SLT cur w) t2"
    "t3 = loop_tested n x (Stack_Slot j (Int_Ty 32)) cv C s2" "straight s1 s2" "produces s t3" "slots_ok (D(x := Visible)) (slot(x := j)) (made_so_far t3)"
    "generate Env k body pass t3 = Inr (Nullptr, t4)" "produces t3 t4" "tidy f t4"
    "transforms t3 t4 (D(x := Visible)) (slot(x := j)) (D(x := Visible)) (slot(x := j)) (execs sts)"
    "names_of t4 n = [(x, \<lparr>vt_name = x, vt_type = ''int32'', vt_val = Stack_Slot j (Int_Ty 32)\<rparr>)]" "names_within s t4 n hi"
proof -
  note e1 = loop_entered_facts [OF s0(2), where x = x and v = v, folded s1 C j]
  have ord: "n < r" "r < body" "body < hi" "n < hi"
    using kids_ascend [OF _ n(1)] s is_body_within [OF n(6)] by (auto simp: ready_def)
  have p1: "produces s s1" by (rule produces_trans [OF straight_produces [OF s0(1)] e1(5)])
  have names1: "names_of s1 m = names_of s m" for m using s0(1) e1(2) by (simp add: straight_def)
  have "ready f s r body D slot" using ready_kid [OF ready_within [OF s, of body] n(2)] ord by simp
  then have ru: "ready f s1 upper body D slot"
    using ready_same [OF ready_kid [OF _ n(3)] produces_agree [OF p1] names1 e1(6)] is_expr_within [OF n(4)] by simp
  obtain w t1 where w: "checked_value (generate Env k) upper pass s1 = Inr (Some w, t1)"
      "gives 32 value_in s1 w t1 D slot (\<lambda>\<sigma>. expr_value \<sigma> b)" "tidy f t1"
    using generated_value [OF F is_expr_agree [OF produces_agree [OF p1] n(4)] ru ok(2), of pass] by blast
  define t2 where "t2 = push (Load (Int_Ty 32) (Stack_Slot j (Int_Ty 32))) t1"
  define cur where "cur = Instr (made_so_far t1) (Int_Ty 32)"
  define s2 where "s2 = build_state (builder Env) (Compare ICMP_SLT cur w) t2"
  define cv where "cv = build_value (builder Env) (Compare ICMP_SLT cur w) t2"
  define t3 where "t3 = loop_tested n x (Stack_Slot j (Int_Ty 32)) cv C s2"
  have st2: "straight s1 s2"
    unfolding s2_def t2_def by (rule straight_trans [OF givesD(1) [OF w(2)] straight_trans [OF straight_push build_straight]])
  have blocks2: "blocks (ir s2) = blocks (ir s1)" "block_count s = C" using st2 s0(1) by (simp_all add: straight_def C)
  have t3: "produces s t3" "tidy f t3"
    unfolding t3_def using loop_tested_facts [OF produces_trans [OF p1 straight_produces [OF st2]] straight_tidy [OF e1(6) st2], of C] blocks2
    by (simp_all add: e1(3) C nth_append)
  have names3: "names_of t3 m = (if m = n then [(x, \<lparr>vt_name = x, vt_type = ''int32'', vt_val = Stack_Slot j (Int_Ty 32)\<rparr>)] else names_of s m)" for m
    using st2 names1 s ord(4) by (simp add: t3_def straight_def ready_def blank_def)
  have made: "made_so_far s \<le> j" "j < made_so_far t3"
    using produces_made [OF straight_produces [OF s0(1)]] e1(4) produces_made [OF straight_produces [OF st2]] by (simp_all add: j t3_def)
  have slots: "slots_ok (D(x := Visible)) (slot(x := j)) (made_so_far t3)" by (rule slots_ok_new [OF ok(4,1) made])
  have r3: "ready f t3 body hi (D(x := Visible)) (slot(x := j))"
    by (rule loop_body_ready [OF s n(1,5) ord(3) produces_agree [OF t3(1)] t3(2) names3]) simp
  obtain t4 where t4: "generate Env k body pass t3 = Inr (Nullptr, t4)" "produces t3 t4" "tidy f t4" "names_within t3 t4 (Suc body) hi"
      "transforms t3 t4 (D(x := Visible)) (slot(x := j)) (D(x := Visible)) (slot(x := j)) (execs sts)"
    using bodies [OF is_stmt_agree(2) [OF produces_agree [OF t3(1)] n(6)] r3 ok(3) slots] by (auto simp: body_compiled_def)
  have names4: "names_of t4 m = names_of t3 m" if "m \<le> body \<or> hi \<le> m" for m using t4(4) that by (auto simp: names_within_def)
  show thesis
    by (rule that [OF w t2_def cur_def s2_def cv_def t3_def st2 t3(1) slots t4(1-3,5)])
      (use names4 names3 ord in \<open>auto simp: names_within_def\<close>)
qed

text \<open>The blocks of a loop are still empty where the code enters them.\<close>

lemma loop_blocks_fresh:
  assumes s1: "fresh a s1" "insertBlock (ir s1) = Some C" "a \<noteq> C" "a < block_count s1" "straight s1 s2" and t3: "t3 = loop_tested n x l cv C s2"
  shows "fresh a t3" and "a \<noteq> Suc C \<Longrightarrow> produces t3 t4 \<Longrightarrow> straight t4 t5 \<Longrightarrow> fresh a (loop_closed l' nv C' t5)"
proof -
  have "fresh a s2" by (rule fresh_produces [OF s1(1) straight_produces [OF s1(5)]]) (use s1 in simp_all)
  then show 3: "fresh a t3" using s1(2,3,5) by (auto simp: t3 fresh_def straight_def)
  assume p: "a \<noteq> Suc C" "produces t3 t4" "straight t4 t5"
  have t: "insertBlock (ir t3) \<noteq> Some a" "a < block_count t3" using p(1) s1(4,5) by (auto simp: t3 straight_def)
  have "fresh a t4" by (rule fresh_produces [OF 3 p(2) t])
  moreover have "insertBlock (ir t4) \<noteq> Some a" by (rule produces_insert [OF p(2) t])
  moreover have "a < block_count t4" using t(2) produces_blocks [OF p(2)] by simp
  ultimately have "fresh a t5" "insertBlock (ir t5) \<noteq> Some a"
    using fresh_produces [OF _ straight_produces [OF p(3)]] produces_insert [OF straight_produces [OF p(3)]] by auto
  then show "fresh a (loop_closed l' nv C' t5)" by (auto simp: fresh_def)
qed

lemma iteration_runs:
  assumes F: "folding_sound F" and v: "gives 32 value_in s v s0 D slot (\<lambda>\<sigma>. expr_value \<sigma> a)" "tidy f s0"
    and C: "C = block_count s0" and j: "j = made_so_far s0" and s1: "s1 = loop_entered f x v s0"
    and w: "gives 32 value_in s1 w t1 D slot (\<lambda>\<sigma>. expr_value \<sigma> b)" "tidy f t1"
    and t2: "t2 = push (Load (Int_Ty 32) (Stack_Slot j (Int_Ty 32))) t1" and cur: "cur = Instr (made_so_far t1) (Int_Ty 32)"
    and s2: "s2 = build_state F (Compare ICMP_SLT cur w) t2" and cv: "cv = build_value F (Compare ICMP_SLT cur w) t2"
    and t3: "t3 = loop_tested n x (Stack_Slot j (Int_Ty 32)) cv C s2" "slots_ok (D(x := Visible)) (slot(x := j)) m3"
    and t4: "produces t3 t4" "tidy f t4" "transforms t3 t4 (D(x := Visible)) (slot(x := j)) (D(x := Visible)) (slot(x := j)) (execs sts)"
    and t5: "t5 = build_state F (Binary Add cur (Const_Int 32 1)) t4" and nv: "nv = build_value F (Binary Add cur (Const_Int 32 1)) t4"
    and u: "u = loop_closed (Stack_Slot j (Int_Ty 32)) nv C t5" and new: "fresh C s1" "fresh (Suc C) t3" "fresh (Suc (Suc C)) u"
    and x: "D x \<noteq> Visible" "slots_ok D slot (made_so_far s)"
  shows "transforms s u D slot (D(x := Unknown)) slot (exec (For_Range x a b sts))"
  unfolding transforms_def
proof (intro allI impI)
  fix \<sigma> \<sigma>' regs mem assume m: "holds D slot \<sigma> mem" "exec (For_Range x a b sts) \<sigma> \<sigma>'"
  note st0 = givesD(1) [OF v(1)] and e1 = loop_entered_facts [OF v(2), where x = x and v = v, folded s1 C j]
  have st2: "straight s1 s2" unfolding s2 t2 by (rule straight_trans [OF givesD(1) [OF w(1)] straight_trans [OF straight_push build_straight]])
  obtain y where y: "expr_value \<sigma> a = Some y" "rounds x b sts (\<sigma>(x := y)) \<sigma>'" using m(2) by (auto elim: exec_cases)
  obtain r0 where r0: "segment s (regs, mem) s0 (r0, mem)" "value_in r0 v = Some y" using givesD(3) [OF v(1) m(1) y(1)] by blast
  have "segment s0 (r0, mem) s1 (r0, mem(j := y))" unfolding s1 j by (rule loop_entered_run [OF v(2) r0(2)])
  then have 1: "segment s (regs, mem) s1 (r0, mem(j := y))" using segment_trans [OF r0(1) _ straight_produces [OF st0] e1(5)] by blast
  have "made_so_far s \<le> j" using produces_made [OF straight_produces [OF st0]] by (simp add: j)
  then have "holds (D(x := Visible)) (slot(x := j)) (\<sigma>(x := y)) (mem(j := y))" by (rule holds_new [OF m(1) x(2,1)])
  moreover have "\<forall>regs mem. holds (D(x := Visible)) (slot(x := j)) (\<sigma>(x := y)) mem \<longrightarrow>
      (\<exists>regs' mem'. segment s1 (regs, mem) u (regs', mem') \<and> holds (D(x := Visible)) (slot(x := j)) \<sigma>' mem')"
    by (rule rounds_run [OF F e1(1) new(1) w t2 cur s2 cv _ _ new(2) t4 t5 nv refl _ _ new(3) x(1) t3(2) y(2)])
      (simp_all add: t3(1) u)
  ultimately obtain r1 mem1 where r1: "segment s1 (r0, mem(j := y)) u (r1, mem1)" "holds (D(x := Visible)) (slot(x := j)) \<sigma>' mem1"
    by blast
  obtain is0 xs where em: "emitted (ir s1) = emitted (ir s) @ is0" "emitted (ir u) = emitted (ir s1) @ xs"
    using produces_emitted [OF produces_trans [OF straight_produces [OF st0] e1(5)]] produces_emitted [OF straight_produces [OF st2]]
      produces_emitted [OF t4(1)] produces_emitted [OF straight_produces [OF build_straight [of t4 F "Binary Add cur (Const_Int 32 1)"]]]
    by (auto simp: t3(1) u t5)
  have "holds (D(x := Unknown)) slot \<sigma>' mem1" by (rule holds_less [OF r1(2)]) (auto split: if_splits)
  then show "\<exists>regs' mem'. segment s (regs, mem) u (regs', mem') \<and> holds (D(x := Unknown)) slot \<sigma>' mem'"
    using segment_chain [OF 1 r1(1) em] by blast
qed

lemma iteration_compiled:
  assumes F: "folding_sound (builder Env)"
    and bodies: "\<And>s b hi sts D slot. is_body s k b hi sts \<Longrightarrow> ready f s b hi D slot \<Longrightarrow> stmts_ok D sts \<Longrightarrow> slots_ok D slot (made_so_far s) \<Longrightarrow>
      body_compiled Env f k pass s b hi sts D slot"
    and n: "n < hi" "g_codegen (nodeStore s n) = generateFor" "kids_of s n = it # r # body # cs" "g_type (nodeStore s it) = Iterator"
      "kids_of s it = i # is" "attached s r n" "kids_of s r = lower # upper # cs'" "attached s lower r"
      "attached s upper r" "is_expr s body k lower a" "is_expr s body k upper b" "attached s body n"
      "is_body s k body hi sts"
    and s: "ready f s n hi D slot" and ok: "stmt_ok D (For_Range (node_text s i) a b sts)" "slots_ok D slot (made_so_far s)"
  shows "stmt_compiled Env f (Suc k) pass s n hi (For_Range (node_text s i) a b sts) D slot"
proof -
  let ?F = "builder Env" and ?x = "node_text s i"
  have okD: "D ?x \<noteq> Visible" "expr_ok D a" "expr_ok D b" "stmts_ok (D(?x := Visible)) sts" using ok(1) by auto
  have ord: "n < r" "r < body" using kids_ascend [OF _ n(3)] s by (auto simp: ready_def)
  have "ready f s r body D slot" using ready_kid [OF ready_within [OF s, of body] n(6)] ord is_body_within [OF n(13)] by simp
  then have rl: "ready f s lower body D slot" using ready_kid [OF _ n(8)] is_expr_within [OF n(10)] by simp
  obtain v s0 where v: "checked_value (generate Env k) lower pass s = Inr (Some v, s0)" "gives 32 value_in s v s0 D slot (\<lambda>\<sigma>. expr_value \<sigma> a)"
      "tidy f s0"
    using generated_value [OF F n(10) rl okD(2), of pass] by blast
  note st0 = givesD(1) [OF v(2)]
  define C where "C = block_count s0"
  define j where "j = made_so_far s0"
  define l where "l = Stack_Slot j (Int_Ty 32)"
  define s1 where "s1 = loop_entered f ?x v s0"
  note e1 = loop_entered_facts [OF v(3), where x = ?x and v = v, folded s1_def C_def j_def]
  obtain w t1 t2 cur s2 cv t3 t4 where w: "checked_value (generate Env k) upper pass s1 = Inr (Some w, t1)"
      "gives 32 value_in s1 w t1 D slot (\<lambda>\<sigma>. expr_value \<sigma> b)" "tidy f t1"
    and t2: "t2 = push (Load (Int_Ty 32) (Stack_Slot j (Int_Ty 32))) t1" and cur: "cur = Instr (made_so_far t1) (Int_Ty 32)"
    and s2: "s2 = build_state ?F (Compare ICMP_SLT cur w) t2" and cv: "cv = build_value ?F (Compare ICMP_SLT cur w) t2"
    and t3: "t3 = loop_tested n ?x (Stack_Slot j (Int_Ty 32)) cv C s2" "straight s1 s2" "produces s t3"
      "slots_ok (D(?x := Visible)) (slot(?x := j)) (made_so_far t3)"
    and t4: "generate Env k body pass t3 = Inr (Nullptr, t4)" "produces t3 t4" "tidy f t4"
      "transforms t3 t4 (D(?x := Visible)) (slot(?x := j)) (D(?x := Visible)) (slot(?x := j)) (execs sts)"
    and names: "names_of t4 n = [(?x, \<lparr>vt_name = ?x, vt_type = ''int32'', vt_val = Stack_Slot j (Int_Ty 32)\<rparr>)]" "names_within s t4 n hi"
    by (rule loop_compiled [OF F bodies n(3,6,9,11-13) s okD(1,3,4) ok(2) st0 v(3) C_def j_def s1_def])
  define t5 where "t5 = build_state ?F (Binary Add cur (Const_Int 32 1)) t4"
  define nv where "nv = build_value ?F (Binary Add cur (Const_Int 32 1)) t4"
  define u where "u = loop_closed (Stack_Slot j (Int_Ty 32)) nv C t5"
  have st5: "straight t4 t5" unfolding t5_def by (rule build_straight)
  obtain bs where "blocks (ir t4) = blocks (ir t3) @ bs" using t4(2) by (auto simp: produces_def)
  then have blocks5: "blocks (ir t5) = blocks (ir s1) @ bs" using st5 t3(2) by (simp add: straight_def t3(1))
  have u: "produces s u" "tidy f u"
    unfolding u_def using loop_closed_facts [OF produces_trans [OF t3(3) produces_trans [OF t4(2) straight_produces [OF st5]]]
        straight_tidy [OF t4(3) st5], of C] st0
    by (simp_all add: blocks5 e1(3) C_def nth_append straight_def)
  have "generate_loop ?F (generate Env k) n pass ?x r v s0 = Inr (Nullptr, u)"
    unfolding u_def
    by (rule loop_run [OF _ _ _ v(3) C_def _ s1_def w(1) straight_agree [OF givesD(1) [OF w(2)]] t2 cur s2 cv t3(1) t4(1,3) t5_def nv_def])
      (use n(3,7) is_body_generator [OF n(13)] in \<open>simp_all add: agree_nodes [OF straight_agree [OF st0]] j_def\<close>)
  then have run: "generate Env (Suc k) n pass s = Inr (Nullptr, u)"
    using n(2-5,7) v(1) is_expr_generator [OF n(10)]
    by (simp add: run_method_def generateFor_run_def gbind_def node_def gets_def gret_def children_def child_def has_generator_def first_of_def)
  have count: "Suc C < block_count s1" "Suc (Suc C) < block_count s1" by (simp_all add: e1(3) C_def)
  have fresh: "fresh C s1" "fresh (Suc C) t3" "fresh (Suc (Suc C)) u"
    using e1(7) [of C] loop_blocks_fresh(1) [OF e1(7) e1(1) _ count(1) t3(2,1)]
      loop_blocks_fresh(2) [OF e1(7) e1(1) _ count(2) t3(2,1) _ t4(2) st5] by (simp_all add: C_def u_def)
  have "transforms s u D slot (D(?x := Unknown)) slot (exec (For_Range ?x a b sts))"
    by (rule iteration_runs [OF F v(2,3) C_def j_def s1_def w(2,3) t2 cur s2 cv t3(1,4) t4(2-4) t5_def nv_def u_def fresh okD(1) ok(2)])
  moreover have names_u: "names_of u m = names_of t4 m" for m using st5 by (simp add: u_def straight_def)
  then have "names_within s u n hi" "declares u n (For_Range ?x a b sts) D slot" using names by (simp_all add: names_within_def declares_def)
  moreover have "slots_ok (D(?x := Unknown)) slot (made_so_far u)"
    by (rule slots_ok_hide [OF slots_ok_mono [OF ok(2) produces_made [OF u(1)]]])
  ultimately show ?thesis
    unfolding stmt_compiled_def using run u by (intro exI [of _ Nullptr] exI [of _ u] exI [of _ slot]) simp
qed

end
