(* ===== verification/Codegen_Reading.thy ===== *)
theory Codegen_Reading
  imports Codegen_Control
begin

text \<open>
  The program that a part of the tree stands for, computed: what is read from the nodes is what the relations of
  \<open>Codegen_Values\<close> and \<open>Codegen_Control\<close> say.
\<close>

definition below :: "gstate \<Rightarrow> nat \<Rightarrow> nat \<Rightarrow> bool" where
  "below s p c \<longleftrightarrow> parent_of s c = Some p \<and> c \<in> set (kids_of s p)"

abbreviation redefined :: "gstate \<Rightarrow> nat \<Rightarrow> bool" where
  "redefined s n \<equiv> getFunctionFromID_name (functionIDs s) (overload_name s n) \<noteq> Not_Found"

fun read_expr :: "gstate \<Rightarrow> nat \<Rightarrow> nat \<Rightarrow> nat \<Rightarrow> expr option" where
  "read_expr s hi 0 n = None"
| "read_expr s hi (Suc k) n =
     (if hi \<le> n then None
      else let nd = nodeStore s n; g = g_codegen nd
        in if g = generateConstant \<and> g_type nd = Integer_Node
           then (case stoi (node_text s n) of Inr i \<Rightarrow> Some (Lit i) | Inl e \<Rightarrow> None)
           else if g = generateVariableExpression \<and> \<not> g_isRef nd \<and> \<not> g_lvalue nd then Some (Var (node_text s n))
           else if g = generateExpression
           then (case g_children nd of c # cs \<Rightarrow> if below s n c then read_expr s hi k c else None | [] \<Rightarrow> None)
           else if g = generateBinaryExpression \<and> map_of integerOps (g_type nd) \<noteq> None \<and> \<not> redefined s n
           then (case g_children nd of
                   l # r # cs \<Rightarrow> if below s n l \<and> below s n r
                     then Option.bind (read_expr s hi k l) (\<lambda>x. map_option (Op (g_type nd) x) (read_expr s hi k r)) else None
                 | _ \<Rightarrow> None)
           else None)"

fun read_cond :: "gstate \<Rightarrow> nat \<Rightarrow> nat \<Rightarrow> nat \<Rightarrow> cond option" where
  "read_cond s hi 0 n = None"
| "read_cond s hi (Suc k) n =
     (let nd = nodeStore s n
      in if n < hi \<and> g_codegen nd = generateBinaryExpression \<and> map_of intCompareOps (g_type nd) \<noteq> None \<and> \<not> redefined s n
         then (case g_children nd of
                 l # r # cs \<Rightarrow> if below s n l \<and> below s n r
                   then Option.bind (read_expr s hi k l) (\<lambda>x. map_option (Test (g_type nd) x) (read_expr s hi k r)) else None
               | _ \<Rightarrow> None)
         else None)"

fun read_stmt :: "gstate \<Rightarrow> nat \<Rightarrow> nat \<Rightarrow> nat \<Rightarrow> stmt option"
  and read_body :: "gstate \<Rightarrow> nat \<Rightarrow> nat \<Rightarrow> nat \<Rightarrow> stmt list option"
  and read_row :: "gstate \<Rightarrow> nat \<Rightarrow> nat \<Rightarrow> nat \<Rightarrow> nat list \<Rightarrow> nat \<Rightarrow> stmt list option" where
  "read_stmt s 0 n hi = None"
| "read_stmt s (Suc k) n hi =
     (if hi \<le> n then None
      else let nd = nodeStore s n; g = g_codegen nd
        in if g = generateExpressionStatement
           then (case g_children nd of
                   l # r # cs \<Rightarrow>
                     if g_type (nodeStore s l) = Identifier_Node \<and> below s n r
                     then (case kids_of s l of
                             [] \<Rightarrow> map_option (Assign (node_text s l)) (read_expr s hi k r)
                           | t # ts \<Rightarrow>
                               if \<not> g_lvalue (nodeStore s l) \<and> node_text s t \<in> {''int'', ''int32''} \<and> map_of (typeSigns s) (node_text s t) \<noteq> None
                               then map_option (Declare (node_text s l)) (read_expr s hi k r) else None)
                     else None
                 | _ \<Rightarrow> None)
           else if g = generateIf
           then (case g_children nd of
                   c # t # e # cs \<Rightarrow>
                     (case kids_of s c of
                        ce # cs' \<Rightarrow>
                          if below s n c \<and> below s c ce \<and> below s n t \<and> below s n e
                          then Option.bind (read_cond s t k ce) (\<lambda>b. Option.bind (read_body s k t e) (\<lambda>A.
                            map_option (If_Else b A) (read_body s k e hi))) else None
                      | [] \<Rightarrow> None)
                 | _ \<Rightarrow> None)
           else if g = generateFor
           then (case g_children nd of
                   it # r # body # cs \<Rightarrow>
                     (case (kids_of s it, kids_of s r) of
                        (i # is, lower # upper # cs') \<Rightarrow>
                          if g_type (nodeStore s it) = Iterator \<and> below s n r \<and> below s r lower \<and> below s r upper \<and> below s n body
                          then Option.bind (read_expr s body k lower) (\<lambda>a. Option.bind (read_expr s body k upper) (\<lambda>b.
                            map_option (For_Range (node_text s i) a b) (read_body s k body hi))) else None
                      | _ \<Rightarrow> None)
                 | _ \<Rightarrow> None)
           else if g = generateScopeBody then map_option Block (read_row s k n (Suc n) (g_children nd) hi)
           else None)"
| "read_body s 0 n hi = None"
| "read_body s (Suc k) n hi =
     (if n < hi \<and> g_codegen (nodeStore s n) = generateScopeBody then read_row s k n (Suc n) (kids_of s n) hi else None)"
| "read_row s k p lo [] hi = Some []"
| "read_row s k p lo (n # ns) hi =
     (let h = (case ns of [] \<Rightarrow> hi | m # ms \<Rightarrow> m)
      in if lo \<le> n \<and> h \<le> hi \<and> below s p n
         then Option.bind (read_stmt s k n h) (\<lambda>st. map_option ((#) st) (read_row s k p h ns hi)) else None)"

lemma read_expr_sound:
  assumes all: "\<And>n p. parent_of s n = Some p \<Longrightarrow> attached s n p"
  shows "read_expr s hi k n = Some e \<Longrightarrow> is_expr s hi k n e"
proof (induction k arbitrary: n e)
  case (Suc k)
  show ?case
    using Suc.prems Suc.IH all
    by (auto simp: Let_def below_def bind_eq_Some_conv split: if_splits sum.splits list.splits intro: is_expr.intros)
qed simp

lemma read_cond_sound:
  assumes all: "\<And>n p. parent_of s n = Some p \<Longrightarrow> attached s n p"
  shows "read_cond s hi k n = Some e \<Longrightarrow> is_cond s hi k n e"
  using read_expr_sound [OF all] all
  by (cases k) (auto simp: Let_def below_def bind_eq_Some_conv split: if_splits list.splits intro!: is_cond.intros)

lemma read_row_sound:
  assumes all: "\<And>n p. parent_of s n = Some p \<Longrightarrow> attached s n p"
    and stmts: "\<And>n hi st. read_stmt s k n hi = Some st \<Longrightarrow> is_stmt s k n hi st"
  shows "read_row s k p lo ns hi = Some sts \<Longrightarrow> in_row s k p lo ns hi sts"
proof (induction ns arbitrary: lo sts)
  case (Cons n ns)
  define h where "h = (case ns of [] \<Rightarrow> hi | m # ms \<Rightarrow> m)"
  obtain st sts' where st: "lo \<le> n" "h \<le> hi" "below s p n" "read_stmt s k n h = Some st" "read_row s k p h ns hi = Some sts'" "sts = st # sts'"
    using Cons.prems unfolding h_def by (auto simp: Let_def bind_eq_Some_conv split: if_splits)
  show ?case
    unfolding st(6) by (rule is_stmt_is_body_in_row.row_next [OF st(1) _ stmts [OF st(4)] st(2) Cons.IH [OF st(5)]])
      (use st(3) all in \<open>simp add: below_def\<close>)
qed (auto intro: is_stmt_is_body_in_row.intros)

lemma read_sound:
  assumes all: "\<And>n p. parent_of s n = Some p \<Longrightarrow> attached s n p"
  shows "(read_stmt s k n hi = Some st \<longrightarrow> is_stmt s k n hi st) \<and> (read_body s k n hi = Some sts \<longrightarrow> is_body s k n hi sts)"
proof (induction k arbitrary: n hi st sts)
  case (Suc k)
  have body: "is_body s k n hi sts" if "read_body s k n hi = Some sts" for n hi sts using Suc.IH that by blast
  have row: "in_row s k p lo ns hi sts" if "read_row s k p lo ns hi = Some sts" for p lo ns hi sts
    using read_row_sound [OF all _ that] Suc.IH by blast
  have at: "attached s c m" if "below s m c" for c m using that all by (simp add: below_def)
  let ?nd = "nodeStore s n"
  show ?case
  proof (intro conjI impI)
    assume st: "read_stmt s (Suc k) n hi = Some st"
    then have n: "n < hi" by (simp split: if_splits)
    consider "g_codegen ?nd = generateExpressionStatement" | "g_codegen ?nd = generateIf" | "g_codegen ?nd = generateFor"
      | "g_codegen ?nd = generateScopeBody"
      using st by (auto simp: Let_def split: if_splits)
    then show "is_stmt s (Suc k) n hi st"
    proof cases
      case 1
      show ?thesis
        using st n 1
        by (auto simp: Let_def split: list.splits if_splits
            intro!: is_stmt_is_body_in_row.assignment is_stmt_is_body_in_row.declaring intro: read_expr_sound [OF all] at)
    next
      case 2
      obtain c t e cs ce cs' b A B where f: "kids_of s n = c # t # e # cs" "kids_of s c = ce # cs'"
          "below s n c" "below s c ce" "below s n t" "below s n e" "read_cond s t k ce = Some b" "read_body s k t e = Some A"
          "read_body s k e hi = Some B" "st = If_Else b A B"
        using st n 2 by (auto simp: Let_def bind_eq_Some_conv split: list.splits if_splits)
      show ?thesis
        unfolding f(10)
        by (rule is_stmt_is_body_in_row.conditional [OF n 2 f(1) at [OF f(3)] f(2) at [OF f(4)] read_cond_sound [OF all f(7)]
            at [OF f(5)] body [OF f(8)] at [OF f(6)] body [OF f(9)]])
    next
      case 3
      obtain it r m cs i "is" lower upper cs' a b A where f: "kids_of s n = it # r # m # cs" "kids_of s it = i # is"
          "kids_of s r = lower # upper # cs'" "g_type (nodeStore s it) = Iterator" "below s n r" "below s r lower" "below s r upper"
          "below s n m" "read_expr s m k lower = Some a" "read_expr s m k upper = Some b" "read_body s k m hi = Some A"
          "st = For_Range (node_text s i) a b A"
        using st n 3 by (auto simp: Let_def bind_eq_Some_conv split: list.splits if_splits)
      show ?thesis
        unfolding f(12)
        by (rule is_stmt_is_body_in_row.iteration [OF n 3 f(1,4,2) at [OF f(5)] f(3) at [OF f(6)] at [OF f(7)]
            read_expr_sound [OF all f(9)] read_expr_sound [OF all f(10)] at [OF f(8)] body [OF f(11)]])
    next
      case 4
      then obtain A where A: "st = Block A" "read_row s k n (Suc n) (kids_of s n) hi = Some A" using st n by (auto simp: Let_def)
      show ?thesis
        unfolding A(1) by (rule is_stmt_is_body_in_row.block [OF is_stmt_is_body_in_row.scope [OF n 4 row [OF A(2)]]])
    qed
  next
    assume "read_body s (Suc k) n hi = Some sts"
    then show "is_body s (Suc k) n hi sts" using row by (auto intro!: is_stmt_is_body_in_row.scope split: if_splits)
  qed
qed simp

end
