(* ===== verification/Codegen_Correctness.thy ===== *)
theory Codegen_Correctness
  imports Codegen_Loops Codegen_Reading Codegen_Store
begin

text \<open>
  The code that the generator emits computes what the program says, for bodies of declarations, assignments, \<open>if\<close> and
  \<open>for\<close> over \<open>int\<close>: the generator returns without an error, and running the code that it has added, from block to block,
  takes the memory before the body to the memory after it.
\<close>

section \<open>Bodies of statements\<close>

lemma all_compiled:
  assumes F: "folding_sound (builder Env)"
  shows "(is_stmt s k n hi st \<longrightarrow> ready f s n hi D slot \<longrightarrow> stmt_ok D st \<longrightarrow> slots_ok D slot (made_so_far s) \<longrightarrow>
      stmt_compiled Env f k pass s n hi st D slot)
    \<and> (is_body s k n hi sts \<longrightarrow> ready f s n hi D slot \<longrightarrow> stmts_ok D sts \<longrightarrow> slots_ok D slot (made_so_far s) \<longrightarrow>
      body_compiled Env f k pass s n hi sts D slot)"
proof (induction k arbitrary: s n hi st sts D slot)
  case 0
  then show ?case by (auto elim: is_stmt_cases is_body_cases)
next
  case (Suc k)
  have bodies: "body_compiled Env f k pass s b hi sts D slot"
    if "is_body s k b hi sts" "ready f s b hi D slot" "stmts_ok D sts" "slots_ok D slot (made_so_far s)" for s b hi sts D slot
    using Suc.IH that by blast
  have stmts: "stmt_compiled Env f k pass s n hi st D slot"
    if "is_stmt s k n hi st" "ready f s n hi D slot" "stmt_ok D st" "slots_ok D slot (made_so_far s)" for s n hi st D slot
    using Suc.IH that by blast
  show ?case
  proof (intro conjI impI)
    assume ok: "ready f s n hi D slot" "stmt_ok D st" "slots_ok D slot (made_so_far s)" and "is_stmt s (Suc k) n hi st"
    from this(4) show "stmt_compiled Env f (Suc k) pass s n hi st D slot"
    proof (cases rule: is_stmt.cases)
      case (assignment l r cs e)
      then show ?thesis using assignment_compiled [OF F assignment(2-8) ok(1) _ ok(3)] ok(2) by simp
    next
      case (declaring l r cs t ts e)
      then show ?thesis using declaration_compiled [OF F declaring(2-11) ok(1) _ ok(3)] ok(2) by simp
    next
      case (conditional c t e cs ce cs' b A B)
      then show ?thesis using conditional_compiled [OF F bodies conditional(2-12) ok(1) _ ok(3)] ok(2) by simp
    next
      case (iteration it r body cs i "is" lower upper cs' a b sts)
      then show ?thesis using iteration_compiled [OF F bodies iteration(2-14) ok(1) _ ok(3)] ok(2) by simp
    next
      case (block sts)
      have "body_compiled Env f (Suc k) pass s n hi sts D slot"
        by (rule scope_compiled [OF _ block(2) ok(1) _ ok(3)]) (use stmts ok(2) block(1) in simp_all)
      then show ?thesis using block_compiled [OF _ ok(1) is_body_within [OF block(2)] ok(3)] block(1) by simp
    qed
  next
    assume b: "is_body s (Suc k) n hi sts" "ready f s n hi D slot" "stmts_ok D sts" "slots_ok D slot (made_so_far s)"
    show "body_compiled Env f (Suc k) pass s n hi sts D slot" by (rule scope_compiled [OF _ b]) (rule stmts)
  qed
qed

text \<open>
  C1. The code for a body computes what the body says, for every body of declarations, assignments, \<open>if\<close>, \<open>for\<close> and inner
  bodies over variables of type \<open>int\<close>, nested in any way. The generator returns without an error. When the program, run
  on a store of 32-bit words, ends in another store, then the machine that stands at the insertion point with the
  variables in their stack slots goes through the emitted code, over the blocks and branches that were made, to the
  new insertion point, and the variables that were declared before the body have their new values in the same slots. A
  program has no meaning at a division by zero or of the least number by \<open>-1\<close>, and at a shift by 32 or more. The builder
  may fold operations on constants, if it folds them to what they compute.
\<close>

theorem program_compiled:
  assumes "folding_sound (builder Env)" and "is_body s k b hi sts" and "ready f s b hi D slot" and "stmts_ok D sts"
    and "slots_ok D slot (made_so_far s)" and "execs sts \<sigma> \<sigma>'" and "holds D slot \<sigma> mem"
  shows "\<exists>s' regs' mem'. generate Env k b pass s = Inr (Nullptr, s') \<and> \<not> wasError s'
    \<and> moves (emitted (ir s')) (standing s (regs, mem)) (standing s' (regs', mem')) \<and> holds D slot \<sigma>' mem'"
proof -
  obtain s' where s': "generate Env k b pass s = Inr (Nullptr, s')" "tidy f s'" "transforms s s' D slot D slot (execs sts)"
    using all_compiled [OF assms(1)] assms(2-5) unfolding body_compiled_def by blast
  obtain regs' mem' where "segment s (regs, mem) s' (regs', mem')" "holds D slot \<sigma>' mem'"
    using transformsD [OF s'(3) assms(7,6)] by blast
  moreover from this(1) have "moves (emitted (ir s') @ []) (standing s (regs, mem)) (standing s' (regs', mem'))"
    unfolding segment_def by blast
  ultimately show ?thesis using s'(1,2) by (auto simp: tidy_def)
qed

section \<open>Loaded trees\<close>

text \<open>Every placed node but those at the top is a child of its parent.\<close>

definition kin :: "nat option \<Rightarrow> nat \<Rightarrow> nat set \<Rightarrow> cell list \<Rightarrow> bool" where
  "kin p n A cells \<longleftrightarrow> (\<forall>c \<in> set cells. sorted_wrt (<) (ckids c)) \<and> (\<forall>i < length cells. cparent (cells ! i) = p \<and> n + i \<in> A
     \<or> (\<exists>j < length cells. cparent (cells ! i) = Some (n + j) \<and> n + i \<in> set (ckids (cells ! j))))"

lemma kin_append:
  assumes "kin p n A xs" and "kin p (n + length xs) B ys"
  shows "kin p n (A \<union> B) (xs @ ys)"
  unfolding kin_def
proof (intro conjI allI impI)
  show "\<forall>c \<in> set (xs @ ys). sorted_wrt (<) (ckids c)" using assms by (auto simp: kin_def)
next
  fix i assume i: "i < length (xs @ ys)"
  show "cparent ((xs @ ys) ! i) = p \<and> n + i \<in> A \<union> B
     \<or> (\<exists>j < length (xs @ ys). cparent ((xs @ ys) ! i) = Some (n + j) \<and> n + i \<in> set (ckids ((xs @ ys) ! j)))"
  proof (cases "i < length xs")
    case True
    then have "cparent (xs ! i) = p \<and> n + i \<in> A \<or> (\<exists>j < length xs. cparent (xs ! i) = Some (n + j) \<and> n + i \<in> set (ckids (xs ! j)))"
      using assms(1) by (simp add: kin_def)
    then show ?thesis using True by (metis UnI1 length_append nth_append trans_less_add1)
  next
    case False
    then obtain k where k: "i = length xs + k" "k < length ys" using i by (metis add_diff_inverse_nat length_append nat_add_left_cancel_less)
    then have "cparent (ys ! k) = p \<and> n + i \<in> B \<or> (\<exists>j < length ys. cparent (ys ! k) = Some (n + (length xs + j)) \<and> n + i \<in> set (ckids (ys ! j)))"
      using assms(2) by (simp add: kin_def add.assoc)
    then show ?thesis using k(1) by (metis UnI2 length_append nat_add_left_cancel_less nth_append_length_plus)
  qed
qed

lemma kin_Cons:
  assumes "kin (Some n) (Suc n) (set kids) cells" and "sorted_wrt (<) kids"
  shows "kin p n {n} (place_cell a p d ls kids # cells)"
  unfolding kin_def
proof (intro conjI allI impI)
  let ?cells = "place_cell a p d ls kids # cells"
  show "\<forall>c \<in> set ?cells. sorted_wrt (<) (ckids c)" using assms by (auto simp: kin_def place_cell_def)
  fix i assume i: "i < length ?cells"
  show "cparent (?cells ! i) = p \<and> n + i \<in> {n} \<or> (\<exists>j < length ?cells. cparent (?cells ! i) = Some (n + j) \<and> n + i \<in> set (ckids (?cells ! j)))"
  proof (cases i)
    case 0
    then show ?thesis by (simp add: place_cell_def)
  next
    case (Suc k)
    then have "cparent (cells ! k) = Some n \<and> n + i \<in> set kids
        \<or> (\<exists>j < length cells. cparent (cells ! k) = Some (n + Suc j) \<and> n + i \<in> set (ckids (cells ! j)))"
      using assms(1) i by (auto simp: kin_def)
    then show ?thesis
    proof (elim disjE exE conjE)
      assume "cparent (cells ! k) = Some n" "n + i \<in> set kids"
      then show ?thesis using Suc by (intro disjI2 exI [of _ 0]) (simp add: place_cell_def)
    next
      fix j assume "j < length cells" "cparent (cells ! k) = Some (n + Suc j)" "n + i \<in> set (ckids (cells ! j))"
      then show ?thesis using Suc by (intro disjI2 exI [of _ "Suc j"]) simp
    qed
  qed
qed

lemma addresses_sorted: "sorted_wrt (<) (addresses n ts)"
proof (induction ts arbitrary: n)
  case (Cons t ts)
  have "0 < node_count t" by (cases t) simp
  then show ?case using Cons addresses_within [of _ "n + node_count t" ts] by fastforce
qed simp

lemma place_tree_kin: "kin p n {n} (place_tree p d n t)" "kin p n (set (addresses n ts)) (place_trees p d n ts)"
proof (induction p d n t and p d n ts rule: place_tree_place_trees.induct)
  case (1 p d n a cs ls)
  then show ?case using kin_Cons addresses_sorted by simp
next
  case (2 p d n)
  then show ?case by (simp add: kin_def)
next
  case (3 p d n t ts)
  then show ?case using kin_append [of p n "{n}" "place_tree p d n t"] place_tree_placed(1) [of p d n t] by (simp add: insert_is_Un [symmetric])
qed

lemma load_tree_ordered: "ordered (load_tree t)" and load_tree_attached: "parent_of (load_tree t) n = Some p \<Longrightarrow> attached (load_tree t) n p"
proof -
  let ?h = "heap_of t" and ?cells = "place_tree None 0 0 t" and ?s = "load_tree t"
  note kin = place_tree_kin(1) [of None 0 0 t]
  have sorted: "sorted_wrt (<) (ckids (?h n))" for n
    using kin by (auto simp: kin_def heap_of_def place_cell_def Let_def)
  have kid: "n \<in> set (ckids (?h p))" if "cparent (?h n) = Some p" for n p
  proof -
    have n: "n < length ?cells" "?h n = ?cells ! n" using that by (auto simp: heap_of_def place_cell_def Let_def split: if_splits)
    then have "cparent (?cells ! n) = None \<and> n = 0 \<or> (\<exists>j < length ?cells. cparent (?cells ! n) = Some j \<and> n \<in> set (ckids (?cells ! j)))"
      using kin by (simp add: kin_def)
    then show ?thesis using that n(2) by (auto simp: heap_of_def Let_def)
  qed
  have fields: "parent_of ?s n = cparent (?h n)" "kids_of ?s n = ckids (?h n)" "depth_of ?s n = node_depth (cinfo (?h n))" for n
    by (simp_all add: load_tree_def load_heap_def node_of_cell_def Let_def)
  show "ordered ?s"
    unfolding ordered_def list_all_iff
  proof (intro allI conjI impI ballI)
    fix n p assume "attached ?s n p"
    then have "cparent (?h n) = Some p" using attachedD(1) fields(1) by metis
    note up = linked_parent [OF heap_of_linked this]
    show "p < n" using up by blast
    show "depth_of ?s p < depth_of ?s n" using up unfolding fields by blast
  next
    show "sorted_wrt (<) (kids_of ?s n)" for n unfolding fields by (rule sorted)
    show "n < c" if "c \<in> set (kids_of ?s n)" for n c using linked_kid [OF heap_of_linked that [unfolded fields]] by blast
  qed
  show "parent_of ?s n = Some p \<Longrightarrow> attached ?s n p"
  proof (induction n arbitrary: p rule: less_induct)
    case (less n)
    have "cparent (?h n) = Some p" using less.prems unfolding fields .
    then have p: "p < n" "n \<in> set (kids_of ?s p)" using linked_parent [OF heap_of_linked] kid unfolding fields by blast+
    show ?case by (rule attached.intros [OF less.prems p(2)]) (rule less.IH [OF p(1)])
  qed
qed

section \<open>A program\<close>

text \<open>\<open>for(i : 0..3){ if(i == 1){ y : int = x * 10; x = y; } else { x = x + (2 * i); } }\<close>, with the nodes that the parser
  makes of it.\<close>

definition variable_node :: "string \<Rightarrow> ast" where
  "variable_node x = sample_node Identifier_Node generateVariableExpression x []"

definition number_node :: "string \<Rightarrow> ast" where
  "number_node x = sample_node Integer_Node generateConstant x []"

definition operator_node :: "ASTNodeType \<Rightarrow> string \<Rightarrow> ast \<Rightarrow> ast \<Rightarrow> ast" where
  "operator_node ty x l r = sample_node ty generateBinaryExpression x [l, r]"

definition scope_node :: "ast list \<Rightarrow> ast" where
  "scope_node cs = sample_node Scope_Body generateScopeBody [] cs"

definition sample_loop :: ast where
  "sample_loop = scope_node [scope_node
     [sample_node For_Statement_Node generateFor ''for''
       [sample_node Iterator generateIterator [] [variable_node ''i''],
        operator_node Range_Node ''..'' (number_node ''0'') (number_node ''3''),
        scope_node
          [sample_node If_Statement_Node generateIf ''if''
            [sample_node Condition No_Codegen [] [operator_node Compare_Equal ''=='' (variable_node ''i'') (number_node ''1'')],
             scope_node
               [sample_node Expression_Statement generateExpressionStatement ''=''
                 [sample_node Identifier_Node generateVariableExpression ''y'' [sample_node Type_Node generateVariableExpression ''int'' []],
                  operator_node Expression_Times ''*'' (variable_node ''x'') (number_node ''10'')],
                sample_node Expression_Statement generateExpressionStatement ''='' [variable_node ''x'', variable_node ''y'']],
             sample_node Else_Statement_Node generateScopeBody []
               [scope_node
                 [sample_node Expression_Statement generateExpressionStatement ''=''
                   [variable_node ''x'',
                    sample_node Expression_Term generateExpression []
                      [operator_node Expression_Plus ''+'' (variable_node ''x'')
                        (sample_node Expression_Paren_Term generateExpression []
                          [operator_node Expression_Times ''*'' (number_node ''2'') (variable_node ''i'')])]]]]]]]]]"

definition loop_body :: "stmt list" where
  "loop_body =
     [If_Else (Test Compare_Equal (Var ''i'') (Lit 1))
       [Declare ''y'' (Op Expression_Times (Var ''x'') (Lit 10)), Assign ''x'' (Var ''y'')]
       [Block [Assign ''x'' (Op Expression_Plus (Var ''x'') (Op Expression_Times (Lit 2) (Var ''i'')))]]]"

definition loop_program :: "stmt list" where
  "loop_program = [For_Range ''i'' (Lit 0) (Lit 3) loop_body]"

text \<open>The variable \<open>x\<close> is in the slot 0, declared at the root.\<close>

definition loop_state :: gstate where
  "loop_state = (let s = load_tree sample_loop; x = \<lparr>vt_name = ''x'', vt_type = ''int'', vt_val = Stack_Slot 0 (Int_Ty 32)\<rparr>
     in s\<lparr>nodeStore := (nodeStore s)(0 := (nodeStore s 0)\<lparr>g_namedValues := [(''x'', x)]\<rparr>),
          ir := (ir s)\<lparr>emitted := [(Some 0, Entry_Alloca 0 (Int_Ty 32) ''x'')], blocks := [\<lparr>bb_name = ''entry'', bb_parent = Some 0\<rparr>],
            insertBlock := Some 0\<rparr>\<rparr>)"

lemma loop_state_agrees: "agree (load_tree sample_loop) loop_state"
proof -
  let ?s = "load_tree sample_loop"
  let ?x = "\<lparr>vt_name = ''x'', vt_type = ''int'', vt_val = Stack_Slot 0 (Int_Ty 32)\<rparr>"
  have "agree ?s (?s\<lparr>nodeStore := (nodeStore ?s)(0 := (nodeStore ?s 0)\<lparr>g_namedValues := [(''x'', ?x)]\<rparr>)\<rparr>)" by (rule agree_names)
  then show ?thesis unfolding loop_state_def Let_def using agree_trans agree_module by fastforce
qed

lemma loop_state_read: "read_body (load_tree sample_loop) 12 1 35 = Some loop_program"
  by code_simp

definition loop_status :: "string \<Rightarrow> status" where
  "loop_status = (\<lambda>_. Absent)(''x'' := Visible)"

lemma loop_state_names: "names_of loop_state n = (if n = 0 then [(''x'', \<lparr>vt_name = ''x'', vt_type = ''int'', vt_val = Stack_Slot 0 (Int_Ty 32)\<rparr>)] else [])"
  by (simp add: loop_state_def Let_def load_tree_def load_heap_def node_of_cell_def)

lemma loop_state_ready: "ready 0 loop_state 1 35 loop_status (\<lambda>_. 0)"
proof (rule readyI)
  have one: "parent_of (load_tree sample_loop) 1 = Some 0" "depth_of (load_tree sample_loop) 0 = 0" by code_simp+
  show "ordered loop_state" by (rule agree_ordered [OF loop_state_agrees load_tree_ordered])
  show "attached loop_state 1 0"
    using load_tree_attached [OF one(1)] by (simp add: agree_attached [OF loop_state_agrees])
  then have "view loop_state 1 x r \<longleftrightarrow> r = map_of (names_of loop_state 0) x" for x r
    using one(2) by (auto simp: view_some agree_fields [OF loop_state_agrees] find_up_root simp del: find_up.simps)
  then show "sees loop_state 1 loop_status (\<lambda>_. 0)" by (auto simp: sees_def loop_status_def loop_state_names)
qed (simp_all add: tidy_def blank_def loop_state_names, simp_all add: loop_state_def Let_def load_tree_starts)

definition loop_store :: "32 word \<Rightarrow> 32 word \<Rightarrow> 32 word \<Rightarrow> store" where
  "loop_store x y i = (\<lambda>_. 0)(''x'' := x, ''y'' := y, ''i'' := i)"

lemma loop_store_simps [simp]:
  "loop_store x y i ''x'' = x" "loop_store x y i ''y'' = y" "loop_store x y i ''i'' = i"
  "(loop_store x y i)(''x'' := v) = loop_store v y i" "(loop_store x y i)(''y'' := v) = loop_store x v i"
  "(loop_store x y i)(''i'' := v) = loop_store x y v"
  by (auto simp: loop_store_def fun_eq_iff)

text \<open>What the body does with the value \<open>1\<close> of \<open>i\<close>, and with another.\<close>

lemma loop_body_executes:
  shows "execs loop_body (loop_store x y 1) (loop_store (x * 10) (x * 10) 1)" and "i \<noteq> 1 \<Longrightarrow> execs loop_body (loop_store x y i) (loop_store (x + 2 * i) y i)"
proof -
  have "execs [Declare ''y'' (Op Expression_Times (Var ''x'') (Lit 10)), Assign ''x'' (Var ''y'')] (loop_store x y 1) (loop_store (x * 10) (x * 10) 1)"
    using exec_execs_rounds.declared [of "loop_store x y 1" "Op Expression_Times (Var ''x'') (Lit 10)" "x * 10" "''y''"]
      exec_execs_rounds.assigned [of "loop_store x (x * 10) 1" "Var ''y''" "x * 10" "''x''"]
    by (auto intro!: exec_execs_rounds.sequence exec_execs_rounds.nothing simp: source_op_def Let_def)
  then show "execs loop_body (loop_store x y 1) (loop_store (x * 10) (x * 10) 1)"
    unfolding loop_body_def by (intro exec_execs_rounds.sequence [OF _ exec_execs_rounds.nothing] exec_execs_rounds.branched [where t = True])
      (simp_all add: source_test_def)
  have "exec (Assign ''x'' (Op Expression_Plus (Var ''x'') (Op Expression_Times (Lit 2) (Var ''i'')))) (loop_store x y i) (loop_store (x + 2 * i) y i)"
    using exec_execs_rounds.assigned [of "loop_store x y i" "Op Expression_Plus (Var ''x'') (Op Expression_Times (Lit 2) (Var ''i''))" "x + 2 * i" "''x''"]
    by (simp add: source_op_def Let_def)
  then show "i \<noteq> 1 \<Longrightarrow> execs loop_body (loop_store x y i) (loop_store (x + 2 * i) y i)"
    unfolding loop_body_def
    by (intro exec_execs_rounds.sequence [OF _ exec_execs_rounds.nothing] exec_execs_rounds.branched [where t = False])
      (auto simp: source_test_def intro: exec_execs_rounds.nested exec_execs_rounds.sequence [OF _ exec_execs_rounds.nothing])
qed

lemma loop_program_executes: "execs loop_program (loop_store 4 0 0) (loop_store 44 40 3)"
proof -
  have once: "rounds ''i'' (Lit 3) loop_body (loop_store x y i) \<sigma>'"
    if "sint i < 3" "execs loop_body (loop_store x y i) (loop_store x' y' i)" "rounds ''i'' (Lit 3) loop_body (loop_store x' y' (i + 1)) \<sigma>'" for x y i x' y' \<sigma>'
    using exec_execs_rounds.round [of "loop_store x y i" "Lit 3" 3 "''i''" loop_body "loop_store x' y' i" \<sigma>'] that by simp
  have "rounds ''i'' (Lit 3) loop_body (loop_store 44 40 3) (loop_store 44 40 3)" by (rule exec_execs_rounds.finished [where v = 3]) simp_all
  then have "rounds ''i'' (Lit 3) loop_body (loop_store 40 40 2) (loop_store 44 40 3)" using once [OF _ loop_body_executes(2) [of 2 40 40]] by simp
  then have "rounds ''i'' (Lit 3) loop_body (loop_store 4 0 1) (loop_store 44 40 3)" using once [OF _ loop_body_executes(1) [of 4 0]] by simp
  then have "rounds ''i'' (Lit 3) loop_body (loop_store 4 0 0) (loop_store 44 40 3)" using once [OF _ loop_body_executes(2) [of 0 4 0]] by simp
  then have "exec (For_Range ''i'' (Lit 0) (Lit 3) loop_body) (loop_store 4 0 0) (loop_store 44 40 3)"
    by (intro exec_execs_rounds.looped [where v = 0]) simp_all
  then show ?thesis unfolding loop_program_def by (rule exec_execs_rounds.sequence [OF _ exec_execs_rounds.nothing])
qed

lemma program_compiled_witness:
  "\<exists>s' regs' mem'. generate sample_env 12 1 2 loop_state = Inr (Nullptr, s') \<and> \<not> wasError s'
    \<and> moves (emitted (ir s')) (standing loop_state (\<lambda>_. 0, (\<lambda>_. 0)(0 := 4))) (standing s' (regs', mem')) \<and> mem' 0 = 44"
proof -
  have "is_body loop_state 12 1 35 loop_program"
    using read_sound [OF load_tree_attached] loop_state_read is_stmt_agree(2) [OF loop_state_agrees] by blast
  moreover have "folding_sound (builder sample_env)" by (simp add: folding_sound_def sample_env_def)
  moreover have "stmts_ok loop_status loop_program" by (simp add: loop_program_def loop_body_def loop_status_def)
  moreover have "slots_ok loop_status (\<lambda>_. 0) (made_so_far loop_state)"
    by (simp add: slots_ok_def loop_status_def inj_on_def loop_state_def Let_def)
  moreover have "holds loop_status (\<lambda>_. 0) (loop_store 4 0 0) ((\<lambda>_. 0)(0 := 4))" by (simp add: holds_def loop_status_def)
  ultimately obtain s' regs' mem' where "generate sample_env 12 1 2 loop_state = Inr (Nullptr, s')" "\<not> wasError s'"
      "moves (emitted (ir s')) (standing loop_state (\<lambda>_. 0, (\<lambda>_. 0)(0 := 4))) (standing s' (regs', mem'))"
      "holds loop_status (\<lambda>_. 0) (loop_store 44 40 3) mem'"
    using program_compiled loop_state_ready loop_program_executes by meson
  moreover from this(4) have "mem' 0 = 44" by (auto simp: holds_def loop_status_def dest: spec [of _ "''x''"])
  ultimately show ?thesis by blast
qed

end
