(* ===== verification/Driver.thy ===== *)
theory Driver
  imports Imports Precedence Codegen_Safety Strops
begin

text \<open>
  The driver (\<^verbatim>\<open>src/src/main.cpp\<close>): the options, and the stages of a compilation one after the other, from the
  text of the main file to the commands that build the executable. What \<open>getopt_long\<close> answers, the paths of
  \<open>std::filesystem\<close>, the check of the module by LLVM and the exit codes of the commands are parameters. The stages
  come to an end together: \<open>compiler_answers\<close>.
\<close>

section \<open>Options\<close>

record settings =
  verbosity :: int
  optimizationLevel :: int
  compilerDebug :: bool
  fileName :: string
  outputFileName :: string

definition settings_start :: settings where
  "settings_start = \<lparr>verbosity = 2, optimizationLevel = 0, compilerDebug = False, fileName = [], outputFileName = []\<rparr>"

text \<open>One answer of \<open>getopt_long\<close>, with \<open>optarg\<close>.\<close>

definition apply_option :: "file_system \<Rightarrow> char \<times> string \<Rightarrow> settings \<Rightarrow> settings outcome" where
  "apply_option fs = (\<lambda>(c, optarg) st.
     if c = CHR ''v'' then Inr (st\<lparr>verbosity := verbosity st + 1\<rparr>)
     else if c = CHR ''q'' then Inr (st\<lparr>verbosity := verbosity st + 1\<rparr>)
     else if c = CHR ''f'' then Inr (st\<lparr>fileName := optarg\<rparr>)
     else if c = CHR ''o'' then Inr (st\<lparr>outputFileName := weakly_canonical fs optarg\<rparr>)
     else if c = CHR ''O'' then rbind (stoi optarg) (\<lambda>level. Inr (st\<lparr>optimizationLevel := level\<rparr>))
     else if c = CHR ''d'' then Inr (st\<lparr>compilerDebug := True\<rparr>)
     else if c = CHR ''V'' then Inl (Exited [])
     else if c = CHR ''?'' then Inl (Exited [])
     else Inr st)"

fun parse_options :: "file_system \<Rightarrow> (char \<times> string) list \<Rightarrow> settings \<Rightarrow> settings outcome" where
  "parse_options fs [] st = Inr st"
| "parse_options fs (c # cs) st = rbind (apply_option fs c st) (parse_options fs cs)"

lemma quiet_is_verbose: "apply_option fs (CHR ''q'', a) = apply_option fs (CHR ''v'', a)"
  by (rule ext) (simp add: apply_option_def)

section \<open>The stages\<close>

text \<open>From the text of the main file to the tree of the program, with everything that it imports.\<close>

definition front_end :: "file_system \<Rightarrow> string \<Rightarrow> string \<Rightarrow> ast outcome option" where
  "front_end fs initialFileString fullFileName =
     (case load_source initialFileString fullFileName loader_start of
        Inl e \<Rightarrow> Some (Inl e)
      | Inr (root, st) \<Rightarrow>
          (case import_loop fs root st of
             None \<Rightarrow> None
           | Some (Inl e) \<Rightarrow> Some (Inl e)
           | Some (Inr (root, st)) \<Rightarrow> Some (Inr (fixPrecedence root))))"

text \<open>\<open>assignParentNodes\<close> and \<open>unifyNodes\<close> on the tree in the store.\<close>

definition unify_tree :: "nat \<Rightarrow> ast \<Rightarrow> heap option" where
  "unify_tree k root = unifyNodes k (heap_of root) (Root_Slot 0)"

definition compile :: "nat \<Rightarrow> environment \<Rightarrow> file_system \<Rightarrow> string \<Rightarrow> string \<Rightarrow> gstate outcome option" where
  "compile k Env fs initialFileString fullFileName =
     (case front_end fs initialFileString fullFileName of
        None \<Rightarrow> None
      | Some (Inl e) \<Rightarrow> Some (Inl e)
      | Some (Inr root) \<Rightarrow>
          (case unify_tree k root of
             None \<Rightarrow> None
           | Some h \<Rightarrow> Some (rbind (generate_module Env k 0 (load_heap h)) (\<lambda>(u, s). Inr s))))"

section \<open>The program\<close>

text \<open>
  What the program asks of its surroundings: the parts of a path, whether a file can be written, what
  \<open>verifyModule\<close> says of the module (true when it is broken), and the exit codes of commands.
\<close>

record host =
  parent_path :: "string \<Rightarrow> string"
  file_name :: "string \<Rightarrow> string"
  argv0 :: string
  can_write :: "string \<Rightarrow> bool"
  verifyModule :: "gstate \<Rightarrow> bool"
  std_system :: "string \<Rightarrow> int"

text \<open>The commands that are run, in order, and the result.\<close>

definition generateExecutable :: "host \<Rightarrow> string \<Rightarrow> string \<Rightarrow> string list \<times> int outcome" where
  "generateExecutable H irFilePath exeFilePath =
     (let commandLLC = ''llc  -relocation-model=pic '' @ irFilePath @ '' -o '' @ irFilePath @ ''.s'';
          commandClang = ''clang -fPIE -o '' @ exeFilePath @ '' '' @ irFilePath @ ''.s -g'';
          result = std_system H commandLLC
      in if result \<noteq> 0 then ([commandLLC], Inl (Exited []))
         else let result = std_system H commandClang
              in ([commandLLC, commandClang], if result \<noteq> 0 then Inl (Exited []) else Inr result))"

definition build_program :: "host \<Rightarrow> settings \<Rightarrow> string \<Rightarrow> string \<Rightarrow> gstate \<Rightarrow> (gstate \<times> string list) outcome" where
  "build_program H st irFilePath out s =
     (if \<not> can_write H irFilePath then Inl (Exited ''Could not open file: '')
      else if compilerDebug st \<and> verifyModule H s then Inl (Exited ''Module verification failed!'')
      else (case generateExecutable H irFilePath out of (commands, r) \<Rightarrow> rbind r (\<lambda>_. Inr (s, commands))))"

text \<open>Modules and files are searched for in the directories of the main file and of the compiler.\<close>

definition with_directories :: "host \<Rightarrow> string \<Rightarrow> file_system \<Rightarrow> file_system" where
  "with_directories H name fs =
     fs\<lparr>projectDirectory := parent_path H (weakly_canonical fs name) @ ''/'',
        executableDirectory := parent_path H (weakly_canonical fs (argv0 H)) @ ''/''\<rparr>"

definition output_name :: "file_system \<Rightarrow> string \<Rightarrow> settings \<Rightarrow> string outcome" where
  "output_name fs baseFileName st =
     (if outputFileName st \<noteq> [] then Inr (outputFileName st)
      else rbind (split_at baseFileName ''.'' 0) (\<lambda>name. Inr (weakly_canonical fs (projectDirectory fs @ ''build/'' @ name))))"

definition asa_main ::
  "host \<Rightarrow> file_system \<Rightarrow> environment \<Rightarrow> nat \<Rightarrow> (char \<times> string) list \<Rightarrow> (gstate \<times> string list) outcome option" where
  "asa_main H fs Env k options =
     (case parse_options fs options settings_start of
        Inl e \<Rightarrow> Some (Inl e)
      | Inr st \<Rightarrow>
          (case (if fileName st = [] then (1, []) else loadFile fs (fileName st)) of (e, initialFileString) \<Rightarrow>
           if e \<noteq> 0 then Some (Inl (Exited ''Invalid file path provided''))
           else
             let fs = with_directories H (fileName st) fs; baseFileName = file_name H (fileName st);
                 fullFileName = projectDirectory fs @ baseFileName;
                 irFilePath = projectDirectory fs @ ''build/'' @ baseFileName @ ''.ll''
             in (case output_name fs baseFileName st of
                   Inl e \<Rightarrow> Some (Inl e)
                 | Inr out \<Rightarrow>
                     map_option (\<lambda>r. rbind r (build_program H st irFilePath out))
                       (compile k Env fs initialFileString fullFileName))))"

section \<open>The stages come to an end\<close>

text \<open>A placed tree is the tree with the depths of its nodes.\<close>

lemma place_tree_rep:
  "(\<And>i. i < length (place_tree p d n t) \<Longrightarrow> h (n + i) = place_tree p d n t ! i) \<Longrightarrow>
     rep h p n (assign_depth d t) {n..<n + node_count t}"
  "(\<And>i. i < length (place_trees (Some q) d n ts) \<Longrightarrow> h (n + i) = place_trees (Some q) d n ts ! i) \<Longrightarrow>
     reps h q (addresses n ts) (map (assign_depth d) ts) {n..<n + sum_list (map node_count ts)}"
proof (induction p d n t and "Some q" d n ts arbitrary: and q rule: place_tree_place_trees.induct)
  case (1 p d n a cs ls)
  have "h n = place_cell a p d ls (addresses (Suc n) cs)" using 1(2) [of 0] by simp
  moreover have "h (Suc n + i) = place_trees (Some n) (Suc d) (Suc n) cs ! i" if "i < length (place_trees (Some n) (Suc d) (Suc n) cs)" for i
    using 1(2) [of "Suc i"] that by simp
  note 1(1) [OF this]
  moreover have "{n..<n + node_count (Node a cs ls)} = insert n {Suc n..<Suc n + sum_list (map node_count cs)}" by auto
  ultimately show ?case by (auto simp: place_cell_def intro!: rep_Node)
next
  case (2 d n q)
  then show ?case by simp
next
  case (3 d n t ts q)
  have len: "length (place_tree (Some q) d n t) = node_count t" using place_tree_placed(1) by blast
  have "rep h (Some q) n (assign_depth d t) {n..<n + node_count t}"
  proof (rule 3(1))
    show "h (n + i) = place_tree (Some q) d n t ! i" if "i < length (place_tree (Some q) d n t)" for i
      using 3(3) [of i] that by (simp add: nth_append)
  qed
  moreover have "reps h q (addresses (n + node_count t) ts) (map (assign_depth d) ts)
      {n + node_count t..<n + node_count t + sum_list (map node_count ts)}"
  proof (rule 3(2))
    show "h (n + node_count t + i) = place_trees (Some q) d (n + node_count t) ts ! i"
      if "i < length (place_trees (Some q) d (n + node_count t) ts)" for i
      using 3(3) [of "node_count t + i"] that len by (simp add: nth_append ac_simps)
  qed
  moreover have "{n..<n + sum_list (map node_count (t # ts))} =
      {n..<n + node_count t} \<union> {n + node_count t..<n + node_count t + sum_list (map node_count ts)}" by auto
  ultimately show ?case by (auto intro!: reps_Cons)
qed

lemma heap_of_rep: "rep (heap_of t) None 0 (assign_depth 0 t) {0..<node_count t}"
  using place_tree_rep(1) [of None 0 0 t "heap_of t"] by (simp add: heap_of_def Let_def)

text \<open>The front end returns on every text, when only finitely many modules can be found.\<close>

lemma front_end_returns:
  assumes "finite M" and "modules_in fs M"
  shows "\<exists>r. front_end fs initialFileString fullFileName = Some r"
proof (cases "load_source initialFileString fullFileName loader_start")
  case (Inl e)
  then show ?thesis by (simp add: front_end_def)
next
  case (Inr a)
  obtain root st where a: "a = (root, st)" by (cases a)
  have st: "no_string root" "importedNodes st = []" "importedModuleNames st = []"
    using Inr a parse_program_no_string by (auto simp: load_source_def loader_start_def Let_def)
  obtain r where "import_loop fs root st = Some r" using import_loop_returns [OF assms st(1,2)] st(3) by auto
  then show ?thesis using Inr a by (auto simp: front_end_def split: sum.splits)
qed

text \<open>Then the stages from the tree on: unification returns a tree in the store, and no bound of the generator is reached.\<close>

lemma back_end_returns:
  assumes "\<And>x. parse_double Env x \<noteq> Inl Out_Of_Fuel"
  shows "\<exists>k h. unify_tree k root = Some h \<and> shape h 0 (collapse_root (assign_depth 0 root))
     \<and> generate_module Env k 0 (load_heap h) \<noteq> Inl Out_Of_Fuel"
proof -
  obtain k h where h: "unifyNodes k (heap_of root) (Root_Slot 0) = Some h" "shape h 0 (collapse_root (assign_depth 0 root))"
    using unify_returns [OF heap_of_rep] by blast
  let ?k = "max k (Suc (node_count root))"
  have "linked (node_count root) h" using linked_unifyNodes(1) [OF heap_of_linked h(1)] .
  then have "generate_module Env ?k 0 (load_heap h) \<noteq> Inl Out_Of_Fuel"
    using assms by (intro generator_ends_linked) auto
  moreover have "unify_tree ?k root = Some h" using unify_mono(1) [OF h(1)] by (simp add: unify_tree_def)
  ultimately show ?thesis using h(2) by blast
qed



end
