(* ===== verification/Dependencies.thy ===== *)
theory Dependencies
  imports Codegen_Store
begin

text \<open>
  \<open>resolveDependencies\<close> (\<^verbatim>\<open>src/src/dependencies.cpp\<close>), a check that every call has a definition in some scope around
  it. The driver has its call in a comment. The search goes from the node up; the first argument bounds the depth of
  calls and of climbs.
\<close>

section \<open>The search\<close>

definition defines_name :: "heap \<Rightarrow> string \<Rightarrow> nat \<Rightarrow> bool" where
  "defines_name h identifier c \<longleftrightarrow> ctype h c \<in> {Compiler_Define_Function, Compiler_Define, Compiler_Define_Cast}
     \<and> tk_first (node_token (cinfo (h c))) = identifier"

fun search_definition :: "nat \<Rightarrow> heap \<Rightarrow> nat option \<Rightarrow> string \<Rightarrow> bool option" where
  "search_definition 0 h p identifier = None"
| "search_definition (Suc k) h None identifier = Some False"
| "search_definition (Suc k) h (Some p) identifier =
     (if list_ex (defines_name h identifier) (ckids (h p)) then Some True
      else search_definition k h (cparent (h p)) identifier)"

fun resolveDependencies :: "nat \<Rightarrow> heap \<Rightarrow> nat \<Rightarrow> int outcome"
  and resolve_kids :: "nat \<Rightarrow> heap \<Rightarrow> nat list \<Rightarrow> unit outcome" where
  "resolveDependencies 0 h n = Inl Out_Of_Fuel"
| "resolveDependencies (Suc k) h n =
     rbind (resolve_kids k h (ckids (h n))) (\<lambda>_.
       if ctype h n = Function_Call
       then (case search_definition k h (cparent (h n)) (tk_first (node_token (cinfo (h n)))) of
               None \<Rightarrow> Inl Out_Of_Fuel
             | Some True \<Rightarrow> Inr 1
             | Some False \<Rightarrow> token_error (node_token (cinfo (h n))) ''Function definition not found'')
       else Inr 1)"
| "resolve_kids k h [] = Inr ()"
| "resolve_kids k h (c # cs) = rbind (resolveDependencies k h c) (\<lambda>_. resolve_kids k h cs)"

section \<open>What it checks\<close>

text \<open>A scope around the node has a definition of the name.\<close>

inductive in_scope :: "heap \<Rightarrow> string \<Rightarrow> nat \<Rightarrow> bool" where
  here: "cparent (h n) = Some p \<Longrightarrow> c \<in> set (ckids (h p)) \<Longrightarrow> defines_name h x c \<Longrightarrow> in_scope h x n"
| outer: "cparent (h n) = Some p \<Longrightarrow> in_scope h x p \<Longrightarrow> in_scope h x n"

inductive_cases in_scopeE: "in_scope h x n"

text \<open>The nodes below a node.\<close>

inductive below :: "heap \<Rightarrow> nat \<Rightarrow> nat \<Rightarrow> bool" where
  self: "below h n n"
| kid: "c \<in> set (ckids (h n)) \<Longrightarrow> below h c m \<Longrightarrow> below h n m"

inductive_cases belowE: "below h n m"

definition calls_defined :: "heap \<Rightarrow> nat \<Rightarrow> bool" where
  "calls_defined h n \<longleftrightarrow> (\<forall>m. below h n m \<longrightarrow> ctype h m = Function_Call \<longrightarrow> in_scope h (tk_first (node_token (cinfo (h m)))) m)"

lemma below_iff: "below h n m \<longleftrightarrow> m = n \<or> (\<exists>c \<in> set (ckids (h n)). below h c m)"
  by (auto elim: belowE intro: below.intros)

lemma calls_defined_iff:
  "calls_defined h n \<longleftrightarrow> (ctype h n = Function_Call \<longrightarrow> in_scope h (tk_first (node_token (cinfo (h n)))) n)
     \<and> (\<forall>c \<in> set (ckids (h n)). calls_defined h c)"
  unfolding calls_defined_def by (subst below_iff) blast

lemma in_scope_iff:
  "in_scope h x n \<longleftrightarrow> (\<exists>p. cparent (h n) = Some p \<and> (list_ex (defines_name h x) (ckids (h p)) \<or> in_scope h x p))"
  by (auto simp: list_ex_iff elim: in_scopeE intro: in_scope.intros)

text \<open>Climbs end, since parents lie in front of their children.\<close>

lemma search_definition_in_scope:
  "linked N h \<Longrightarrow> n < k \<Longrightarrow> search_definition k h (cparent (h n)) x = Some (in_scope h x n)"
proof (induction k arbitrary: n)
  case (Suc k)
  show ?case
  proof (cases "cparent (h n)")
    case None
    then show ?thesis by (subst in_scope_iff) simp
  next
    case (Some p)
    then have "p < k" using linked_parent [OF Suc.prems(1) Some] Suc.prems(2) by simp
    then have "search_definition k h (cparent (h p)) x = Some (in_scope h x p)" using Suc by simp
    then show ?thesis using Some by (subst in_scope_iff) simp
  qed
qed simp

lemma resolve_kids_iff:
  "(\<And>c. c \<in> set cs \<Longrightarrow> resolveDependencies k h c \<noteq> Inl Out_Of_Fuel \<and> (isr (resolveDependencies k h c) \<longleftrightarrow> calls_defined h c)) \<Longrightarrow>
   resolve_kids k h cs \<noteq> Inl Out_Of_Fuel \<and> (isr (resolve_kids k h cs) \<longleftrightarrow> (\<forall>c \<in> set cs. calls_defined h c))"
proof (induction cs)
  case (Cons c cs)
  have "resolveDependencies k h c \<noteq> Inl Out_Of_Fuel" "isr (resolveDependencies k h c) \<longleftrightarrow> calls_defined h c"
    using Cons.prems by simp_all
  moreover have "resolve_kids k h cs \<noteq> Inl Out_Of_Fuel \<and> (isr (resolve_kids k h cs) \<longleftrightarrow> (\<forall>c \<in> set cs. calls_defined h c))"
    using Cons by simp
  ultimately show ?case by (cases "resolveDependencies k h c") simp_all
qed simp

lemma token_error_ends: "token_error t m \<noteq> Inl Out_Of_Fuel"
  by (simp add: token_error_def)

lemma resolveDependencies_iff:
  assumes "linked N h"
  shows "n < N \<Longrightarrow> 2 * N < k + n \<Longrightarrow>
    resolveDependencies k h n \<noteq> Inl Out_Of_Fuel \<and> (isr (resolveDependencies k h n) \<longleftrightarrow> calls_defined h n)"
proof (induction k arbitrary: n)
  case (Suc k)
  have kids: "resolve_kids k h (ckids (h n)) \<noteq> Inl Out_Of_Fuel
     \<and> (isr (resolve_kids k h (ckids (h n))) \<longleftrightarrow> (\<forall>c \<in> set (ckids (h n)). calls_defined h c))"
  proof (rule resolve_kids_iff)
    fix c assume "c \<in> set (ckids (h n))"
    then have "n < c" "c < N" using linked_kid [OF assms] by auto
    then show "resolveDependencies k h c \<noteq> Inl Out_Of_Fuel \<and> (isr (resolveDependencies k h c) \<longleftrightarrow> calls_defined h c)"
      using Suc by simp
  qed
  have "search_definition k h (cparent (h n)) x = Some (in_scope h x n)" for x
    using search_definition_in_scope [OF assms] Suc.prems by simp
  then show ?case
    using kids token_error_ends
    by (subst calls_defined_iff) (cases "resolve_kids k h (ckids (h n))"; auto split: bool.splits)
qed simp

text \<open>
  C24. On the tree of a program, the check ends, and it succeeds if and only if every call below the root has a
  definition of its name, by \<open>::\<close>, in a scope around it.
\<close>

theorem resolveDependencies_exact:
  "resolveDependencies (2 * node_count t + 1) (heap_of t) 0 \<noteq> Inl Out_Of_Fuel
   \<and> (isr (resolveDependencies (2 * node_count t + 1) (heap_of t) 0) \<longleftrightarrow> calls_defined (heap_of t) 0)"
proof -
  have "0 < node_count t" by (cases t) simp
  then show ?thesis using resolveDependencies_iff [OF heap_of_linked, of 0 t "2 * node_count t + 1"] by simp
qed

end
