(* ===== verification/Spec2Isabelle.thy ===== *)
theory Spec2Isabelle
  imports Tokenizer Comments Parser Well_Formed Precedence Strops_Numbers Imports Unify Optimize Passes Overloads Escapes Llvm_Values Codegen_Safety Codegen_Blocks Codegen_Correctness Driver Dependencies
begin

text \<open>
  A model of the Asa compiler (\<^verbatim>\<open>src/src/\<close>) and its correctness.

  The compiler is a pipeline. \<^verbatim>\<open>main.cpp\<close> reads the options and the main file; \<^verbatim>\<open>tokenizer.cpp\<close> turns text into a
  vector of tokens and takes the comments out; \<open>generateAST\<close> in \<^verbatim>\<open>parser.cpp\<close> makes a tree; the import loop of
  \<^verbatim>\<open>main.cpp\<close> tokenizes and parses the files that the tree asks for and puts their trees in front; \<open>fixPrecedence\<close>
  and \<open>unifyNodes\<close> reshape the tree; three passes of \<open>generateOutputCode\<close> call the generation methods of
  \<^verbatim>\<open>codegen.cpp\<close> (structs, then prototypes, then bodies), which build an LLVM module through the builder; the module
  is written, and \<open>llc\<close> and \<open>clang\<close> make the executable. The stages share globals: the lexer's line store, the name
  sets of the import passes, the tables of functions and structs, the insertion point, \<open>wasError\<close>.

  \<^bold>\<open>Theories and the code they model\<close>

  \<^item> \<open>Prelude\<close>, \<open>Std_String\<close>: outcomes that may fail, enumerations as ordinals with name tables (the locales
    \<open>enum_table\<close> and \<open>string_table\<close>), and what the program uses of \<open>std::string\<close>.
  \<^item> \<open>Tokens\<close> (\<^verbatim>\<open>tokenizer.h\<close>): token types, the token record with its two pointers, and \<open>failure\<close>, the ways in
    which a run can stop.
  \<^item> \<open>Tokenizer\<close>, \<open>Comments\<close> (\<^verbatim>\<open>tokenizer.cpp\<close>): \<open>tokenize\<close> over its globals and locals as one record;
    \<open>labelSubTokens\<close>, \<open>joinCommentTokens\<close>, \<open>removeCommentTokens\<close>.
  \<^item> \<open>Ast_Types\<close>, \<open>Ast\<close> (\<^verbatim>\<open>parser.h\<close>): node types, nodes, the order the generator compares node types by.
  \<^item> \<open>Gather\<close>, \<open>Parser_Cases\<close>, \<open>Parser\<close> (\<^verbatim>\<open>parser.h\<close>, \<^verbatim>\<open>parser.cpp\<close>): the cursor and the \<open>GATHER_\<close> routines, the
    branches of the switch of \<open>generateAST\<close>, and its loop. \<open>Well_Formed\<close> has what holds of every parsed tree, by the
    contract \<open>subparser\<close> of the recursive call.
  \<^item> \<open>Precedence\<close>, \<open>Unify\<close>, \<open>Optimize\<close>, \<open>Passes\<close>, \<open>Imports\<close> (\<^verbatim>\<open>parser.cpp\<close>, \<^verbatim>\<open>filemanager.cpp\<close>): the passes over the tree.
    \<open>Unify\<close> works on a store of cells with parent pointers, since the code writes through a slot that a reference
    of its caller names; the others work on trees.
  \<^item> \<open>Dependencies\<close> (\<^verbatim>\<open>dependencies.cpp\<close>): the check that every call has a definition, on the store of \<open>Unify\<close>.
  \<^item> \<open>Overloads\<close>, \<open>Escapes\<close>, \<open>Llvm_Types\<close>, \<open>Llvm_Values\<close> (\<^verbatim>\<open>codegen.cpp\<close>): the parts of the generator that keep no
    state: the choice of a function, escape sequences, type names, conversions and operators.
  \<^item> \<open>Codegen_State\<close>, \<open>Codegen_Expressions\<close>, \<open>Codegen_Calls\<close>, \<open>Codegen_Statements\<close>, \<open>Codegen_Definitions\<close>
    (\<^verbatim>\<open>codegen.cpp\<close>): the globals and the module under construction, and every generation method, in the order of the
    code, as a function from a state to an outcome. \<open>Codegen_Trees\<close> puts a tree into the store the methods read. \<open>Codegen_Store\<close>
    has the shape of that store, also after \<open>unifyNodes\<close>.
  \<^item> \<open>Console\<close>, \<open>Reports\<close> (\<^verbatim>\<open>console.cpp\<close>, \<^verbatim>\<open>parser.cpp\<close>): coloured output, reports at a token, the tree listing.
  \<^item> \<open>Strops\<close>, \<open>Strops_Numbers\<close> (\<^verbatim>\<open>strops.cpp\<close>): string helpers and arithmetic on numbers kept as text.
  \<^item> \<open>Driver\<close> (\<^verbatim>\<open>main.cpp\<close>): the options, the stages in order, the commands at the end.

  Definitions keep the names of the code; a suffix \<open>_run\<close> marks the body of a generation method, since the plain name
  is the constructor that stands for the method pointer.

  \<^bold>\<open>How the code is rendered\<close>

  A run that ends by \<open>exit\<close>, by an exception that nothing catches or in undefined behaviour is a value of \<open>failure\<close>, so
  every early return is a branch. Vectors are lists with their bounds checked (\<open>vec_at\<close>), and an access past the end is
  \<open>Undefined_Behaviour\<close>. Pointers are positions in a store where the code shares or rewrites nodes, and the nodes
  themselves where it does not; \<open>Shared_Node\<close> marks the two places where a tree cannot say what the code does.
  \<open>int\<close> values that may overflow carry a check, and \<open>uint16_t\<close> and hexadecimal digits are reduced.

  Parameters stand for what is not in the repository: the file system (\<open>file_system\<close>), \<open>double\<close> arithmetic and its
  text (\<open>float_ops\<close>, \<open>environment\<close>), LLVM's folding of constants (\<open>folder\<close>), and what the driver asks of the operating
  system (\<open>host\<close>). LLVM is otherwise what the compiler asks it for: types are values, the builder appends an
  instruction to the block at the insertion point. The stack slot of a variable is made in the entry block of its function, wherever the
  insertion point is.

  \<^bold>\<open>What is shown\<close>

  \<^item> Text to tokens: no significant character is lost or invented, every token has the shape of its type and the pointers
    that a report follows, and after the comment passes exactly the tokens outside comments are left, in bounds.
  \<^item> Tokens to trees: brackets are collected exactly; every node has the children that its generation method indexes, and
    a token of the program.
  \<^item> Tree passes: precedence rotation keeps operands and operators in order and ends in an ordered tree; unification
    refines, on pointers, the collapse of single chains; constant folding computes the value; the import loop ends
    and leaves no directive; the output passes visit every definition in order.
  \<^item> The generator: a logic of state invariants and transition relations (\<open>Codegen_Logic\<close>, \<open>Codegen_Frames\<close>,
    \<open>Codegen_Contracts\<close>), whose locales list what is asked of a relation for each group of assignments. It is
    interpreted for termination, for the tree that stays as it is, for tables that only grow, for errors that are
    reported, for the stacks (\<open>Codegen_Safety\<close>), and for blocks that end in a terminator (\<open>Codegen_Blocks\<close>).
  \<^item> The emitted code: \<open>Codegen_Machine\<close> has a machine for the instructions and blocks of the module, and a language of
    declarations, assignments, \<open>if\<close>, \<open>for\<close> and inner bodies over \<open>int\<close> with its execution. \<open>Codegen_Scopes\<close> follows
    the lookup of variables while a body is generated, \<open>Codegen_Code\<close> and \<open>Codegen_Values\<close> the code of expressions and
    conditions, \<open>Codegen_Control\<close>, \<open>Codegen_Rows\<close>, \<open>Codegen_Branches\<close> and \<open>Codegen_Loops\<close> that of statements.
    \<open>Codegen_Correctness\<close> concludes that running the code of a body computes what the body says. \<open>Codegen_Reading\<close> reads
    the program off the tree.
  \<^item> The stages together: the compiler answers on every input (\<open>Driver\<close>), when finitely many modules can be found.

  \<^bold>\<open>Bounds\<close>

  Loops that may not end are \<open>partial_function (option)\<close> (\<open>import_loop\<close>, \<open>SplitString\<close>), and returning is shown: the
  import loop returns when the module names that can be found are finitely many, \<open>SplitString\<close> when the delimiter is
  not empty. \<open>generateAST\<close> recurses on the levels that \<open>MAX_AST_DEPTH\<close> leaves. \<open>unifyNodes\<close> takes a bound on its
  depth, and some bound is enough for every tree. The generator takes a bound on the depth of calls and of climbs;
  the number of nodes is enough, since calls go to children, to the struct that a type names, or up to a parent.

  \<^bold>\<open>Not modelled\<close>

  \<^item> The set-up of LLVM, \<open>outputObjectFile\<close> (which nothing calls): calls of LLVM only. \<open>verifyFunction\<close>, whose answer is ignored, and the optimisation passes of LLVM on a function.
  \<^item> The handler \<open>catch (...)\<close> around a part of \<open>generatePrototype\<close>: nothing in it throws. LLVM renames parameters and
    blocks whose names repeat; names are not looked up after that, so they are kept as given.
  \<^item> Output at a higher verbosity, the removal of the intermediate files, reading from the keyboard, and the detection of
    a terminal.
  \<^item> \<open>round\<close> to decimal places in \<^verbatim>\<open>strops.cpp\<close>, arithmetic on floating-point numbers only.
  \<^item> \<^verbatim>\<open>output_builder.cpp\<close>, an earlier back end outside the build, and \<^verbatim>\<open>tests.cpp\<close>, test code for debug builds.
  \<^item> Third-party code: the headers of LLVM under \<^verbatim>\<open>src/src/include\<close>, \<^verbatim>\<open>indicators.hpp\<close> and \<^verbatim>\<open>color.hpp\<close>.
\<close>

end
